(* ===== verification/Prelude.thy ===== *)
theory Prelude
  imports Main "HOL-Library.Word" "HOL-Library.AList"
begin

text \<open>
  Shared vocabulary of the Chiralite development: bytes, byte strings and the
  fixed-width big-endian integers of \<^verbatim>\<open>struct.pack\<close> and \<^verbatim>\<open>int.to_bytes\<close>, Python's
  insertion-ordered dictionaries as association lists, results of fallible code
  as sums, and three interfaces the stateful components use: \<open>kv_store\<close> (what a
  lookup returns after an insertion or a removal), \<open>invariant_machine\<close> (an
  invariant every step keeps holds after every run) and \<open>threshold_machine\<close>
  (replaying a run of threshold steps changes nothing).

  Python strings are modelled as \<^typ>\<open>string\<close>: a character stands for a code point
  below 256.  Python integers are \<^typ>\<open>int\<close>, or \<^typ>\<open>nat\<close> where the code cannot
  make them negative.
\<close>

section \<open>Names for the types of the model\<close>

type_synonym byte = "8 word"
type_synonym bytes = "byte list"
type_synonym uuid = "128 word"
type_synonym ('k, 'v) dict = "('k \<times> 'v) list"
type_synonym ('e, 'a) result = "'e + 'a"

named_theorems dict_laws \<open>rewrite rules of the insertion-ordered dictionaries\<close>
named_theorems codec_laws \<open>rewrite rules of the fixed-width integer encodings\<close>

section \<open>Results of fallible code\<close>

definition is_error :: "('e, 'a) result \<Rightarrow> bool" where
  "is_error r = (case r of Inl _ \<Rightarrow> True | Inr _ \<Rightarrow> False)"

lemma is_error_simps [simp]: "is_error (Inl e)" "\<not> is_error (Inr a)"
  by (simp_all add: is_error_def)

lemma not_is_error_conv: "\<not> is_error r \<longleftrightarrow> (\<exists>a. r = Inr a)"
  by (cases r) auto

section \<open>Insertion-ordered dictionaries\<close>

text \<open>
  \<^verbatim>\<open>d[k] = v\<close> overwrites in place or appends at the end, which is what
  \<^const>\<open>AList.update\<close> does; \<^verbatim>\<open>d.get(k)\<close> is \<^const>\<open>map_of\<close>; \<^verbatim>\<open>del d[k]\<close> and
  \<^verbatim>\<open>d.pop(k, None)\<close> are \<^const>\<open>AList.delete\<close>.
\<close>

abbreviation dict_get :: "('k, 'v) dict \<Rightarrow> 'k \<Rightarrow> 'v option" where
  "dict_get d k \<equiv> map_of d k"

abbreviation dict_set :: "'k \<Rightarrow> 'v \<Rightarrow> ('k, 'v) dict \<Rightarrow> ('k, 'v) dict" where
  "dict_set k v d \<equiv> AList.update k v d"

abbreviation dict_del :: "'k \<Rightarrow> ('k, 'v) dict \<Rightarrow> ('k, 'v) dict" where
  "dict_del k d \<equiv> AList.delete k d"

definition dict_ok :: "('k, 'v) dict \<Rightarrow> bool" where
  "dict_ok d \<longleftrightarrow> distinct (map fst d)"

lemma dict_ok_Nil [simp, intro]: "dict_ok []"
  by (simp add: dict_ok_def)

lemma dict_ok_set [simp, intro]: "dict_ok d \<Longrightarrow> dict_ok (dict_set k v d)"
  by (simp add: dict_ok_def distinct_update)

lemma dict_ok_del [simp, intro]: "dict_ok d \<Longrightarrow> dict_ok (dict_del k d)"
  by (simp add: dict_ok_def distinct_delete)

lemma dict_get_set [simp, dict_laws]:
  "dict_get (dict_set k v d) k' = (if k' = k then Some v else dict_get d k')"
  by (simp add: update_conv')

lemma dict_get_del [simp, dict_laws]:
  "dict_get (dict_del k d) k' = (if k' = k then None else dict_get d k')"
  by (simp add: delete_conv')

lemma dict_get_mem: "dict_ok d \<Longrightarrow> dict_get d k = Some v \<longleftrightarrow> (k, v) \<in> set d"
  by (simp add: dict_ok_def)

lemma dict_length_set:
  "length (dict_set k v d) = (if k \<in> fst ` set d then length d else Suc (length d))"
  by (induction d) auto

lemma dict_length_del: "length (dict_del k d) \<le> length d"
  by (rule length_delete_le)

lemma dict_keys_set [simp, dict_laws]: "fst ` set (dict_set k v d) = insert k (fst ` set d)"
  by (simp add: dom_update)

lemma dict_keys_del [simp, dict_laws]: "fst ` set (dict_del k d) = fst ` set d - {k}"
  using arg_cong[OF delete_keys[of k d], of set] by simp

lemma dict_get_None: "dict_get d k = None \<longleftrightarrow> k \<notin> fst ` set d"
  by (rule map_of_eq_None_iff)

lemma dict_set_new: "k \<notin> fst ` set d \<Longrightarrow> dict_set k v d = d @ [(k, v)]"
  by (induction d) auto

lemma fold_dict_del: "fold dict_del ks d = filter (\<lambda>x. fst x \<notin> set ks) d"
  by (induction ks arbitrary: d) (auto simp: AList.delete_eq intro!: filter_cong)

lemma dict_ok_filter: "dict_ok d \<Longrightarrow> dict_ok (filter P d)"
  by (simp add: dict_ok_def distinct_map_filter)

lemma dict_ok_snoc: "dict_ok (d @ [(k, v)]) \<longleftrightarrow> dict_ok d \<and> k \<notin> fst ` set d"
  by (auto simp: dict_ok_def)

lemma dict_ok_tl: "dict_ok d \<Longrightarrow> dict_ok (tl d)"
  by (simp add: dict_ok_def map_tl distinct_tl)

text \<open>Deleting the keys collected by a comprehension over the dictionary itself.\<close>

lemma dict_prune:
  assumes "dict_ok d"
  shows "fold dict_del (map fst (filter P d)) d = filter (\<lambda>x. \<not> P x) d"
proof -
  have "fst x \<notin> fst ` {y \<in> set d. P y} \<longleftrightarrow> \<not> P x" if "x \<in> set d" for x
    using assms that by (auto simp: dict_ok_def distinct_map dest: inj_onD)
  then show ?thesis unfolding fold_dict_del by (intro filter_cong) auto
qed

subsection \<open>The store interface\<close>

text \<open>
  What the components rely on of a Python \<^verbatim>\<open>dict\<close>: lookups after an insertion and
  after a removal, and that both keep the keys distinct.  The client lemmas
  below are proved from these laws alone.
\<close>

locale kv_store =
  fixes empty :: 'd
    and get :: "'d \<Rightarrow> 'k \<Rightarrow> 'v option"
    and put :: "'k \<Rightarrow> 'v \<Rightarrow> 'd \<Rightarrow> 'd"
    and del :: "'k \<Rightarrow> 'd \<Rightarrow> 'd"
    and ok :: "'d \<Rightarrow> bool"
  assumes get_empty: "get empty k = None"
    and get_put: "get (put k v d) k' = (if k' = k then Some v else get d k')"
    and get_del: "get (del k d) k' = (if k' = k then None else get d k')"
    and ok_empty: "ok empty"
    and ok_put: "ok d \<Longrightarrow> ok (put k v d)"
    and ok_del: "ok d \<Longrightarrow> ok (del k d)"
begin

lemma put_fold_get:
  "get (fold (\<lambda>(k, v). put k v) kvs d) k =
    (case map_of (rev kvs) k of None \<Rightarrow> get d k | Some v \<Rightarrow> Some v)"
proof (induction kvs arbitrary: d)
  case Nil
  then show ?case by simp
next
  case (Cons kv kvs)
  obtain k1 v1 where kv: "kv = (k1, v1)" by fastforce
  have "get (fold (\<lambda>(k, v). put k v) (kv # kvs) d) k
      = get (fold (\<lambda>(k, v). put k v) kvs (put k1 v1 d)) k"
    by (simp add: kv)
  also have "\<dots> = (case map_of (rev kvs) k of None \<Rightarrow> get (put k1 v1 d) k | Some v \<Rightarrow> Some v)"
    by (rule Cons.IH)
  also have "\<dots> = (case map_of (rev (kv # kvs)) k of None \<Rightarrow> get d k | Some v \<Rightarrow> Some v)"
    by (simp add: kv get_put map_add_def split: option.split)
  finally show ?case .
qed

lemma ok_put_fold: "ok d \<Longrightarrow> ok (fold (\<lambda>(k, v). put k v) kvs d)"
  by (induction kvs arbitrary: d) (auto simp: ok_put)

lemma get_del_put: "get (del k (put k v d)) k' = (if k' = k then None else get d k')"
  by (simp add: get_del get_put)

end

interpretation dict: kv_store "[]" map_of AList.update AList.delete dict_ok
  by unfold_locales (auto simp: dict_laws)

section \<open>Machines and their invariants\<close>

text \<open>
  A component is driven by a sequence of operations.  An invariant that every
  operation keeps holds after every sequence: proved once here, used by each
  component through an interpretation on its own step function.
\<close>

locale guarded_machine =
  fixes step :: "'op \<Rightarrow> 's \<Rightarrow> 's"
    and inv :: "'s \<Rightarrow> bool"
    and ok :: "'op \<Rightarrow> bool"
  assumes guarded_step: "inv s \<Longrightarrow> ok x \<Longrightarrow> inv (step x s)"
begin

lemma guarded_run: "inv s \<Longrightarrow> \<forall>x \<in> set xs. ok x \<Longrightarrow> inv (fold step xs s)"
  by (induction xs arbitrary: s) (auto simp: guarded_step)

end

locale invariant_machine =
  fixes step :: "'op \<Rightarrow> 's \<Rightarrow> 's"
    and inv :: "'s \<Rightarrow> bool"
  assumes step_inv: "inv s \<Longrightarrow> inv (step x s)"

sublocale invariant_machine \<subseteq> guarded: guarded_machine step inv "\<lambda>_. True"
  by unfold_locales (rule step_inv)

context invariant_machine
begin

lemma run_inv: "inv s \<Longrightarrow> inv (fold step xs s)"
  by (rule guarded.guarded_run) simp_all

end

text \<open>
  Machines whose operations belong to domains that share a state.  When an operation of a domain depends
  only on the domain's view of the state and no operation changes the view of another domain, every interleaving
  gives each domain the view it has after its own operations alone.
\<close>

locale separated_machine = guarded_machine step inv ok
  for step :: "'d \<Rightarrow> 's \<Rightarrow> 's" and inv :: "'s \<Rightarrow> bool" and ok :: "'d \<Rightarrow> bool" +
  fixes view :: "'d \<Rightarrow> 's \<Rightarrow> 'v"
  assumes step_local: "ok d \<Longrightarrow> inv s \<Longrightarrow> inv t \<Longrightarrow> view d s = view d t \<Longrightarrow> view d (step d s) = view d (step d t)"
    and step_respects: "ok d \<Longrightarrow> ok e \<Longrightarrow> d \<noteq> e \<Longrightarrow> inv s \<Longrightarrow> view d (step e s) = view d s"
begin

lemma interleaved_view:
  assumes "ok d" "list_all ok ds" "inv s" "inv t" "view d s = view d t"
  shows "view d (fold step ds s) = view d ((step d ^^ count_list ds d) t)"
  using assms(2-5)
proof (induction ds arbitrary: s t)
  case (Cons e ds)
  then have inv: "inv (step e s)" and ok: "ok e" "list_all ok ds" by (simp_all add: guarded_step)
  show ?case
  proof (cases "e = d")
    case True
    with Cons.IH[OF ok(2) inv guarded_step[OF Cons.prems(3) assms(1)]] step_local[OF assms(1) Cons.prems(2-4)]
    show ?thesis by (simp add: funpow_swap1)
  next
    case False
    with Cons.IH[OF ok(2) inv Cons.prems(3)] step_respects[OF assms(1) ok(1) _ Cons.prems(2)] Cons.prems(4)
    show ?thesis by simp
  qed
qed simp

end

text \<open>
  Machines whose steps may be disabled.  When every step lowers a measure and some step is enabled until
  the work is done, every schedule is finite and can be continued until the work is done.
\<close>

fun run_steps :: "('i \<Rightarrow> 's \<Rightarrow> 's option) \<Rightarrow> 'i list \<Rightarrow> 's \<Rightarrow> 's option" where
  "run_steps step [] s = Some s"
| "run_steps step (i # is) s = (case step i s of None \<Rightarrow> None | Some s' \<Rightarrow> run_steps step is s')"

locale terminating_machine =
  fixes step :: "'i \<Rightarrow> 's \<Rightarrow> 's option"
    and inv :: "'s \<Rightarrow> bool"
    and finished :: "'s \<Rightarrow> bool"
    and work :: "'s \<Rightarrow> nat"
  assumes step_keeps: "inv s \<Longrightarrow> step i s = Some s' \<Longrightarrow> inv s'"
    and step_works: "inv s \<Longrightarrow> step i s = Some s' \<Longrightarrow> work s = Suc (work s')"
    and step_exists: "inv s \<Longrightarrow> \<not> finished s \<Longrightarrow> \<exists>i s'. step i s = Some s'"
    and finished_works: "inv s \<Longrightarrow> finished s \<longleftrightarrow> work s = 0"
begin

lemma run_keeps: "inv s \<Longrightarrow> run_steps step is s = Some s' \<Longrightarrow> inv s' \<and> work s = length is + work s'"
proof (induction "is" arbitrary: s)
  case (Cons i "is")
  then obtain t where t: "step i s = Some t" "run_steps step is t = Some s'" by (auto split: option.splits)
  with Cons show ?case using step_keeps[of s i t] step_works[of s i t] by simp
qed simp

lemma run_finishes: "inv s \<Longrightarrow> \<exists>is s'. run_steps step is s = Some s' \<and> finished s' \<and> inv s'"
proof (induction "work s" arbitrary: s)
  case 0
  then show ?case by (intro exI[of _ "[]"]) (simp add: finished_works)
next
  case (Suc n)
  then obtain i t where t: "step i s = Some t" using step_exists finished_works by (metis nat.distinct(1))
  with Suc obtain "is" s' where "run_steps step is t = Some s' \<and> finished s' \<and> inv s'"
    using step_keeps step_works by (metis nat.inject)
  with t show ?case by (intro exI[of _ "i # is"] exI[of _ s']) simp
qed

end

text \<open>
  Machines whose every step either keeps the state, when its rank is high enough,
  or replaces it by a state that ranks no higher than any it would have kept.  Such
  steps compose, so replaying a whole sequence a second time changes nothing.
\<close>

locale threshold_machine =
  fixes rank :: "'s \<Rightarrow> 'r :: linorder"
    and step :: "'op \<Rightarrow> 's \<Rightarrow> 's"
    and keeps :: "'op \<Rightarrow> 'r \<Rightarrow> bool"
    and repl :: "'op \<Rightarrow> 's"
  assumes step_eq: "step x s = (if keeps x (rank s) then s else repl x)"
    and keeps_up: "keeps x a \<Longrightarrow> a \<le> b \<Longrightarrow> keeps x b"
    and repl_low: "keeps x a \<Longrightarrow> rank (repl x) \<le> a"
begin

lemma run_threshold:
  assumes "xs \<noteq> []"
  shows "\<exists>P k. (\<forall>s. fold step xs s = (if P (rank s) then s else k))
     \<and> (\<forall>a b. P a \<longrightarrow> a \<le> b \<longrightarrow> P b) \<and> (\<forall>a. P a \<longrightarrow> rank k \<le> a)"
  using assms
proof (induction xs rule: rev_nonempty_induct)
  case (single x)
  show ?case
    by (rule exI[of _ "keeps x"], rule exI[of _ "repl x"])
      (auto simp: step_eq intro: keeps_up repl_low)
next
  case (snoc x xs)
  obtain P k where
    run: "\<And>s. fold step xs s = (if P (rank s) then s else k)"
    and up: "\<And>a b. P a \<Longrightarrow> a \<le> b \<Longrightarrow> P b"
    and low: "\<And>a. P a \<Longrightarrow> rank k \<le> a"
    using snoc.IH by metis
  have const: "step x k = repl x" if "P a" and "\<not> keeps x a" for a
    using that low[of a] keeps_up[of x "rank k" a] by (auto simp: step_eq)
  show ?case
  proof (intro exI conjI allI impI)
    show "fold step (xs @ [x]) s = (if P (rank s) \<and> keeps x (rank s) then s else step x k)" for s
      using const[of "rank s"] by (auto simp: run step_eq[of x s])
    show "P b \<and> keeps x b" if "P a \<and> keeps x a" and "a \<le> b" for a b
      using that up keeps_up by blast
    show "rank (step x k) \<le> a" if "P a \<and> keeps x a" for a
      using that low repl_low by (auto simp: step_eq)
  qed
qed

lemma run_idem: "fold step xs (fold step xs s) = fold step xs s"
proof (cases "xs = []")
  case False
  from run_threshold[OF this] show ?thesis by auto
qed simp

end

section \<open>Fixed-width big-endian integers\<close>

text \<open>\<^verbatim>\<open>x.to_bytes(n, "big")\<close> and its inverse; the range check is the caller's.\<close>

fun be_bytes :: "nat \<Rightarrow> nat \<Rightarrow> bytes" where
  "be_bytes 0 x = []"
| "be_bytes (Suc n) x = be_bytes n (x div 256) @ [of_nat x]"

definition be_nat :: "bytes \<Rightarrow> nat" where
  "be_nat bs = foldl (\<lambda>a b. a * 256 + unat b) 0 bs"

lemma length_be_bytes [simp, codec_laws]: "length (be_bytes n x) = n"
  by (induction n arbitrary: x) auto

lemma be_nat_Nil [simp]: "be_nat [] = 0"
  by (simp add: be_nat_def)

lemma be_nat_snoc [simp]: "be_nat (bs @ [b]) = be_nat bs * 256 + unat b"
  by (simp add: be_nat_def)

lemma be_nat_bytes [codec_laws]: "be_nat (be_bytes n x) = x mod 256 ^ n"
proof (induction n arbitrary: x)
  case 0
  then show ?case by simp
next
  case (Suc n)
  have "be_nat (be_bytes (Suc n) x) = (x div 256) mod 256 ^ n * 256 + x mod 256"
    by (simp add: Suc unat_of_nat)
  also have "\<dots> = x mod 256 ^ Suc n"
    by (simp add: mod_mult2_eq mult.commute add.commute)
  finally show ?case .
qed

lemma be_bytes_inj:
  assumes "x < 256 ^ n" and "y < 256 ^ n" and "be_bytes n x = be_bytes n y"
  shows "x = y"
proof -
  have "x = be_nat (be_bytes n x)" using assms(1) by (simp only: be_nat_bytes mod_less)
  also have "\<dots> = be_nat (be_bytes n y)" by (simp only: assms(3))
  also have "\<dots> = y" using assms(2) by (simp only: be_nat_bytes mod_less)
  finally show ?thesis .
qed

lemma unat_lt2p_byte: "unat (b :: byte) < 256"
  using unsigned_less[of b, where ?'a = nat] by simp

lemma be_nat_bound: "be_nat bs < 256 ^ length bs"
proof (induction bs rule: rev_induct)
  case Nil
  then show ?case by simp
next
  case (snoc b bs)
  have "unat b < 256" using unat_lt2p_byte .
  with snoc show ?case by simp
qed

lemma be_bytes_nat [codec_laws]: "be_bytes (length bs) (be_nat bs) = bs"
proof (induction bs rule: rev_induct)
  case Nil
  then show ?case by simp
next
  case (snoc b bs)
  have lt: "unat b < 256" using unat_lt2p_byte .
  have z: "(256 :: byte) = 0" by code_simp
  have "(of_nat (be_nat bs * 256 + unat b) :: byte) = b"
    by (simp add: z)
  with snoc lt show ?case by simp
qed

section \<open>Strings\<close>

text \<open>\<^verbatim>\<open>s.split(sep)\<close> for a one-character separator: never an empty list, empty
  pieces kept.  \<open>join_on\<close> is \<^verbatim>\<open>sep.join(parts)\<close>.\<close>

fun split_on :: "'a \<Rightarrow> 'a list \<Rightarrow> 'a list list" where
  "split_on c [] = [[]]"
| "split_on c (x # xs) =
     (if x = c then [] # split_on c xs
      else (case split_on c xs of [] \<Rightarrow> [[x]] | y # ys \<Rightarrow> (x # y) # ys))"

fun join_on :: "'a list \<Rightarrow> 'a list list \<Rightarrow> 'a list" where
  "join_on c [] = []"
| "join_on c [x] = x"
| "join_on c (x # y # ys) = x @ c @ join_on c (y # ys)"

lemma split_on_not_Nil [simp]: "split_on c xs \<noteq> []"
  by (induction xs) (auto split: list.split)

lemma split_on_no_sep: "p \<in> set (split_on c xs) \<Longrightarrow> c \<notin> set p"
  by (induction xs arbitrary: p) (auto split: if_splits list.splits)

lemma split_on_single: "c \<notin> set xs \<Longrightarrow> split_on c xs = [xs]"
  by (induction xs) auto

lemma join_split_on: "join_on [c] (split_on c xs) = xs"
proof (induction xs)
  case Nil
  then show ?case by simp
next
  case (Cons x xs)
  obtain y ys where ys: "split_on c xs = y # ys"
    by (cases "split_on c xs") auto
  with Cons show ?case by (cases ys) auto
qed

lemma split_on_append:
  assumes "c \<notin> set p"
  shows "split_on c (p @ c # xs) = p # split_on c xs"
  using assms by (induction p) auto

lemma split_join_on:
  assumes "ps \<noteq> []" and "\<And>p. p \<in> set ps \<Longrightarrow> c \<notin> set p"
  shows "split_on c (join_on [c] ps) = ps"
  using assms
proof (induction ps rule: induct_list012)
  case (3 p q ps)
  then show ?case by (simp add: split_on_append)
qed (auto simp: split_on_single)

text \<open>\<^verbatim>\<open>startswith\<close>, \<^verbatim>\<open>endswith\<close>, \<^verbatim>\<open>removeprefix\<close>, \<^verbatim>\<open>removesuffix\<close>.\<close>

definition starts_with :: "'a list \<Rightarrow> 'a list \<Rightarrow> bool" where
  "starts_with p s \<longleftrightarrow> take (length p) s = p"

definition ends_with :: "'a list \<Rightarrow> 'a list \<Rightarrow> bool" where
  "ends_with p s \<longleftrightarrow> starts_with (rev p) (rev s)"

definition remove_prefix :: "'a list \<Rightarrow> 'a list \<Rightarrow> 'a list" where
  "remove_prefix p s = (if starts_with p s then drop (length p) s else s)"

definition remove_suffix :: "'a list \<Rightarrow> 'a list \<Rightarrow> 'a list" where
  "remove_suffix p s = (if ends_with p s then take (length s - length p) s else s)"

lemma starts_with_append [simp]: "starts_with p (p @ s)"
  by (simp add: starts_with_def)

lemma ends_with_append [simp]: "ends_with p (s @ p)"
  by (simp add: ends_with_def)

lemma remove_prefix_append [simp]: "remove_prefix p (p @ s) = s"
  by (simp add: remove_prefix_def)

lemma remove_suffix_append [simp]: "remove_suffix p (s @ p) = s"
  by (simp add: remove_suffix_def)

subsection \<open>Lines and white space\<close>

definition is_linebreak :: "char \<Rightarrow> bool" where
  "is_linebreak c \<longleftrightarrow> c \<in> {CHR 0x0A, CHR 0x0D, CHR 0x0B, CHR 0x0C, CHR 0x1C, CHR 0x1D, CHR 0x1E, CHR 0x85}"

text \<open>\<^verbatim>\<open>str.splitlines()\<close>: a trailing line break does not open another line.\<close>

function splitlines :: "string \<Rightarrow> string list" where
  "splitlines [] = []"
| "splitlines (c # s) =
     (if is_linebreak c
      then [] # splitlines (if c = CHR 0x0D \<and> starts_with [CHR 0x0A] s then tl s else s)
      else (case splitlines s of [] \<Rightarrow> [[c]] | l # ls \<Rightarrow> (c # l) # ls))"
  by pat_completeness auto
termination
  by (relation "measure length") auto

definition is_py_space :: "char \<Rightarrow> bool" where
  "is_py_space c \<longleftrightarrow> c = CHR '' '' \<or> c = CHR 0x09 \<or> is_linebreak c \<or> c = CHR 0x1F \<or> c = CHR 0xA0"

definition strip :: "string \<Rightarrow> string" where
  "strip s = rev (dropWhile is_py_space (rev (dropWhile is_py_space s)))"

end
