(* ===== verification/Messages.thy ===== *)
theory Messages
  imports Prelude
begin

text \<open>
  \<^verbatim>\<open>protocol/messages.py\<close>: the message types of the wire protocol, the file
  metadata records and every check their Pydantic models make.  A model's
  constructor is a function from the field values to either the list of field
  errors Pydantic collects or the value itself.  The JSON text layer of Pydantic
  is outside the repository and stays a parameter of the theories that use it.
\<close>

section \<open>Message types\<close>

datatype MsgType =
    HELLO | CHALLENGE | RESPONSE | ACCEPT | AUTH_ERROR
  | SYNC_REQUEST | SYNC_STATE | BLACKLIST_SYNC
  | FILE_WRITE | FILE_DELETE | FILE_RENAME | DIR_CREATE | DIR_DELETE | DIR_RENAME
  | TRANSFER_BEGIN | TRANSFER_CHUNK | TRANSFER_COMMIT | TRANSFER_ACK | TRANSFER_NACK
  | CONFLICT_NOTIFY | PING | PONG | SESSION_END

fun MsgType_value :: "MsgType \<Rightarrow> string" where
  "MsgType_value HELLO = ''hello''"
| "MsgType_value CHALLENGE = ''challenge''"
| "MsgType_value RESPONSE = ''response''"
| "MsgType_value ACCEPT = ''accept''"
| "MsgType_value AUTH_ERROR = ''auth_error''"
| "MsgType_value SYNC_REQUEST = ''sync.request''"
| "MsgType_value SYNC_STATE = ''sync.state''"
| "MsgType_value BLACKLIST_SYNC = ''blacklist.sync''"
| "MsgType_value FILE_WRITE = ''file.write''"
| "MsgType_value FILE_DELETE = ''file.delete''"
| "MsgType_value FILE_RENAME = ''file.rename''"
| "MsgType_value DIR_CREATE = ''dir.create''"
| "MsgType_value DIR_DELETE = ''dir.delete''"
| "MsgType_value DIR_RENAME = ''dir.rename''"
| "MsgType_value TRANSFER_BEGIN = ''transfer.begin''"
| "MsgType_value TRANSFER_CHUNK = ''transfer.chunk''"
| "MsgType_value TRANSFER_COMMIT = ''transfer.commit''"
| "MsgType_value TRANSFER_ACK = ''transfer.ack''"
| "MsgType_value TRANSFER_NACK = ''transfer.nack''"
| "MsgType_value CONFLICT_NOTIFY = ''conflict.notify''"
| "MsgType_value PING = ''ping''"
| "MsgType_value PONG = ''pong''"
| "MsgType_value SESSION_END = ''session.end''"

section \<open>Relative paths\<close>

datatype validation_error =
    EmptyPath | NullByteInPath | AbsolutePath | TraversalComponent
  | NullByteInName | EmptyName
  | OutOfRange string
  | SymlinkTargetRequired | SymlinkTargetForbidden
  | DeltaBaseForbidden | DeltaBaseRequired

abbreviation NUL :: char where
  "NUL \<equiv> CHR 0x00"

abbreviation slash :: char where
  "slash \<equiv> CHR ''/''"

definition validate_relative_path :: "string \<Rightarrow> validation_error + string" where
  "validate_relative_path v =
     (if v = [] then Inl EmptyPath
      else if NUL \<in> set v then Inl NullByteInPath
      else if starts_with ''/'' v then Inl AbsolutePath
      else if ''..'' \<in> set (split_on slash v) then Inl TraversalComponent
      else Inr v)"

definition path_errors :: "string \<Rightarrow> validation_error list" where
  "path_errors v = (case validate_relative_path v of Inl e \<Rightarrow> [e] | Inr _ \<Rightarrow> [])"

text \<open>The constrained integers: \<open>RapidHashInt\<close>, \<open>MtimeNsInt\<close>, \<open>FileModeInt\<close>,
  \<open>FileSizeInt\<close> and \<^verbatim>\<open>Field(ge=0)\<close>.\<close>

definition UINT64_MAX :: int where
  "UINT64_MAX = 2 ^ 64 - 1"

definition range_errors :: "string \<Rightarrow> int \<Rightarrow> int \<Rightarrow> int \<Rightarrow> validation_error list" where
  "range_errors fld lo hi v = (if lo \<le> v \<and> v \<le> hi then [] else [OutOfRange fld])"

definition ge_errors :: "string \<Rightarrow> int \<Rightarrow> int \<Rightarrow> validation_error list" where
  "ge_errors fld lo v = (if lo \<le> v then [] else [OutOfRange fld])"

abbreviation RapidHashInt :: "string \<Rightarrow> int \<Rightarrow> validation_error list" where
  "RapidHashInt fld v \<equiv> range_errors fld 0 UINT64_MAX v"

abbreviation MtimeNsInt :: "string \<Rightarrow> int \<Rightarrow> validation_error list" where
  "MtimeNsInt fld v \<equiv> range_errors fld 0 999999999 v"

abbreviation FileModeInt :: "string \<Rightarrow> int \<Rightarrow> validation_error list" where
  "FileModeInt fld v \<equiv> range_errors fld 0 4095 v"

abbreviation FileSizeInt :: "string \<Rightarrow> int \<Rightarrow> validation_error list" where
  "FileSizeInt fld v \<equiv> ge_errors fld 0 v"

definition name_errors :: "string \<Rightarrow> validation_error list" where
  "name_errors v =
     (if NUL \<in> set v then [NullByteInName] else if v = [] then [EmptyName] else [])"

section \<open>File metadata\<close>

record FileEntry =
  fe_path :: string
  fe_rapidhash :: int
  fe_size :: int
  fe_mode :: int
  fe_uid_name :: string
  fe_gid_name :: string
  fe_mtime_s :: int
  fe_mtime_ns :: int
  fe_is_symlink :: bool
  fe_symlink_target :: "string option"
  fe_is_full :: bool
  fe_delta_base_rapidhash :: "int option"

definition FileEntry_field_errors :: "FileEntry \<Rightarrow> validation_error list" where
  "FileEntry_field_errors e =
     path_errors (fe_path e)
     @ RapidHashInt ''rapidhash'' (fe_rapidhash e)
     @ FileSizeInt ''size'' (fe_size e)
     @ FileModeInt ''mode'' (fe_mode e)
     @ name_errors (fe_uid_name e)
     @ name_errors (fe_gid_name e)
     @ MtimeNsInt ''mtime_ns'' (fe_mtime_ns e)
     @ (case fe_symlink_target e of None \<Rightarrow> [] | Some t \<Rightarrow> path_errors t)
     @ (case fe_delta_base_rapidhash e of None \<Rightarrow> []
        | Some h \<Rightarrow> RapidHashInt ''delta_base_rapidhash'' h)"

definition validate_symlink_consistency :: "FileEntry \<Rightarrow> validation_error list" where
  "validate_symlink_consistency e =
     (if fe_is_symlink e \<and> fe_symlink_target e = None then [SymlinkTargetRequired]
      else if \<not> fe_is_symlink e \<and> fe_symlink_target e \<noteq> None then [SymlinkTargetForbidden]
      else [])"

definition validate_delta_consistency :: "FileEntry \<Rightarrow> validation_error list" where
  "validate_delta_consistency e =
     (if fe_is_full e \<and> fe_delta_base_rapidhash e \<noteq> None then [DeltaBaseForbidden]
      else if \<not> fe_is_full e \<and> fe_delta_base_rapidhash e = None then [DeltaBaseRequired]
      else [])"

text \<open>Field errors are collected; the two model validators run, in order, only when
  every field is valid, and the first one that raises ends the validation.\<close>

definition FileEntry_errors :: "FileEntry \<Rightarrow> validation_error list" where
  "FileEntry_errors e =
     (let fs = FileEntry_field_errors e in
      if fs \<noteq> [] then fs
      else let ss = validate_symlink_consistency e in
           if ss \<noteq> [] then ss else validate_delta_consistency e)"

definition mk_FileEntry :: "FileEntry \<Rightarrow> validation_error list + FileEntry" where
  "mk_FileEntry e = (if FileEntry_errors e = [] then Inr e else Inl (FileEntry_errors e))"

record FileEntrySnapshot =
  fs_rapidhash :: int
  fs_size :: int
  fs_mode :: int
  fs_uid_name :: string
  fs_gid_name :: string
  fs_mtime_s :: int
  fs_mtime_ns :: int
  fs_recv_ts_ns :: int
  fs_deleted :: bool

definition FileEntrySnapshot_errors :: "FileEntrySnapshot \<Rightarrow> validation_error list" where
  "FileEntrySnapshot_errors s =
     RapidHashInt ''rapidhash'' (fs_rapidhash s)
     @ FileSizeInt ''size'' (fs_size s)
     @ FileModeInt ''mode'' (fs_mode s)
     @ MtimeNsInt ''mtime_ns'' (fs_mtime_ns s)
     @ ge_errors ''recv_ts_ns'' 0 (fs_recv_ts_ns s)"

definition mk_FileEntrySnapshot :: "FileEntrySnapshot \<Rightarrow> validation_error list + FileEntrySnapshot" where
  "mk_FileEntrySnapshot s =
     (if FileEntrySnapshot_errors s = [] then Inr s else Inl (FileEntrySnapshot_errors s))"

section \<open>The messages\<close>

datatype AnyMsg =
    HelloMsg (client_cert_pem: string) (nonce_c: bytes) (hello_ts_ns: int) (hello_silo_id: uuid)
  | ChallengeMsg (server_cert_pem: string) (nonce_s: bytes) (challenge: bytes)
  | ResponseMsg (sig_c: bytes) (ecdh_pub_c: bytes)
  | AcceptMsg (sig_s: bytes) (ecdh_pub_s: bytes) (session_token: bytes) (silo_id_ack: uuid)
  | AuthErrorMsg (auth_reason: string)
  | SyncRequestMsg
  | SyncStateMsg (state_silo_id: uuid) (state_node_id: string)
      (state_records: "(string, FileEntrySnapshot) dict")
  | BlacklistSyncMsg (patterns: "string list")
  | FileWriteMsg (write_id: uuid) (write_entry: FileEntry)
  | FileDeleteMsg (delete_path: string) (delete_recv_ts_ns: int)
  | FileRenameMsg (old_path: string) (new_path: string) (rename_recv_ts_ns: int)
  | DirCreateMsg (dir_path: string) (dir_mode: int) (dir_uid_name: string) (dir_gid_name: string)
  | DirDeleteMsg (dir_delete_path: string)
  | DirRenameMsg (dir_old_path: string) (dir_new_path: string)
  | TransferBeginMsg (begin_id: uuid) (begin_entry: FileEntry) (total_size: int)
      (chunk_count: int)
  | TransferChunkMsg (chunk_id: uuid) (chunk_seq: int) (chunk_data: bytes)
  | TransferCommitMsg (commit_id: uuid) (commit_rapidhash: int)
  | TransferAckMsg (ack_id: uuid) (scan_result: string)
  | TransferNackMsg (nack_id: uuid) (nack_reason: string)
  | ConflictNotifyMsg (conflict_path: string) (conflict_silo_id: uuid) (kept_hash: int)
      (overwritten_hash: int) (conflict_recv_ts_ns: int)
  | PingMsg (ping_ts_ns: int)
  | PongMsg (pong_ts_ns: int)
  | SessionEndMsg (end_reason: string)

fun msg_type :: "AnyMsg \<Rightarrow> MsgType" where
  "msg_type (HelloMsg _ _ _ _) = HELLO"
| "msg_type (ChallengeMsg _ _ _) = CHALLENGE"
| "msg_type (ResponseMsg _ _) = RESPONSE"
| "msg_type (AcceptMsg _ _ _ _) = ACCEPT"
| "msg_type (AuthErrorMsg _) = AUTH_ERROR"
| "msg_type SyncRequestMsg = SYNC_REQUEST"
| "msg_type (SyncStateMsg _ _ _) = SYNC_STATE"
| "msg_type (BlacklistSyncMsg _) = BLACKLIST_SYNC"
| "msg_type (FileWriteMsg _ _) = FILE_WRITE"
| "msg_type (FileDeleteMsg _ _) = FILE_DELETE"
| "msg_type (FileRenameMsg _ _ _) = FILE_RENAME"
| "msg_type (DirCreateMsg _ _ _ _) = DIR_CREATE"
| "msg_type (DirDeleteMsg _) = DIR_DELETE"
| "msg_type (DirRenameMsg _ _) = DIR_RENAME"
| "msg_type (TransferBeginMsg _ _ _ _) = TRANSFER_BEGIN"
| "msg_type (TransferChunkMsg _ _ _) = TRANSFER_CHUNK"
| "msg_type (TransferCommitMsg _ _) = TRANSFER_COMMIT"
| "msg_type (TransferAckMsg _ _) = TRANSFER_ACK"
| "msg_type (TransferNackMsg _ _) = TRANSFER_NACK"
| "msg_type (ConflictNotifyMsg _ _ _ _ _) = CONFLICT_NOTIFY"
| "msg_type (PingMsg _) = PING"
| "msg_type (PongMsg _) = PONG"
| "msg_type (SessionEndMsg _) = SESSION_END"

text \<open>What the discriminated union checks of the fields of each message when it
  parses one: the nested models and the constrained fields.\<close>

fun msg_errors :: "AnyMsg \<Rightarrow> validation_error list" where
  "msg_errors (SyncStateMsg _ _ rs) = concat (map (\<lambda>(p, s). FileEntrySnapshot_errors s) rs)"
| "msg_errors (FileWriteMsg _ e) = FileEntry_errors e"
| "msg_errors (FileDeleteMsg p t) = path_errors p @ ge_errors ''recv_ts_ns'' 0 t"
| "msg_errors (FileRenameMsg p q t) =
     path_errors p @ path_errors q @ ge_errors ''recv_ts_ns'' 0 t"
| "msg_errors (DirCreateMsg p m _ _) = path_errors p @ FileModeInt ''mode'' m"
| "msg_errors (DirDeleteMsg p) = path_errors p"
| "msg_errors (DirRenameMsg p q) = path_errors p @ path_errors q"
| "msg_errors (TransferBeginMsg _ e n c) =
     FileEntry_errors e @ FileSizeInt ''total_size'' n @ ge_errors ''chunk_count'' 1 c"
| "msg_errors (TransferChunkMsg _ s _) = ge_errors ''seq'' 0 s"
| "msg_errors (TransferCommitMsg _ h) = RapidHashInt ''rapidhash'' h"
| "msg_errors (ConflictNotifyMsg p _ k v t) =
     path_errors p @ RapidHashInt ''kept_rapidhash'' k
     @ RapidHashInt ''overwritten_rapidhash'' v @ ge_errors ''recv_ts_ns'' 0 t"
| "msg_errors (PingMsg t) = ge_errors ''ts_ns'' 0 t"
| "msg_errors (PongMsg t) = ge_errors ''ts_ns'' 0 t"
| "msg_errors m = []"

definition validate_msg :: "AnyMsg \<Rightarrow> validation_error list + AnyMsg" where
  "validate_msg m = (if msg_errors m = [] then Inr m else Inl (msg_errors m))"

abbreviation valid_msg :: "AnyMsg \<Rightarrow> bool" where
  "valid_msg m \<equiv> msg_errors m = []"

section \<open>What the checks establish\<close>

text \<open>The paths of a message that name files of the silo.\<close>

fun msg_paths :: "AnyMsg \<Rightarrow> string list" where
  "msg_paths (FileWriteMsg _ e) = [fe_path e]"
| "msg_paths (FileDeleteMsg p _) = [p]"
| "msg_paths (FileRenameMsg p q _) = [p, q]"
| "msg_paths (DirCreateMsg p _ _ _) = [p]"
| "msg_paths (DirDeleteMsg p) = [p]"
| "msg_paths (DirRenameMsg p q) = [p, q]"
| "msg_paths (TransferBeginMsg _ e _ _) = [fe_path e]"
| "msg_paths (ConflictNotifyMsg p _ _ _ _) = [p]"
| "msg_paths m = []"

definition safe_path :: "string \<Rightarrow> bool" where
  "safe_path p \<longleftrightarrow> p \<noteq> [] \<and> hd p \<noteq> slash \<and> NUL \<notin> set p \<and> ''..'' \<notin> set (split_on slash p)"

lemma starts_with_singleton: "starts_with [c] s \<longleftrightarrow> s \<noteq> [] \<and> hd s = c"
  by (cases s) (auto simp: starts_with_def)

lemma validate_relative_path_Inr:
  "validate_relative_path v = Inr w \<longleftrightarrow> w = v \<and> safe_path v"
  by (auto simp: validate_relative_path_def safe_path_def starts_with_singleton)

lemma path_errors_Nil [simp]: "path_errors v = [] \<longleftrightarrow> safe_path v"
  by (simp add: path_errors_def validate_relative_path_def safe_path_def starts_with_singleton)

lemma range_errors_Nil [simp]: "range_errors fld lo hi v = [] \<longleftrightarrow> lo \<le> v \<and> v \<le> hi"
  by (simp add: range_errors_def)

lemma ge_errors_Nil [simp]: "ge_errors fld lo v = [] \<longleftrightarrow> lo \<le> v"
  by (simp add: ge_errors_def)

lemma name_errors_Nil [simp]: "name_errors v = [] \<longleftrightarrow> v \<noteq> [] \<and> NUL \<notin> set v"
  by (auto simp: name_errors_def)

lemma symlink_consistency_Nil:
  "validate_symlink_consistency e = [] \<longleftrightarrow> (fe_is_symlink e \<longleftrightarrow> fe_symlink_target e \<noteq> None)"
  by (auto simp: validate_symlink_consistency_def)

lemma delta_consistency_Nil:
  "validate_delta_consistency e = [] \<longleftrightarrow> (fe_is_full e \<longleftrightarrow> fe_delta_base_rapidhash e = None)"
  by (auto simp: validate_delta_consistency_def)

lemma FileEntry_errors_Nil:
  "FileEntry_errors e = [] \<longleftrightarrow>
     FileEntry_field_errors e = [] \<and> validate_symlink_consistency e = []
     \<and> validate_delta_consistency e = []"
  by (simp add: FileEntry_errors_def Let_def)

lemmas valid_entry_simps =
  FileEntry_errors_Nil FileEntry_field_errors_def symlink_consistency_Nil delta_consistency_Nil

lemma valid_msg_paths_safe: "valid_msg m \<Longrightarrow> p \<in> set (msg_paths m) \<Longrightarrow> safe_path p"
  by (cases m) (auto simp: valid_entry_simps)

lemma validate_msg_Inr: "validate_msg m = Inr m' \<longleftrightarrow> m' = m \<and> valid_msg m"
  by (auto simp: validate_msg_def)

lemma mk_FileEntry_Inr: "mk_FileEntry e = Inr e' \<longleftrightarrow> e' = e \<and> FileEntry_errors e = []"
  by (auto simp: mk_FileEntry_def)

end
