(* ===== verification/Silo_Index.thy ===== *)
theory Silo_Index
  imports Messages "HOL-Library.Option_ord" "HOL-Library.Multiset"
begin

text \<open>
  \<^verbatim>\<open>sync/index.py\<close>: the in-memory index of a silo.  \<open>SiloIndex\<close> holds an
  insertion-ordered dictionary of file records, tombstones included; every
  mutation goes through \<open>apply_event\<close>.  The theorems read the index
  through the \<open>live\<close> view, a map from paths to the records that are not tombstones;
  \<open>live_apply_event\<close> says what each event does to it.  The newest event of a path wins
  if it is a write, and not always if it is a deletion.
\<close>

section \<open>Records, events, conflicts\<close>

record FileRecord =
  fr_rapidhash :: int
  fr_size :: int
  fr_mtime_s :: int
  fr_mtime_ns :: int
  fr_recv_ts_ns :: int
  fr_mode :: int
  fr_uid_name :: string
  fr_gid_name :: string
  fr_deleted :: bool

record WriteEvent =
  we_path :: string
  we_rapidhash :: int
  we_size :: int
  we_mtime_s :: int
  we_mtime_ns :: int
  we_recv_ts_ns :: int
  we_mode :: int
  we_uid_name :: string
  we_gid_name :: string

datatype SyncEvent =
    Write WriteEvent
  | Delete (del_path: string) (del_recv_ts_ns: int)
  | Rename (ren_old: string) (ren_new: string) (ren_recv_ts_ns: int)

datatype winner = Local | Incoming

record ConflictInfo =
  ci_path :: string
  ci_winner :: winner
  ci_kept_rapidhash :: int
  ci_overwritten_rapidhash :: int
  ci_kept_recv_ts_ns :: int
  ci_overwritten_recv_ts_ns :: int

record SiloIndex =
  ix_silo_id :: uuid
  ix_node_id :: string
  ix_records :: "(string, FileRecord) dict"

definition new_SiloIndex :: "uuid \<Rightarrow> string \<Rightarrow> SiloIndex" where
  "new_SiloIndex sid nid = \<lparr>ix_silo_id = sid, ix_node_id = nid, ix_records = []\<rparr>"

abbreviation put_record :: "string \<Rightarrow> FileRecord \<Rightarrow> SiloIndex \<Rightarrow> SiloIndex" where
  "put_record p r ix \<equiv> ix\<lparr>ix_records := dict_set p r (ix_records ix)\<rparr>"

section \<open>Snapshot and diff\<close>

definition record_to_snapshot :: "FileRecord \<Rightarrow> FileEntrySnapshot" where
  "record_to_snapshot r =
     \<lparr>fs_rapidhash = fr_rapidhash r, fs_size = fr_size r, fs_mode = fr_mode r,
      fs_uid_name = fr_uid_name r, fs_gid_name = fr_gid_name r,
      fs_mtime_s = fr_mtime_s r, fs_mtime_ns = fr_mtime_ns r,
      fs_recv_ts_ns = fr_recv_ts_ns r, fs_deleted = fr_deleted r\<rparr>"

definition to_snapshot :: "SiloIndex \<Rightarrow> (string, FileEntrySnapshot) dict" where
  "to_snapshot ix = map (\<lambda>(p, r). (p, record_to_snapshot r)) (ix_records ix)"

definition to_file_entry ::
  "string \<Rightarrow> FileRecord \<Rightarrow> bool \<Rightarrow> int option \<Rightarrow> validation_error list + FileEntry" where
  "to_file_entry p r is_full base =
     mk_FileEntry
       \<lparr>fe_path = p, fe_rapidhash = fr_rapidhash r, fe_size = fr_size r, fe_mode = fr_mode r,
        fe_uid_name = fr_uid_name r, fe_gid_name = fr_gid_name r,
        fe_mtime_s = fr_mtime_s r, fe_mtime_ns = fr_mtime_ns r,
        fe_is_symlink = False, fe_symlink_target = None,
        fe_is_full = is_full, fe_delta_base_rapidhash = base\<rparr>"

definition get_rapidhash :: "FileEntrySnapshot \<Rightarrow> int" where
  "get_rapidhash s = fs_rapidhash s"

text \<open>The loop over the records: \<open>None\<close> is "nothing to send for this record".  The
  first entry whose constructor raises ends the loop.\<close>

definition diff_one ::
  "(string, FileEntrySnapshot) dict \<Rightarrow> string \<Rightarrow> FileRecord
    \<Rightarrow> (validation_error list + FileEntry) option" where
  "diff_one remote p r =
     (if fr_deleted r then None
      else case dict_get remote p of
             None \<Rightarrow> Some (to_file_entry p r True None)
           | Some s \<Rightarrow>
               if get_rapidhash s \<noteq> fr_rapidhash r
               then Some (to_file_entry p r False (Some (get_rapidhash s)))
               else None)"

fun diff_loop ::
  "(string, FileEntrySnapshot) dict \<Rightarrow> (string, FileRecord) dict
    \<Rightarrow> validation_error list + FileEntry list" where
  "diff_loop remote [] = Inr []"
| "diff_loop remote ((p, r) # rs) =
     (case diff_one remote p r of
        None \<Rightarrow> diff_loop remote rs
      | Some (Inl e) \<Rightarrow> Inl e
      | Some (Inr x) \<Rightarrow>
          (case diff_loop remote rs of Inl e \<Rightarrow> Inl e | Inr xs \<Rightarrow> Inr (x # xs)))"

definition diff ::
  "SiloIndex \<Rightarrow> (string, FileEntrySnapshot) dict \<Rightarrow> validation_error list + FileEntry list" where
  "diff ix remote = diff_loop remote (ix_records ix)"

section \<open>Mutations\<close>

definition write_record :: "WriteEvent \<Rightarrow> FileRecord" where
  "write_record e =
     \<lparr>fr_rapidhash = we_rapidhash e, fr_size = we_size e, fr_mtime_s = we_mtime_s e,
      fr_mtime_ns = we_mtime_ns e, fr_recv_ts_ns = we_recv_ts_ns e, fr_mode = we_mode e,
      fr_uid_name = we_uid_name e, fr_gid_name = we_gid_name e, fr_deleted = False\<rparr>"

definition apply_write :: "WriteEvent \<Rightarrow> SiloIndex \<Rightarrow> ConflictInfo option \<times> SiloIndex" where
  "apply_write e ix =
     (let nr = write_record e in
      case dict_get (ix_records ix) (we_path e) of
        None \<Rightarrow> (None, put_record (we_path e) nr ix)
      | Some ex \<Rightarrow>
          if fr_deleted ex then (None, put_record (we_path e) nr ix)
          else if we_recv_ts_ns e > fr_recv_ts_ns ex then
            (Some \<lparr>ci_path = we_path e, ci_winner = Incoming,
                   ci_kept_rapidhash = fr_rapidhash nr,
                   ci_overwritten_rapidhash = fr_rapidhash ex,
                   ci_kept_recv_ts_ns = we_recv_ts_ns e,
                   ci_overwritten_recv_ts_ns = fr_recv_ts_ns ex\<rparr>,
             put_record (we_path e) nr ix)
          else if we_recv_ts_ns e < fr_recv_ts_ns ex then
            (Some \<lparr>ci_path = we_path e, ci_winner = Local,
                   ci_kept_rapidhash = fr_rapidhash ex,
                   ci_overwritten_rapidhash = fr_rapidhash nr,
                   ci_kept_recv_ts_ns = fr_recv_ts_ns ex,
                   ci_overwritten_recv_ts_ns = we_recv_ts_ns e\<rparr>, ix)
          else (None, ix))"

definition apply_delete :: "string \<Rightarrow> int \<Rightarrow> SiloIndex \<Rightarrow> ConflictInfo option \<times> SiloIndex" where
  "apply_delete p t ix =
     (case dict_get (ix_records ix) p of
        None \<Rightarrow> (None, ix)
      | Some ex \<Rightarrow>
          if fr_deleted ex then (None, ix)
          else if t \<ge> fr_recv_ts_ns ex
          then (None, put_record p (ex\<lparr>fr_deleted := True, fr_recv_ts_ns := t\<rparr>) ix)
          else (None, ix))"

definition apply_rename ::
  "string \<Rightarrow> string \<Rightarrow> int \<Rightarrow> SiloIndex \<Rightarrow> ConflictInfo option \<times> SiloIndex" where
  "apply_rename old new t ix =
     (case dict_get (ix_records ix) old of
        None \<Rightarrow> (None, ix)
      | Some ex \<Rightarrow>
          if fr_deleted ex then (None, ix)
          else
            let ix1 = ix\<lparr>ix_records := dict_del old (ix_records ix)\<rparr>;
                moved = put_record new (ex\<lparr>fr_recv_ts_ns := t\<rparr>) ix1
            in case dict_get (ix_records ix1) new of
                 None \<Rightarrow> (None, moved)
               | Some tg \<Rightarrow>
                   if fr_deleted tg then (None, moved)
                   else if t \<ge> fr_recv_ts_ns tg then
                     (Some \<lparr>ci_path = new, ci_winner = Incoming,
                            ci_kept_rapidhash = fr_rapidhash ex,
                            ci_overwritten_rapidhash = fr_rapidhash tg,
                            ci_kept_recv_ts_ns = t,
                            ci_overwritten_recv_ts_ns = fr_recv_ts_ns tg\<rparr>, moved)
                   else
                     (Some \<lparr>ci_path = new, ci_winner = Local,
                            ci_kept_rapidhash = fr_rapidhash tg,
                            ci_overwritten_rapidhash = fr_rapidhash ex,
                            ci_kept_recv_ts_ns = fr_recv_ts_ns tg,
                            ci_overwritten_recv_ts_ns = t\<rparr>,
                      put_record old (ex\<lparr>fr_deleted := True\<rparr>) ix1))"

fun apply_event :: "SyncEvent \<Rightarrow> SiloIndex \<Rightarrow> ConflictInfo option \<times> SiloIndex" where
  "apply_event (Write e) ix = apply_write e ix"
| "apply_event (Delete p t) ix = apply_delete p t ix"
| "apply_event (Rename old new t) ix = apply_rename old new t ix"

abbreviation ix_step :: "SyncEvent \<Rightarrow> SiloIndex \<Rightarrow> SiloIndex" where
  "ix_step e ix \<equiv> snd (apply_event e ix)"

abbreviation apply_events :: "SyncEvent list \<Rightarrow> SiloIndex \<Rightarrow> SiloIndex" where
  "apply_events es ix \<equiv> fold ix_step es ix"

definition ix_len :: "SiloIndex \<Rightarrow> nat" where
  "ix_len ix = length (ix_records ix)"

definition active_count :: "SiloIndex \<Rightarrow> nat" where
  "active_count ix = length (filter (\<lambda>(p, r). \<not> fr_deleted r) (ix_records ix))"

section \<open>Well-formedness\<close>

definition ix_wf :: "SiloIndex \<Rightarrow> bool" where
  "ix_wf ix \<longleftrightarrow> dict_ok (ix_records ix)"

lemmas apply_defs = apply_write_def apply_delete_def apply_rename_def Let_def

lemma ix_wf_new [simp]: "ix_wf (new_SiloIndex sid nid)"
  by (simp add: ix_wf_def new_SiloIndex_def)

lemma ix_wf_step: "ix_wf ix \<Longrightarrow> ix_wf (ix_step e ix)"
  by (cases e) (auto simp: ix_wf_def apply_defs split: option.split)

interpretation ix_machine: invariant_machine ix_step ix_wf
  by unfold_locales (rule ix_wf_step)

lemma ix_step_frame [simp]:
  "ix_silo_id (ix_step e ix) = ix_silo_id ix" "ix_node_id (ix_step e ix) = ix_node_id ix"
  by (cases e; auto simp: apply_defs split: option.split)+

section \<open>The live files\<close>

type_synonym live_map = "string \<Rightarrow> FileRecord option"

definition live :: "SiloIndex \<Rightarrow> live_map" where
  "live ix p =
     (case dict_get (ix_records ix) p of
        None \<Rightarrow> None | Some r \<Rightarrow> if fr_deleted r then None else Some r)"

definition live_write :: "WriteEvent \<Rightarrow> FileRecord option \<Rightarrow> FileRecord option" where
  "live_write e cur =
     (case cur of None \<Rightarrow> Some (write_record e)
      | Some r \<Rightarrow> if we_recv_ts_ns e > fr_recv_ts_ns r then Some (write_record e) else Some r)"

definition live_delete :: "int \<Rightarrow> FileRecord option \<Rightarrow> FileRecord option" where
  "live_delete t cur =
     (case cur of None \<Rightarrow> None | Some r \<Rightarrow> if t \<ge> fr_recv_ts_ns r then None else Some r)"

definition live_move :: "FileRecord \<Rightarrow> int \<Rightarrow> FileRecord option \<Rightarrow> FileRecord option" where
  "live_move src t cur =
     (case cur of None \<Rightarrow> Some (src\<lparr>fr_recv_ts_ns := t\<rparr>)
      | Some r \<Rightarrow> if t \<ge> fr_recv_ts_ns r then Some (src\<lparr>fr_recv_ts_ns := t\<rparr>) else Some r)"

fun live_event :: "SyncEvent \<Rightarrow> live_map \<Rightarrow> live_map" where
  "live_event (Write e) m = m(we_path e := live_write e (m (we_path e)))"
| "live_event (Delete p t) m = m(p := live_delete t (m p))"
| "live_event (Rename old new t) m =
     (case m old of None \<Rightarrow> m
      | Some src \<Rightarrow> (let m1 = m(old := None) in m1(new := live_move src t (m1 new))))"

lemma live_not_deleted: "live ix p = Some r \<Longrightarrow> \<not> fr_deleted r"
  by (auto simp: live_def split: option.splits if_splits)

lemma live_put:
  "live (put_record p r ix) = (live ix)(p := if fr_deleted r then None else Some r)"
  by (auto simp: live_def)

lemma live_del:
  "live (ix\<lparr>ix_records := dict_del p (ix_records ix)\<rparr>) = (live ix)(p := None)"
  by (auto simp: live_def)

lemma live_None_iff:
  "live ix p = None \<longleftrightarrow> (\<forall>r. dict_get (ix_records ix) p = Some r \<longrightarrow> fr_deleted r)"
  by (auto simp: live_def split: option.splits)

lemma write_record_live [simp]: "\<not> fr_deleted (write_record e)"
  "fr_recv_ts_ns (write_record e) = we_recv_ts_ns e"
  "fr_rapidhash (write_record e) = we_rapidhash e"
  by (simp_all add: write_record_def)

lemma live_apply_write:
  "live (snd (apply_write e ix)) = (live ix)(we_path e := live_write e (live ix (we_path e)))"
  by (auto simp: apply_write_def live_put live_write_def Let_def live_def fun_eq_iff
      split: option.splits)

lemma live_apply_delete:
  "live (snd (apply_delete p t ix)) = (live ix)(p := live_delete t (live ix p))"
  by (auto simp: apply_delete_def live_put live_delete_def live_def fun_eq_iff
      split: option.splits)

lemma live_apply_rename:
  "live (snd (apply_rename old new t ix)) = live_event (Rename old new t) (live ix)"
  by (auto simp: apply_rename_def live_move_def Let_def live_def fun_eq_iff
      split: option.splits)

lemma live_apply_event: "live (ix_step e ix) = live_event e (live ix)"
  by (cases e) (simp_all add: live_apply_write live_apply_delete live_apply_rename)

lemma live_apply_events: "live (apply_events es ix) = fold live_event es (live ix)"
  by (induction es arbitrary: ix) (simp_all add: live_apply_event)

section \<open>The newest write wins\<close>

text \<open>An event that does not prevail over the write \<open>e\<close>: it is that write, or an older write or
  deletion of its path, or it is about other paths.\<close>

fun loses_to :: "WriteEvent \<Rightarrow> SyncEvent \<Rightarrow> bool" where
  "loses_to e (Write f) = (we_path f = we_path e \<longrightarrow> f = e \<or> we_recv_ts_ns f < we_recv_ts_ns e)"
| "loses_to e (Delete p t) = (p = we_path e \<longrightarrow> t < we_recv_ts_ns e)"
| "loses_to e (Rename old new t) = (old \<noteq> we_path e \<and> new \<noteq> we_path e)"

definition outdated :: "WriteEvent \<Rightarrow> live_map \<Rightarrow> bool" where
  "outdated e m = (case m (we_path e) of None \<Rightarrow> True | Some r \<Rightarrow> fr_recv_ts_ns r < we_recv_ts_ns e)"

lemma live_event_loses:
  assumes "loses_to e f"
  shows "m (we_path e) = Some (write_record e) \<Longrightarrow> live_event f m (we_path e) = Some (write_record e)"
    and "outdated e m \<Longrightarrow> f \<noteq> Write e \<Longrightarrow> outdated e (live_event f m)"
    and "outdated e m \<Longrightarrow> live_event (Write e) m (we_path e) = Some (write_record e)"
  using assms
  by (cases f; auto simp: outdated_def live_write_def live_delete_def Let_def split: option.splits if_splits)+

lemma newest_write_stays:
  "list_all (loses_to e) es \<Longrightarrow> m (we_path e) = Some (write_record e)
   \<Longrightarrow> fold live_event es m (we_path e) = Some (write_record e)"
  by (induction es arbitrary: m) (simp_all add: live_event_loses(1))

lemma newest_write_prevails:
  "list_all (loses_to e) es \<Longrightarrow> Write e \<in> set es \<Longrightarrow> outdated e m
   \<Longrightarrow> fold live_event es m (we_path e) = Some (write_record e)"
proof (induction es arbitrary: m)
  case (Cons f es)
  then show ?case
    using newest_write_stays[of e es "live_event f m"] live_event_loses[of e f m] by (cases "f = Write e") auto
qed simp


section \<open>Conflict reports\<close>

text \<open>A report names the file that is live after the event, its hash and its
  timestamp, and the loser is never newer than the winner.\<close>

definition report_ok :: "ConflictInfo \<Rightarrow> SiloIndex \<Rightarrow> bool" where
  "report_ok c ix' =
     (case live ix' (ci_path c) of
        None \<Rightarrow> False
      | Some r \<Rightarrow> fr_rapidhash r = ci_kept_rapidhash c
          \<and> fr_recv_ts_ns r = ci_kept_recv_ts_ns c
          \<and> ci_overwritten_recv_ts_ns c \<le> ci_kept_recv_ts_ns c)"

lemma report_ok_write: "apply_write e ix = (Some c, ix') \<Longrightarrow> report_ok c ix'"
  by (auto simp: apply_write_def Let_def report_ok_def live_def
      split: option.splits if_splits)

lemma report_ok_delete: "apply_delete p t ix \<noteq> (Some c, ix')"
  by (auto simp: apply_delete_def split: option.splits)

lemma report_ok_rename: "apply_rename old new t ix = (Some c, ix') \<Longrightarrow> report_ok c ix'"
  by (auto simp: apply_rename_def Let_def report_ok_def live_def
      split: option.splits if_splits)

text \<open>whenever an event returns a \<open>ConflictInfo\<close>, the path it names is live in
  the resulting index with exactly the kept hash and the kept timestamp, and the
  kept timestamp is not older than the overwritten one.\<close>

theorem conflict_report_sound:
  assumes "apply_event e ix = (Some c, ix')"
  shows "report_ok c ix'"
  using assms
  by (cases e) (auto simp: report_ok_delete dest: report_ok_write report_ok_rename)

definition sample_write :: "string \<Rightarrow> int \<Rightarrow> int \<Rightarrow> WriteEvent" where
  "sample_write p h t =
     \<lparr>we_path = p, we_rapidhash = h, we_size = 3, we_mtime_s = 1700000000, we_mtime_ns = 5,
      we_recv_ts_ns = t, we_mode = 420, we_uid_name = ''fm'', we_gid_name = ''staff''\<rparr>"

definition sample_index :: SiloIndex where
  "sample_index = apply_events [Write (sample_write ''a'' 11 10)] (new_SiloIndex 1 ''server'')"

lemmas sample_defs = sample_index_def sample_write_def new_SiloIndex_def write_record_def

theorem conflict_report_sound_witness:
  "\<exists>c ix'. apply_event (Write (sample_write ''a'' 22 12)) sample_index = (Some c, ix')
     \<and> ci_winner c = Incoming \<and> report_ok c ix'"
proof -
  obtain c ix' where r: "apply_event (Write (sample_write ''a'' 22 12)) sample_index = (Some c, ix')"
    and w: "ci_winner c = Incoming"
    by (simp add: sample_defs apply_write_def Let_def)
  from conflict_report_sound[OF r] r w show ?thesis by blast
qed


section \<open>Delivery order of writes\<close>

definition is_write :: "SyncEvent \<Rightarrow> bool" where
  "is_write e = (case e of Write _ \<Rightarrow> True | _ \<Rightarrow> False)"

definition same_slot :: "SyncEvent \<Rightarrow> SyncEvent \<Rightarrow> bool" where
  "same_slot e f =
     (case (e, f) of
        (Write a, Write b) \<Rightarrow> we_path a = we_path b \<and> we_recv_ts_ns a = we_recv_ts_ns b
      | _ \<Rightarrow> False)"

lemma live_write_commute:
  assumes "we_recv_ts_ns a \<noteq> we_recv_ts_ns b"
  shows "live_write a (live_write b cur) = live_write b (live_write a cur)"
  using assms by (auto simp: live_write_def split: option.splits)

lemma live_event_writes_commute:
  assumes "is_write e" and "is_write f" and "same_slot e f \<Longrightarrow> e = f"
  shows "live_event e \<circ> live_event f = live_event f \<circ> live_event e"
proof -
  obtain a b where ab: "e = Write a" "f = Write b"
    using assms(1,2) by (cases e; cases f) (auto simp: is_write_def)
  show ?thesis
  proof (cases "we_path a = we_path b \<and> a \<noteq> b")
    case True
    with assms(3) ab have "we_recv_ts_ns a \<noteq> we_recv_ts_ns b"
      by (auto simp: same_slot_def)
    from live_write_commute[OF this] True ab show ?thesis by (auto simp: fun_eq_iff)
  next
    case False
    with ab show ?thesis by (auto simp: fun_eq_iff fun_upd_def)
  qed
qed

text \<open>C7: writes converge whatever order they are delivered in: two sequences of write
  events with the same events leave the same live view, provided no two different
  writes to one path carry the same receive timestamp.\<close>

theorem writes_converge:
  assumes "\<And>e. e \<in> set es \<Longrightarrow> is_write e"
    and "\<And>e f. e \<in> set es \<Longrightarrow> f \<in> set es \<Longrightarrow> same_slot e f \<Longrightarrow> e = f"
    and "mset es = mset es'"
  shows "live (apply_events es ix) = live (apply_events es' ix)"
proof -
  have "fold live_event es = fold live_event es'"
    using assms by (intro fold_multiset_equiv live_event_writes_commute) auto
  then show ?thesis by (simp add: live_apply_events)
qed

theorem writes_converge_witness:
  "live (apply_events [Write (sample_write ''b'' 1 5), Write (sample_write ''b'' 2 9)] sample_index)
   = live (apply_events [Write (sample_write ''b'' 2 9), Write (sample_write ''b'' 1 5)] sample_index)"
  by (rule writes_converge)
    (auto simp: is_write_def same_slot_def sample_write_def)

text \<open>deletions are not last-writer-wins against later-delivered older writes: a
  write older than a deletion that already took effect brings the file back, while
  the same two events in timestamp order leave it deleted.\<close>

theorem stale_write_resurrects:
  assumes "live ix p = Some r" and "fr_recv_ts_ns r \<le> t"
    and "we_path e = p" and "we_recv_ts_ns e < t"
  shows "live (apply_events [Delete p t, Write e] ix) p = Some (write_record e)
    \<and> live (apply_events [Write e, Delete p t] ix) p = None"
  using assms
  by (auto simp: live_apply_write live_apply_delete live_write_def live_delete_def)

theorem stale_write_resurrects_witness:
  "live (apply_events [Delete ''a'' 20, Write (sample_write ''a'' 7 15)] sample_index) ''a''
     = Some (write_record (sample_write ''a'' 7 15))
   \<and> live (apply_events [Write (sample_write ''a'' 7 15), Delete ''a'' 20] sample_index) ''a'' = None"
proof -
  have l: "live sample_index ''a'' = Some (write_record (sample_write ''a'' 11 10))"
    by (simp add: sample_index_def live_apply_write live_write_def new_SiloIndex_def live_def
        sample_write_def)
  have t: "fr_recv_ts_ns (write_record (sample_write ''a'' 11 10)) \<le> 20"
    and p: "we_path (sample_write ''a'' 7 15) = ''a''"
    and o: "we_recv_ts_ns (sample_write ''a'' 7 15) < 20"
    by (simp_all add: sample_write_def)
  show ?thesis using stale_write_resurrects[OF l t p o] by blast
qed

section \<open>Replaying events\<close>

text \<open>On one path, writes and deletions are threshold steps in the receive timestamp:
  a write is kept out by a record at least as new, a deletion by a strictly newer one.\<close>

datatype slot_op = SlotWrite WriteEvent | SlotDelete int

fun slot_step :: "slot_op \<Rightarrow> FileRecord option \<Rightarrow> FileRecord option" where
  "slot_step (SlotWrite e) cur = live_write e cur"
| "slot_step (SlotDelete t) cur = live_delete t cur"

fun slot_keeps :: "slot_op \<Rightarrow> int option \<Rightarrow> bool" where
  "slot_keeps (SlotWrite e) (Some t) = (we_recv_ts_ns e \<le> t)"
| "slot_keeps (SlotDelete d) (Some t) = (d < t)"
| "slot_keeps _ None = False"

fun slot_repl :: "slot_op \<Rightarrow> FileRecord option" where
  "slot_repl (SlotWrite e) = Some (write_record e)"
| "slot_repl (SlotDelete t) = None"

interpretation slot: threshold_machine "map_option fr_recv_ts_ns" slot_step slot_keeps slot_repl
proof
  show "slot_step x s = (if slot_keeps x (map_option fr_recv_ts_ns s) then s else slot_repl x)" for x s
    by (cases x; cases s) (auto simp: live_write_def live_delete_def)
  show "slot_keeps x b" if "slot_keeps x a" "a \<le> b" for x a b
    using that by (cases x; cases a; cases b) auto
  show "map_option fr_recv_ts_ns (slot_repl x) \<le> a" if "slot_keeps x a" for x a
    using that by (cases x; cases a) auto
qed

definition is_rename :: "SyncEvent \<Rightarrow> bool" where
  "is_rename e = (case e of Rename _ _ _ \<Rightarrow> True | _ \<Rightarrow> False)"

fun slot_of :: "string \<Rightarrow> SyncEvent \<Rightarrow> slot_op list" where
  "slot_of p (Write e) = (if we_path e = p then [SlotWrite e] else [])"
| "slot_of p (Delete q t) = (if q = p then [SlotDelete t] else [])"
| "slot_of p (Rename _ _ _) = []"

lemma live_events_slot:
  assumes "\<And>e. e \<in> set es \<Longrightarrow> \<not> is_rename e"
  shows "fold live_event es m p = fold slot_step (concat (map (slot_of p) es)) (m p)"
  using assms
proof (induction es arbitrary: m)
  case (Cons e es)
  have "\<not> is_rename e" using Cons.prems by simp
  with Cons show ?case by (cases e) (auto simp: is_rename_def)
qed simp

lemma live_replay_twice:
  assumes "\<And>e. e \<in> set es \<Longrightarrow> \<not> is_rename e"
  shows "live (apply_events es (apply_events es ix)) = live (apply_events es ix)"
  using assms
  by (simp add: fun_eq_iff live_apply_events live_events_slot slot.run_idem)

section \<open>What the diff sends\<close>

definition needs_send :: "(string, FileEntrySnapshot) dict \<Rightarrow> string \<Rightarrow> FileRecord \<Rightarrow> bool" where
  "needs_send remote p r \<longleftrightarrow>
     \<not> fr_deleted r
     \<and> (case dict_get remote p of None \<Rightarrow> True | Some s \<Rightarrow> get_rapidhash s \<noteq> fr_rapidhash r)"

definition entry_for ::
  "(string, FileEntrySnapshot) dict \<Rightarrow> string \<Rightarrow> FileRecord \<Rightarrow> validation_error list + FileEntry" where
  "entry_for remote p r =
     (case dict_get remote p of
        None \<Rightarrow> to_file_entry p r True None
      | Some s \<Rightarrow> to_file_entry p r False (Some (get_rapidhash s)))"

lemma diff_one_eq:
  "diff_one remote p r = (if needs_send remote p r then Some (entry_for remote p r) else None)"
  by (simp add: diff_one_def needs_send_def entry_for_def split: option.split)

lemma entry_for_path: "entry_for remote p r = Inr e \<Longrightarrow> fe_path e = p"
  by (auto simp: entry_for_def to_file_entry_def mk_FileEntry_Inr split: option.splits)

lemma entry_for_kind:
  "entry_for remote p r = Inr e \<Longrightarrow>
     fe_is_full e = (dict_get remote p = None)
     \<and> fe_delta_base_rapidhash e = map_option get_rapidhash (dict_get remote p)
     \<and> fe_rapidhash e = fr_rapidhash r"
  by (auto simp: entry_for_def to_file_entry_def mk_FileEntry_Inr split: option.splits)

lemma diff_loop_Inr:
  "diff_loop remote rs = Inr xs \<longleftrightarrow>
     map (\<lambda>(p, r). entry_for remote p r) (filter (\<lambda>(p, r). needs_send remote p r) rs) = map Inr xs"
proof (induction rs arbitrary: xs)
  case Nil
  then show ?case by auto
next
  case (Cons pr rs)
  obtain p r where pr: "pr = (p, r)" by fastforce
  show ?case
  proof (cases "needs_send remote p r")
    case False
    then show ?thesis using Cons.IH[of xs] by (simp add: pr diff_one_eq)
  next
    case True
    show ?thesis
    proof (cases xs)
      case Nil
      with True show ?thesis by (auto simp: pr diff_one_eq split: sum.split)
    next
      case (Cons y ys)
      with True Cons.IH[of ys] show ?thesis
        by (auto simp: pr diff_one_eq split: sum.split)
    qed
  qed
qed

lemma diff_paths:
  assumes "diff_loop remote rs = Inr xs"
  shows "map fe_path xs = map fst (filter (\<lambda>(p, r). needs_send remote p r) rs)"
  using assms
  by (induction remote rs arbitrary: xs rule: diff_loop.induct)
    (auto simp: diff_one_eq dest: entry_for_path split: option.splits sum.splits if_splits)

lemma needs_send_live:
  assumes "ix_wf ix"
  shows "(\<exists>r. (p, r) \<in> set (ix_records ix) \<and> needs_send remote p r) \<longleftrightarrow>
         (\<exists>r. live ix p = Some r \<and> needs_send remote p r)"
proof -
  have "(p, r) \<in> set (ix_records ix) \<longleftrightarrow> dict_get (ix_records ix) p = Some r" for r
    using assms by (simp add: ix_wf_def dict_get_mem)
  then show ?thesis
    by (auto simp: live_def needs_send_def split: option.splits)
qed

lemma filter_distinct_keys: "dict_ok d \<Longrightarrow> distinct (map fst (filter P d))"
  by (simp add: dict_ok_def distinct_map_filter)

text \<open>when the diff returns, it holds exactly one entry for every live file the
  remote lacks or has with another hash and none for any other path; an entry asks
  for a full transfer exactly when the remote has no record of the path, and otherwise
  names the remote's hash as its delta base.\<close>

theorem diff_exact:
  assumes "ix_wf ix" and "diff ix remote = Inr xs"
  shows "distinct (map fe_path xs)
    \<and> (\<forall>p. p \<in> fe_path ` set xs \<longleftrightarrow> (\<exists>r. live ix p = Some r \<and> needs_send remote p r))
    \<and> (\<forall>e. e \<in> set xs \<longrightarrow> fe_is_full e = (dict_get remote (fe_path e) = None)
        \<and> fe_delta_base_rapidhash e = map_option get_rapidhash (dict_get remote (fe_path e)))"
proof (intro conjI allI impI)
  let ?F = "filter (\<lambda>(p, r). needs_send remote p r) (ix_records ix)"
  have loop: "diff_loop remote (ix_records ix) = Inr xs" using assms(2) by (simp add: diff_def)
  note paths = diff_paths[OF loop]
  show "distinct (map fe_path xs)"
    using assms(1) by (simp add: paths filter_distinct_keys ix_wf_def)
  fix p
  have "p \<in> fe_path ` set xs \<longleftrightarrow> p \<in> set (map fst ?F)"
    by (simp flip: paths)
  also have "\<dots> \<longleftrightarrow> (\<exists>r. (p, r) \<in> set (ix_records ix) \<and> needs_send remote p r)"
    by force
  finally show "p \<in> fe_path ` set xs \<longleftrightarrow> (\<exists>r. live ix p = Some r \<and> needs_send remote p r)"
    using needs_send_live[OF assms(1)] by simp
next
  fix e assume "e \<in> set xs"
  then have "Inr e \<in> set (map (\<lambda>(p, r). entry_for remote p r)
      (filter (\<lambda>(p, r). needs_send remote p r) (ix_records ix)))"
    using assms(2) by (auto simp: diff_def diff_loop_Inr)
  then obtain p r where "entry_for remote p r = Inr e" by auto
  with entry_for_path[OF this] entry_for_kind[OF this]
  show "fe_is_full e = (dict_get remote (fe_path e) = None)"
    and "fe_delta_base_rapidhash e = map_option get_rapidhash (dict_get remote (fe_path e))"
    by auto
qed

theorem diff_exact_witness:
  "\<exists>e. diff sample_index [] = Inr [e] \<and> fe_is_full e"
proof -
  have wf: "ix_wf sample_index"
    unfolding sample_index_def by (rule ix_machine.run_inv) simp
  obtain e where d: "diff sample_index [] = Inr [e]"
    by (simp add: diff_def sample_defs apply_write_def Let_def diff_one_def to_file_entry_def
        mk_FileEntry_def valid_entry_simps safe_path_def UINT64_MAX_def)
  show ?thesis using diff_exact[OF wf d] d by auto
qed

text \<open>the diff against the snapshot of another index is empty exactly when the other
  index has a record, live or deleted, with the same hash for every live file of this
  one; in particular a file the other side deleted is not sent back.\<close>

theorem diff_empty_iff:
  assumes "ix_wf ix"
  shows "diff ix (to_snapshot ix2) = Inr [] \<longleftrightarrow>
    (\<forall>p r. live ix p = Some r \<longrightarrow>
       (\<exists>r2. dict_get (ix_records ix2) p = Some r2 \<and> fr_rapidhash r2 = fr_rapidhash r))"
proof -
  let ?R = "to_snapshot ix2"
  have get: "dict_get ?R p = map_option record_to_snapshot (dict_get (ix_records ix2) p)" for p
    by (simp add: to_snapshot_def map_of_map)
  have "diff ix ?R = Inr [] \<longleftrightarrow> (\<forall>x \<in> set (ix_records ix). \<not> (\<lambda>(p, r). needs_send ?R p r) x)"
    by (simp add: diff_def diff_loop_Inr filter_empty_conv)
  also have "\<dots> \<longleftrightarrow> (\<forall>p. \<not> (\<exists>r. (p, r) \<in> set (ix_records ix) \<and> needs_send ?R p r))"
    by auto
  also have "\<dots> \<longleftrightarrow> (\<forall>p r. live ix p = Some r \<longrightarrow> \<not> needs_send ?R p r)"
    using needs_send_live[OF assms] by simp
  also have "\<dots> \<longleftrightarrow> (\<forall>p r. live ix p = Some r \<longrightarrow>
       (\<exists>r2. dict_get (ix_records ix2) p = Some r2 \<and> fr_rapidhash r2 = fr_rapidhash r))"
    (is "_ = (\<forall>p r. _ \<longrightarrow> ?ok p r)")
  proof -
    have "\<not> needs_send ?R p r \<longleftrightarrow> ?ok p r" if "live ix p = Some r" for p r
      using live_not_deleted[OF that]
      by (cases "dict_get (ix_records ix2) p")
        (auto simp: needs_send_def get get_rapidhash_def record_to_snapshot_def)
    then show ?thesis by blast
  qed
  finally show ?thesis .
qed

theorem diff_empty_iff_witness:
  "diff sample_index (to_snapshot (apply_events [Delete ''a'' 20] sample_index)) = Inr []
   \<and> live (apply_events [Delete ''a'' 20] sample_index) ''a'' = None
   \<and> live sample_index ''a'' \<noteq> None"
proof -
  have wf: "ix_wf sample_index"
    unfolding sample_index_def by (rule ix_machine.run_inv) simp
  show ?thesis
    unfolding diff_empty_iff[OF wf]
    by (simp add: sample_defs apply_write_def apply_delete_def Let_def live_def)
qed

end
