(* ===== verification/Json.thy ===== *)
theory Json
  imports Prelude
begin

text \<open>
  The part of Python's \<^verbatim>\<open>json\<close> module the journal, the checkpoint and the audit log
  rest on: \<^verbatim>\<open>json.dumps(v, separators=(",", ":"))\<close> with its default ASCII escaping,
  and \<^verbatim>\<open>json.loads\<close> as a recursive-descent parser.  A number with a fraction or an
  exponent is kept as its lexeme.  The parser carries fuel for its nesting; the
  length of the text is always enough (\<open>loads_dumps\<close>).
\<close>

section \<open>Values\<close>

datatype json =
    JNull
  | JBool bool
  | JInt int
  | JFloat string
  | JStr string
  | JList "json list"
  | JObj "(string \<times> json) list"

section \<open>Printing\<close>

definition hex_digit :: "nat \<Rightarrow> char" where
  "hex_digit n = (''0123456789abcdef'' ! n)"

abbreviation dquote :: char where "dquote \<equiv> CHR 0x22"
abbreviation bslash :: char where "bslash \<equiv> CHR 0x5C"

definition esc_char :: "char \<Rightarrow> string" where
  "esc_char c =
     (if c = dquote then [bslash, dquote]
      else if c = bslash then [bslash, bslash]
      else if c = CHR 0x0A then [bslash, CHR ''n'']
      else if c = CHR 0x0D then [bslash, CHR ''r'']
      else if c = CHR 0x09 then [bslash, CHR ''t'']
      else if c = CHR 0x0C then [bslash, CHR ''f'']
      else if c = CHR 0x08 then [bslash, CHR ''b'']
      else let n = (of_char c :: nat) in
           if 32 \<le> n \<and> n \<le> 126 then [c]
           else [bslash, CHR ''u'', CHR ''0'', CHR ''0'', hex_digit (n div 16), hex_digit (n mod 16)])"

definition quote_str :: "string \<Rightarrow> string" where
  "quote_str s = dquote # concat (map esc_char s) @ [dquote]"

fun show_nat :: "nat \<Rightarrow> string" where
  "show_nat n = (if n < 10 then [hex_digit n] else show_nat (n div 10) @ [hex_digit (n mod 10)])"

definition show_int :: "int \<Rightarrow> string" where
  "show_int i = (if i < 0 then CHR ''-'' # show_nat (nat (- i)) else show_nat (nat i))"

fun dumps :: "json \<Rightarrow> string"
  and dumps_elems :: "json list \<Rightarrow> string"
  and dumps_members :: "(string \<times> json) list \<Rightarrow> string" where
  "dumps JNull = ''null''"
| "dumps (JBool b) = (if b then ''true'' else ''false'')"
| "dumps (JInt i) = show_int i"
| "dumps (JFloat s) = s"
| "dumps (JStr s) = quote_str s"
| "dumps (JList vs) = CHR ''['' # dumps_elems vs @ '']''"
| "dumps (JObj kvs) = CHR ''{'' # dumps_members kvs @ ''}''"
| "dumps_elems [] = []"
| "dumps_elems [v] = dumps v"
| "dumps_elems (v # w # vs) = dumps v @ CHR '','' # dumps_elems (w # vs)"
| "dumps_members [] = []"
| "dumps_members [(k, v)] = quote_str k @ CHR '':'' # dumps v"
| "dumps_members ((k, v) # kv # kvs) =
     quote_str k @ CHR '':'' # dumps v @ CHR '','' # dumps_members (kv # kvs)"

declare show_nat.simps [simp del]

section \<open>Parsing\<close>

definition is_ws :: "char \<Rightarrow> bool" where
  "is_ws c \<longleftrightarrow> c = CHR '' '' \<or> c = CHR 0x09 \<or> c = CHR 0x0A \<or> c = CHR 0x0D"

definition skip_ws :: "string \<Rightarrow> string" where
  "skip_ws s = dropWhile is_ws s"

definition digit_val :: "char \<Rightarrow> nat option" where
  "digit_val c =
     (let n = (of_char c :: nat) in if 48 \<le> n \<and> n \<le> 57 then Some (n - 48) else None)"

definition is_digit :: "char \<Rightarrow> bool" where
  "is_digit c \<longleftrightarrow> digit_val c \<noteq> None"

definition hex_val :: "char \<Rightarrow> nat option" where
  "hex_val c =
     (let n = (of_char c :: nat) in
      if 48 \<le> n \<and> n \<le> 57 then Some (n - 48)
      else if 97 \<le> n \<and> n \<le> 102 then Some (n - 87)
      else if 65 \<le> n \<and> n \<le> 70 then Some (n - 55)
      else None)"

definition hex4_char :: "char \<Rightarrow> char \<Rightarrow> char \<Rightarrow> char \<Rightarrow> char option" where
  "hex4_char a b c d =
     (case (hex_val a, hex_val b, hex_val c, hex_val d) of
        (Some a', Some b', Some c', Some d') \<Rightarrow>
          (let n = ((a' * 16 + b') * 16 + c') * 16 + d' in
           if n < 256 then Some (char_of n) else None)
      | _ \<Rightarrow> None)"

definition scan_hex4 :: "string \<Rightarrow> (char \<times> string) option" where
  "scan_hex4 s =
     (case s of a # b # c # d # s' \<Rightarrow> map_option (\<lambda>x. (x, s')) (hex4_char a b c d)
      | _ \<Rightarrow> None)"

text \<open>One escape sequence after the backslash.  A \<^verbatim>\<open>\u\<close> escape at or above 256 is
  outside the character set of the model.\<close>

definition scan_escape :: "string \<Rightarrow> (char \<times> string) option" where
  "scan_escape s =
     (case s of [] \<Rightarrow> None
      | e # s' \<Rightarrow>
          if e = dquote \<or> e = bslash \<or> e = CHR ''/'' then Some (e, s')
          else if e = CHR ''n'' then Some (CHR 0x0A, s')
          else if e = CHR ''r'' then Some (CHR 0x0D, s')
          else if e = CHR ''t'' then Some (CHR 0x09, s')
          else if e = CHR ''f'' then Some (CHR 0x0C, s')
          else if e = CHR ''b'' then Some (CHR 0x08, s')
          else if e = CHR ''u'' then
            scan_hex4 s'
          else None)"

lemma scan_hex4_shorter: "scan_hex4 s = Some (c, s') \<Longrightarrow> length s' < length s"
  by (auto simp: scan_hex4_def split: list.splits)

lemma scan_escape_shorter: "scan_escape s = Some (c, s') \<Longrightarrow> length s' < length s"
  by (auto simp: scan_escape_def dest: scan_hex4_shorter split: list.splits if_splits)

function scan_string :: "string \<Rightarrow> (string \<times> string) option" where
  "scan_string [] = None"
| "scan_string (c # s) =
     (if c = dquote then Some ([], s)
      else if c = bslash then
        (case scan_escape s of None \<Rightarrow> None
         | Some (x, s') \<Rightarrow> map_option (\<lambda>(xs, r). (x # xs, r)) (scan_string s'))
      else if (of_char c :: nat) < 32 then None
      else map_option (\<lambda>(xs, r). (c # xs, r)) (scan_string s))"
  by pat_completeness auto
termination
  by (relation "measure length") (auto dest: scan_escape_shorter)

fun read_nat :: "nat \<Rightarrow> string \<Rightarrow> nat" where
  "read_nat a [] = a"
| "read_nat a (c # s) = (case digit_val c of None \<Rightarrow> a | Some d \<Rightarrow> read_nat (a * 10 + d) s)"

definition split_digits :: "string \<Rightarrow> string \<times> string" where
  "split_digits s = (takeWhile is_digit s, dropWhile is_digit s)"

text \<open>The integer part: a single zero or a digit string with no leading zero.\<close>

definition scan_int_part :: "string \<Rightarrow> (string \<times> string) option" where
  "scan_int_part s =
     (case s of [] \<Rightarrow> None
      | c # s' \<Rightarrow> if c = CHR ''0'' then Some ([c], s')
                 else if is_digit c then Some (split_digits s) else None)"

definition scan_frac :: "string \<Rightarrow> string \<times> string" where
  "scan_frac s =
     (case s of c # d # s' \<Rightarrow>
        if c = CHR ''.'' \<and> is_digit d
        then (case split_digits (d # s') of (ds, r) \<Rightarrow> (c # ds, r)) else ([], s)
      | _ \<Rightarrow> ([], s))"

definition scan_sign :: "string \<Rightarrow> string \<times> string" where
  "scan_sign s =
     (case s of [] \<Rightarrow> ([], s)
      | x # s' \<Rightarrow> if x = CHR ''-'' \<or> x = CHR ''+'' then ([x], s') else ([], s))"

definition scan_exp :: "string \<Rightarrow> string \<times> string" where
  "scan_exp s =
     (case s of [] \<Rightarrow> ([], s)
      | c # s' \<Rightarrow>
          if c = CHR ''e'' \<or> c = CHR ''E'' then
            (case scan_sign s' of (sg, s2) \<Rightarrow>
               (case split_digits s2 of (ds, r) \<Rightarrow>
                  if ds = [] then ([], s) else (c # sg @ ds, r)))
          else ([], s))"

definition scan_number :: "string \<Rightarrow> (json \<times> string) option" where
  "scan_number s =
     (let (neg, s1) = (case s of c # s' \<Rightarrow> if c = CHR ''-'' then (True, s') else (False, s)
                       | [] \<Rightarrow> (False, s))
      in case scan_int_part s1 of None \<Rightarrow> None
         | Some (ip, s2) \<Rightarrow>
             (case scan_frac s2 of (fp, s3) \<Rightarrow>
                (case scan_exp s3 of (ep, s4) \<Rightarrow>
                   if fp = [] \<and> ep = []
                   then Some (JInt (if neg then - int (read_nat 0 ip) else int (read_nat 0 ip)), s4)
                   else Some (JFloat ((if neg then ''-'' else []) @ ip @ fp @ ep), s4))))"

definition literal_of :: "char \<Rightarrow> (string \<times> json) option" where
  "literal_of c =
     (if c = CHR ''n'' then Some (''null'', JNull)
      else if c = CHR ''t'' then Some (''true'', JBool True)
      else if c = CHR ''f'' then Some (''false'', JBool False)
      else if c = CHR ''N'' then Some (''NaN'', JFloat ''NaN'')
      else if c = CHR ''I'' then Some (''Infinity'', JFloat ''Infinity'')
      else if c = CHR ''-'' then Some (''-Infinity'', JFloat ''-Infinity'')
      else None)"

definition parse_scalar :: "string \<Rightarrow> (json \<times> string) option" where
  "parse_scalar s =
     (case scan_number s of Some x \<Rightarrow> Some x
      | None \<Rightarrow>
          (case s of [] \<Rightarrow> None
           | c # _ \<Rightarrow>
               (case literal_of c of None \<Rightarrow> None
                | Some (p, v) \<Rightarrow> if starts_with p s then Some (v, drop (length p) s) else None)))"

fun parse_value :: "nat \<Rightarrow> string \<Rightarrow> (json \<times> string) option"
  and parse_elems :: "nat \<Rightarrow> string \<Rightarrow> json list \<Rightarrow> (json \<times> string) option"
  and parse_members :: "nat \<Rightarrow> string \<Rightarrow> (string \<times> json) list \<Rightarrow> (json \<times> string) option" where
  "parse_value 0 s = None"
| "parse_value (Suc f) s =
     (case s of [] \<Rightarrow> None
      | c # s' \<Rightarrow>
          if c = dquote then map_option (\<lambda>(x, r). (JStr x, r)) (scan_string s')
          else if c = CHR ''{'' then
            (case skip_ws s' of [] \<Rightarrow> None
             | d # s2 \<Rightarrow> if d = CHR ''}'' then Some (JObj [], s2) else parse_members f (d # s2) [])
          else if c = CHR ''['' then
            (case skip_ws s' of [] \<Rightarrow> None
             | d # s2 \<Rightarrow> if d = CHR '']'' then Some (JList [], s2) else parse_elems f (d # s2) [])
          else parse_scalar s)"
| "parse_elems 0 s acc = None"
| "parse_elems (Suc f) s acc =
     (case parse_value f s of None \<Rightarrow> None
      | Some (v, s1) \<Rightarrow>
          (case skip_ws s1 of [] \<Rightarrow> None
           | d # s2 \<Rightarrow>
               if d = CHR '','' then parse_elems f (skip_ws s2) (acc @ [v])
               else if d = CHR '']'' then Some (JList (acc @ [v]), s2)
               else None))"
| "parse_members 0 s acc = None"
| "parse_members (Suc f) s acc =
     (case s of [] \<Rightarrow> None
      | c # s' \<Rightarrow>
          if c \<noteq> dquote then None
          else (case scan_string s' of None \<Rightarrow> None
                | Some (k, s1) \<Rightarrow>
                    (case skip_ws s1 of [] \<Rightarrow> None
                     | d # s2 \<Rightarrow>
                         if d \<noteq> CHR '':'' then None
                         else (case parse_value f (skip_ws s2) of None \<Rightarrow> None
                               | Some (v, s3) \<Rightarrow>
                                   (case skip_ws s3 of [] \<Rightarrow> None
                                    | e # s4 \<Rightarrow>
                                        if e = CHR '','' then parse_members f (skip_ws s4) (dict_set k v acc)
                                        else if e = CHR ''}'' then Some (JObj (dict_set k v acc), s4)
                                        else None)))))"

text \<open>\<^verbatim>\<open>json.loads\<close>: surrounding white space is allowed, anything else after the
  value is an error.\<close>

definition loads :: "string \<Rightarrow> json option" where
  "loads s =
     (case parse_value (Suc (length s)) (skip_ws s) of
        None \<Rightarrow> None
      | Some (v, r) \<Rightarrow> if skip_ws r = [] then Some v else None)"

section \<open>Printing and parsing are inverse\<close>

lemma hex_val_digit: "n < 16 \<Longrightarrow> hex_val (hex_digit n) = Some n"
proof -
  have "\<forall>n \<in> set [0..<16]. hex_val (hex_digit n) = Some n" by code_simp
  then show "n < 16 \<Longrightarrow> ?thesis" by simp
qed

lemma digit_val_digit: "n < 10 \<Longrightarrow> digit_val (hex_digit n) = Some n"
proof -
  have "\<forall>n \<in> set [0..<10]. digit_val (hex_digit n) = Some n" by code_simp
  then show "n < 10 \<Longrightarrow> ?thesis" by simp
qed

lemma of_char_bound: "(of_char c :: nat) < 256"
  by simp

lemma scan_escape_unicode:
  assumes "n < 256"
  shows "scan_escape (CHR ''u'' # CHR ''0'' # CHR ''0'' # hex_digit (n div 16) # hex_digit (n mod 16) # s)
    = Some (char_of n, s)"
proof -
  have "hex_val (CHR ''0'') = Some 0" by code_simp
  moreover have "n div 16 < 16" "n mod 16 < 16" using assms by auto
  ultimately show ?thesis using assms by (simp add: scan_escape_def scan_hex4_def hex4_char_def hex_val_digit Let_def)
qed

lemma esc_char_cases:
  obtains (esc) e where "esc_char c = [bslash, e]" "\<And>s. scan_escape (e # s) = Some (c, s)"
  | (unicode) "esc_char c = bslash # CHR ''u'' # CHR ''0'' # CHR ''0''
      # hex_digit (of_char c div 16) # [hex_digit (of_char c mod 16)]"
  | (plain) "esc_char c = [c]" "c \<noteq> dquote" "c \<noteq> bslash" "32 \<le> (of_char c :: nat)"
      "(of_char c :: nat) \<le> 126"
proof (cases "c \<in> {dquote, bslash, CHR 0x0A, CHR 0x0D, CHR 0x09, CHR 0x0C, CHR 0x08}")
  case True
  then have "\<exists>e. esc_char c = [bslash, e] \<and> (\<forall>s. scan_escape (e # s) = Some (c, s))"
    by (auto simp: esc_char_def scan_escape_def)
  then show ?thesis using esc by blast
next
  case False
  then have "esc_char c = (let n = (of_char c :: nat) in
           if 32 \<le> n \<and> n \<le> 126 then [c]
           else [bslash, CHR ''u'', CHR ''0'', CHR ''0'', hex_digit (n div 16), hex_digit (n mod 16)])"
    by (simp add: esc_char_def)
  with False show ?thesis
    using unicode plain by (cases "32 \<le> (of_char c :: nat) \<and> (of_char c :: nat) \<le> 126") (auto simp: Let_def)
qed

lemma scan_string_esc:
  "scan_string (esc_char c @ s) = map_option (\<lambda>(xs, r). (c # xs, r)) (scan_string s)"
proof (cases c rule: esc_char_cases)
  case (esc e)
  then show ?thesis by simp
next
  case unicode
  then show ?thesis using scan_escape_unicode[OF of_char_bound, of c s] by simp
next
  case plain
  then show ?thesis by simp
qed

lemma scan_string_quoted: "scan_string (concat (map esc_char cs) @ dquote # r) = Some (cs, r)"
  by (induction cs) (auto simp: scan_string_esc)

subsection \<open>Integers\<close>

lemma show_nat_digits: "c \<in> set (show_nat n) \<Longrightarrow> is_digit c"
proof (induction n rule: show_nat.induct)
  case (1 n)
  then show ?case
    by (subst (asm) show_nat.simps) (auto simp: is_digit_def digit_val_digit split: if_splits)
qed

lemma show_nat_not_Nil [simp]: "show_nat n \<noteq> []"
  by (subst show_nat.simps) simp

lemma hex_digit_zero: "n < 10 \<Longrightarrow> hex_digit n = CHR ''0'' \<longleftrightarrow> n = 0"
proof -
  have "\<forall>n \<in> set [0..<10]. hex_digit n = CHR ''0'' \<longleftrightarrow> n = 0" by code_simp
  then show "n < 10 \<Longrightarrow> ?thesis" by simp
qed

lemma show_nat_leading: "hd (show_nat n) = CHR ''0'' \<Longrightarrow> n = 0"
proof (induction n rule: show_nat.induct)
  case (1 n)
  show ?case
  proof (cases "n < 10")
    case True
    with "1.prems" show ?thesis by (subst (asm) show_nat.simps) (simp add: hex_digit_zero)
  next
    case False
    with "1.prems" have "hd (show_nat (n div 10)) = CHR ''0''"
      by (subst (asm) show_nat.simps) simp
    with "1.IH" False have "n div 10 = 0" by simp
    with False show ?thesis by simp
  qed
qed

lemma read_nat_append:
  "\<forall>c \<in> set xs. is_digit c \<Longrightarrow> read_nat a (xs @ ys) = read_nat (read_nat a xs) ys"
  by (induction xs arbitrary: a) (auto simp: is_digit_def split: option.splits)

lemma read_show_nat: "read_nat 0 (show_nat n) = n"
proof (induction n rule: show_nat.induct)
  case (1 n)
  show ?case
  proof (cases "n < 10")
    case True
    then show ?thesis by (subst show_nat.simps) (simp add: digit_val_digit)
  next
    case False
    then have "read_nat 0 (show_nat n) = read_nat (n div 10) [hex_digit (n mod 10)]"
      using "1.IH" by (subst show_nat.simps) (simp add: read_nat_append show_nat_digits)
    then show ?thesis by (simp add: digit_val_digit)
  qed
qed

definition follows :: "string \<Rightarrow> bool" where
  "follows r \<longleftrightarrow> r = [] \<or> hd r \<in> {CHR '','', CHR ''}'', CHR '']''}"

lemma follows_no_number:
  assumes "follows r"
  shows "takeWhile is_digit r = []" "dropWhile is_digit r = r" "scan_frac r = ([], r)"
    "scan_exp r = ([], r)" "skip_ws r = r"
  using assms
  by (cases r; auto simp: follows_def is_digit_def digit_val_def scan_frac_def scan_exp_def
      skip_ws_def is_ws_def split: list.split)+

lemma scan_int_part_show:
  assumes "follows r"
  shows "scan_int_part (show_nat n @ r) = Some (show_nat n, r)"
proof (cases "n = 0")
  case True
  then show ?thesis by (subst (1 2) show_nat.simps) (simp add: scan_int_part_def hex_digit_def)
next
  case False
  obtain c s where cs: "show_nat n = c # s" by (cases "show_nat n") auto
  have "c \<noteq> CHR ''0''" using show_nat_leading[of n] False cs by auto
  moreover have "is_digit c" using show_nat_digits[of c n] cs by simp
  moreover have "split_digits (show_nat n @ r) = (show_nat n, r)"
    using follows_no_number[OF assms] show_nat_digits[of _ n]
    by (simp add: split_digits_def takeWhile_append dropWhile_append)
  ultimately show ?thesis using cs by (simp add: scan_int_part_def)
qed

lemma show_nat_hd_digit: "is_digit (hd (show_nat n @ r))"
  using show_nat_digits[of "hd (show_nat n)" n] by simp

lemma scan_number_show:
  assumes "follows r"
  shows "scan_number (show_int i @ r) = Some (JInt i, r)"
proof -
  have m: "\<not> is_digit (CHR ''-'')" by code_simp
  have pos: "scan_number (show_nat n @ r) = Some (JInt (int n), r)" for n
  proof -
    obtain c s where cs: "show_nat n = c # s" by (cases "show_nat n") auto
    have "c \<noteq> CHR ''-''" using show_nat_digits[of c n] cs m by auto
    moreover have "scan_int_part (c # s @ r) = Some (c # s, r)"
      using scan_int_part_show[OF assms, of n] cs by simp
    ultimately show ?thesis
      using read_show_nat[of n] by (simp add: scan_number_def cs follows_no_number[OF assms])
  qed
  have neg: "scan_number (CHR ''-'' # show_nat n @ r) = Some (JInt (- int n), r)" for n
    by (simp add: scan_number_def scan_int_part_show[OF assms] follows_no_number[OF assms] read_show_nat)
  show ?thesis using pos neg by (simp add: show_int_def)
qed

subsection \<open>Values\<close>

fun json_ok :: "json \<Rightarrow> bool" where
  "json_ok (JFloat _) = False"
| "json_ok (JList vs) = (\<forall>v \<in> set vs. json_ok v)"
| "json_ok (JObj kvs) = (dict_ok kvs \<and> (\<forall>kv \<in> set kvs. json_ok (snd kv)))"
| "json_ok _ = True"

lemma parse_value_obj:
  "parse_value (Suc f) (CHR ''{'' # s) =
     (case skip_ws s of [] \<Rightarrow> None
      | d # s2 \<Rightarrow> if d = CHR ''}'' then Some (JObj [], s2) else parse_members f (d # s2) [])"
  by simp

lemma parse_value_list:
  "parse_value (Suc f) (CHR ''['' # s) =
     (case skip_ws s of [] \<Rightarrow> None
      | d # s2 \<Rightarrow> if d = CHR '']'' then Some (JList [], s2) else parse_elems f (d # s2) [])"
  by simp

lemma scan_int_part_hd: "scan_int_part s = Some x \<Longrightarrow> s \<noteq> [] \<and> is_digit (hd s)"
proof -
  have "is_digit (CHR ''0'')" by code_simp
  then show "scan_int_part s = Some x \<Longrightarrow> ?thesis"
    by (auto simp: scan_int_part_def split: list.splits if_splits)
qed

lemma scan_number_hd:
  assumes "scan_number s = Some x"
  obtains c s' where "s = c # s'" "is_digit c \<or> c = CHR ''-'' \<and> s' \<noteq> [] \<and> is_digit (hd s')"
proof (cases s)
  case Nil
  with assms show ?thesis by (simp add: scan_number_def scan_int_part_def)
next
  case (Cons c s')
  with assms have "\<exists>y. scan_int_part (if c = CHR ''-'' then s' else s) = Some y"
    by (cases "scan_int_part (if c = CHR ''-'' then s' else s)")
      (auto simp: scan_number_def split: if_splits)
  with Cons show ?thesis using that[of c s'] by (auto dest!: scan_int_part_hd split: if_splits)
qed

lemma scan_number_None:
  "s \<noteq> [] \<Longrightarrow> \<not> is_digit (hd s) \<Longrightarrow> hd s \<noteq> CHR ''-'' \<Longrightarrow> scan_number s = None"
  by (cases "scan_number s") (auto elim: scan_number_hd)

lemma parse_value_scalar:
  "s \<noteq> [] \<Longrightarrow> hd s \<notin> {dquote, CHR ''{'', CHR ''[''} \<Longrightarrow> parse_value (Suc f) s = parse_scalar s"
  by (cases s) auto

lemma parse_value_number:
  assumes "scan_number s = Some x"
  shows "parse_value (Suc f) s = Some x"
proof (rule scan_number_hd[OF assms])
  fix c s' assume c: "s = c # s'" "is_digit c \<or> c = CHR ''-'' \<and> s' \<noteq> [] \<and> is_digit (hd s')"
  then have "c \<notin> {dquote, CHR ''{'', CHR ''[''}"
    by (auto simp: is_digit_def digit_val_def)
  with c(1) have "parse_value (Suc f) s = parse_scalar s" by (intro parse_value_scalar) auto
  also have "\<dots> = Some x" using assms by (simp add: parse_scalar_def)
  finally show ?thesis .
qed

lemma parse_literal:
  assumes "literal_of c = Some (c # p, v)" and "c \<noteq> CHR ''-''"
  shows "parse_value (Suc f) (c # p @ r) = Some (v, r)"
proof -
  have "\<not> is_digit c \<and> c \<notin> {dquote, CHR ''{'', CHR ''[''}"
    using assms by (auto simp: literal_of_def is_digit_def digit_val_def split: if_splits)
  then show ?thesis
    using scan_number_None[of "c # p @ r"] assms
    by (auto simp: parse_scalar_def starts_with_def)
qed

lemma parse_value_literal:
  "parse_value (Suc f) (''null'' @ r) = Some (JNull, r)"
  "parse_value (Suc f) (''true'' @ r) = Some (JBool True, r)"
  "parse_value (Suc f) (''false'' @ r) = Some (JBool False, r)"
  using parse_literal[of "CHR ''n''" "''ull''" JNull f r]
    parse_literal[of "CHR ''t''" "''rue''" "JBool True" f r]
    parse_literal[of "CHR ''f''" "''alse''" "JBool False" f r]
  by (simp_all add: literal_of_def del: parse_value.simps)

lemma parse_value_int:
  "follows r \<Longrightarrow> parse_value (Suc f) (show_int i @ r) = Some (JInt i, r)"
  by (rule parse_value_number) (rule scan_number_show)

lemma parse_value_str: "parse_value (Suc f) (quote_str x @ r) = Some (JStr x, r)"
  by (simp add: quote_str_def scan_string_quoted)

declare parse_value.simps(2) [simp del]

lemma skip_ws_id: "s = [] \<or> \<not> is_ws (hd s) \<Longrightarrow> skip_ws s = s"
  by (cases s) (auto simp: skip_ws_def)

lemma dumps_not_Nil: "json_ok v \<Longrightarrow> dumps v \<noteq> []"
  by (cases v) (auto simp: show_int_def quote_str_def)

lemma dumps_hd: "json_ok v \<Longrightarrow> \<not> is_ws (hd (dumps v)) \<and> hd (dumps v) \<notin> {CHR '']'', CHR ''}''}"
proof (cases v)
  case (JInt i)
  have "is_digit c \<Longrightarrow> \<not> is_ws c \<and> c \<notin> {CHR '']'', CHR ''}''}" for c
    by (auto simp: is_digit_def digit_val_def is_ws_def)
  with show_nat_hd_digit[of _ "[]"] JInt show ?thesis by (auto simp: show_int_def is_ws_def)
qed (auto simp: quote_str_def is_ws_def)


lemma dumps_elems_hd:
  "vs \<noteq> [] \<Longrightarrow> (\<And>v. v \<in> set vs \<Longrightarrow> json_ok v) \<Longrightarrow>
     dumps_elems vs \<noteq> [] \<and> \<not> is_ws (hd (dumps_elems vs)) \<and> hd (dumps_elems vs) \<noteq> CHR '']''"
  by (cases vs rule: dumps_elems.cases) (use dumps_hd dumps_not_Nil in auto)

lemma dumps_members_hd:
  "kvs \<noteq> [] \<Longrightarrow> dumps_members kvs \<noteq> [] \<and> hd (dumps_members kvs) = dquote"
  by (cases kvs rule: dumps_members.cases) (auto simp: quote_str_def)

lemma skip_ws_append: "s \<noteq> [] \<Longrightarrow> \<not> is_ws (hd s) \<Longrightarrow> skip_ws (s @ r) = s @ r"
  by (rule skip_ws_id) simp

lemma follows_simps [simp]: "follows []" "follows (CHR '','' # r)" "follows (CHR ''}'' # r)"
  "follows (CHR '']'' # r)"
  by (simp_all add: follows_def)

lemma skip_ws_punct [simp]: "skip_ws (CHR '','' # r) = CHR '','' # r"
  "skip_ws (CHR ''}'' # r) = CHR ''}'' # r" "skip_ws (CHR '']'' # r) = CHR '']'' # r"
  "skip_ws (CHR '':'' # r) = CHR '':'' # r" "skip_ws (dquote # r) = dquote # r"
  by (simp_all add: skip_ws_def is_ws_def)

lemma parse_dumps:
  shows "json_ok v \<Longrightarrow> length (dumps v) \<le> f \<Longrightarrow> follows r \<Longrightarrow>
      parse_value (Suc f) (dumps v @ r) = Some (v, r)"
    and "vs \<noteq> [] \<Longrightarrow> (\<And>v. v \<in> set vs \<Longrightarrow> json_ok v) \<Longrightarrow> length (dumps_elems vs) < f \<Longrightarrow>
      parse_elems (Suc f) (dumps_elems vs @ CHR '']'' # r) es = Some (JList (es @ vs), r)"
    and "kvs \<noteq> [] \<Longrightarrow> (\<And>kv. kv \<in> set kvs \<Longrightarrow> json_ok (snd kv)) \<Longrightarrow> dict_ok (acc @ kvs) \<Longrightarrow>
      length (dumps_members kvs) \<le> f \<Longrightarrow>
      parse_members (Suc f) (dumps_members kvs @ CHR ''}'' # r) acc = Some (JObj (acc @ kvs), r)"
proof (induction v and vs and kvs arbitrary: f r and f r es and f r acc
    rule: dumps_dumps_elems_dumps_members.induct)
  case (6 vs)
  show ?case
  proof (cases "vs = []")
    case False
    with "6.prems" have ok: "\<And>v. v \<in> set vs \<Longrightarrow> json_ok v" by simp
    from "6.prems" obtain f' where f': "f = Suc f'" "length (dumps_elems vs) < f'"
      by (cases f) auto
    with "6.IH"[OF False ok, of f'] dumps_elems_hd[OF False ok] show ?thesis
      by (cases "dumps_elems vs") (auto simp: skip_ws_id parse_value_list)
  qed (simp add: parse_value_list parse_value_obj)
next
  case (7 kvs)
  show ?case
  proof (cases "kvs = []")
    case False
    with "7.prems" have ok: "\<And>kv. kv \<in> set kvs \<Longrightarrow> json_ok (snd kv)" "dict_ok ([] @ kvs)"
      by (simp_all)
    from "7.prems" obtain f' where f': "f = Suc f'" "length (dumps_members kvs) \<le> f'"
      by (cases f) auto
    with "7.IH"[OF False ok, of f'] dumps_members_hd[OF False] show ?thesis
      by (cases "dumps_members kvs") (auto simp: skip_ws_id is_ws_def parse_value_obj)
  qed (simp add: parse_value_list parse_value_obj)
next
  case (9 v)
  from "9.prems" obtain f' where f': "f = Suc f'" "length (dumps v) \<le> f'"
    by (cases f) auto
  with "9.IH"[of f'] "9.prems" show ?case by simp
next
  case (10 v w vs)
  from "10.prems" obtain f' where f': "f = Suc f'" "length (dumps v) \<le> f'"
      "length (dumps_elems (w # vs)) < f'"
    by (cases f) auto
  have hd: "skip_ws (dumps_elems (w # vs) @ CHR '']'' # r) = dumps_elems (w # vs) @ CHR '']'' # r"
    using dumps_elems_hd[of "w # vs"] "10.prems" by (intro skip_ws_append) auto
  show ?case
    using "10.IH"(1)[of f'] "10.IH"(2)[of f'] "10.prems" f' hd by simp
next
  case (12 k v)
  from "12.prems" obtain f' where f': "f = Suc f'" "length (dumps v) \<le> f'"
    by (cases f) (auto simp: quote_str_def)
  have k: "k \<notin> fst ` set acc" using "12.prems" by (auto simp: dict_ok_def)
  have hd: "skip_ws (dumps v @ CHR ''}'' # r) = dumps v @ CHR ''}'' # r"
    using dumps_hd[of v] dumps_not_Nil[of v] "12.prems" by (intro skip_ws_append) auto
  show ?case
    using "12.IH"[of f' "CHR ''}'' # r"] "12.prems" f' hd k
    by (simp add: quote_str_def scan_string_quoted dict_set_new)
next
  case (13 k v kv kvs)
  from "13.prems" obtain f' where f': "f = Suc f'" "length (dumps v) \<le> f'"
      "length (dumps_members (kv # kvs)) \<le> f'"
    by (cases f) (auto simp: quote_str_def)
  have k: "k \<notin> fst ` set acc" using "13.prems" by (auto simp: dict_ok_def)
  have ok: "dict_ok (dict_set k v acc @ kv # kvs)"
    using "13.prems" k by (simp add: dict_set_new dict_ok_def)
  have okv: "json_ok v" using "13.prems"(2)[of "(k, v)"] by simp
  have okr: "\<And>x. x \<in> set (kv # kvs) \<Longrightarrow> json_ok (snd x)" using "13.prems"(2) by simp
  have hd: "skip_ws (dumps v @ s) = dumps v @ s" for s
    using dumps_hd[OF okv] dumps_not_Nil[OF okv] by (intro skip_ws_append) auto
  have hd2: "skip_ws (dumps_members (kv # kvs) @ s) = dumps_members (kv # kvs) @ s" for s
    using dumps_members_hd[of "kv # kvs"] by (intro skip_ws_append) (auto simp: is_ws_def)
  show ?case
    using "13.IH"(1)[OF okv f'(2)] "13.IH"(2)[OF _ okr ok f'(3), of r] f' hd hd2 k
    by (simp add: quote_str_def scan_string_quoted dict_set_new)
qed (use parse_value_literal in \<open>auto simp: parse_value_int parse_value_str\<close>)

lemma loads_dumps: "json_ok v \<Longrightarrow> loads (dumps v) = Some v"
  using parse_dumps(1)[of v "length (dumps v)" "[]"] dumps_hd[of v] dumps_not_Nil[of v]
  by (simp add: loads_def skip_ws_id)

section \<open>Printed text is printable ASCII on one line\<close>

definition printable :: "char \<Rightarrow> bool" where
  "printable c \<longleftrightarrow> 32 \<le> (of_char c :: nat) \<and> (of_char c :: nat) \<le> 126"

lemma printable_hex: "n < 16 \<Longrightarrow> printable (hex_digit n)"
proof -
  have "\<forall>n \<in> set [0..<16]. printable (hex_digit n)" by code_simp
  then show "n < 16 \<Longrightarrow> ?thesis" by simp
qed

lemma printable_esc: "x \<in> set (esc_char c) \<Longrightarrow> printable x"
proof -
  have "of_char c div 16 < (16 :: nat)" by (rule less_mult_imp_div_less) simp
  then show "x \<in> set (esc_char c) \<Longrightarrow> printable x"
    by (auto simp: esc_char_def Let_def printable_hex split: if_splits)
      (auto simp: printable_def)
qed

lemma printable_quote: "x \<in> set (quote_str s) \<Longrightarrow> printable x"
  by (auto simp: quote_str_def printable_esc) (auto simp: printable_def)

lemma is_digit_printable: "is_digit c \<Longrightarrow> printable c"
  by (auto simp: is_digit_def digit_val_def printable_def Let_def split: if_splits)

lemma printable_show_int: "x \<in> set (show_int i) \<Longrightarrow> printable x"
  by (auto simp: show_int_def is_digit_printable show_nat_digits split: if_splits)
    (auto simp: printable_def)

lemma dumps_printable:
  shows "json_ok v \<Longrightarrow> x \<in> set (dumps v) \<Longrightarrow> printable x"
    and "(\<And>v. v \<in> set vs \<Longrightarrow> json_ok v) \<Longrightarrow> x \<in> set (dumps_elems vs) \<Longrightarrow> printable x"
    and "(\<And>kv. kv \<in> set kvs \<Longrightarrow> json_ok (snd kv)) \<Longrightarrow> x \<in> set (dumps_members kvs) \<Longrightarrow> printable x"
proof (induction v and vs and kvs rule: dumps_dumps_elems_dumps_members.induct)
  case (13 k v kv kvs)
  then show ?case by (auto simp: printable_quote) (auto simp: printable_def)
qed (auto simp: printable_quote printable_show_int split: if_splits, auto simp: printable_def)

section \<open>A truncated object does not parse\<close>

text \<open>Text after a complete value does not change how the value is read, and more
  fuel does not change a result; so a proper prefix of a printed object, which
  would read as a shorter value, cannot be read at all.\<close>

definition stops :: "string \<Rightarrow> bool" where
  "stops r \<longleftrightarrow> (case r of [] \<Rightarrow> False
     | c # _ \<Rightarrow> is_ws c \<or> c = CHR '','' \<or> c = CHR ''}'' \<or> c = CHR '']'')"

lemma scan_hex4_ext: "scan_hex4 s = Some (c, r) \<Longrightarrow> scan_hex4 (s @ t) = Some (c, r @ t)"
  by (auto simp: scan_hex4_def split: list.splits)

lemma scan_escape_ext: "scan_escape s = Some (c, r) \<Longrightarrow> scan_escape (s @ t) = Some (c, r @ t)"
  by (auto simp: scan_escape_def dest: scan_hex4_ext split: list.splits if_splits)

lemma scan_string_ext: "scan_string s = Some (x, r) \<Longrightarrow> scan_string (s @ t) = Some (x, r @ t)"
proof (induction s arbitrary: x r rule: scan_string.induct)
  case (2 c s)
  then show ?case
    by (auto simp: scan_escape_ext split: if_splits option.splits prod.splits)
qed simp

lemma skip_ws_ext: "skip_ws s = c # r \<Longrightarrow> skip_ws (s @ t) = c # r @ t"
  by (induction s) (auto simp: skip_ws_def split: if_splits)

lemma split_digits_ext:
  "split_digits s = (ds, r) \<Longrightarrow> r \<noteq> [] \<Longrightarrow> split_digits (s @ t) = (ds, r @ t)"
  by (induction s arbitrary: ds) (auto simp: split_digits_def)

lemma stops_nonempty: "stops r \<Longrightarrow> r \<noteq> []"
  by (auto simp: stops_def)

lemma stops_no_number:
  assumes "stops r"
  shows "scan_frac (r @ t) = ([], r @ t)" "scan_exp (r @ t) = ([], r @ t)"
  using assms
  by (cases r; auto simp: stops_def scan_frac_def scan_exp_def is_ws_def split: list.split)+


lemma scan_int_part_ext:
  "scan_int_part s = Some (ip, r) \<Longrightarrow> r \<noteq> [] \<Longrightarrow> scan_int_part (s @ t) = Some (ip, r @ t)"
  using split_digits_ext[of s ip r t]
  by (auto simp: scan_int_part_def split: list.splits if_splits)

lemma scan_frac_ext:
  assumes "scan_frac s = (fp, r)" and "stops r \<or> (\<exists>ep r'. scan_exp r = (ep, r') \<and> ep \<noteq> [])"
  shows "scan_frac (s @ t) = (fp, r @ t)"
proof (cases "fp = []")
  case True
  with assms have "r = s" by (auto simp: scan_frac_def split: list.splits if_splits prod.splits)
  with assms True show ?thesis
    by (auto simp: scan_frac_def stops_def scan_exp_def is_ws_def split: list.splits if_splits prod.splits)
next
  case False
  with assms obtain d s' ds where s: "s = CHR ''.'' # d # s'" "is_digit d"
      "split_digits (d # s') = (ds, r)" "fp = CHR ''.'' # ds"
    by (auto simp: scan_frac_def split: list.splits if_splits prod.splits)
  have "r \<noteq> []" using assms(2) by (auto simp: stops_def scan_exp_def)
  from split_digits_ext[OF s(3) this] s show ?thesis by (simp add: scan_frac_def)
qed

lemma scan_sign_ext: "scan_sign s = (sg, r) \<Longrightarrow> s \<noteq> [] \<Longrightarrow> scan_sign (s @ t) = (sg, r @ t)"
  by (auto simp: scan_sign_def split: list.splits if_splits)

lemma scan_exp_ext:
  assumes "scan_exp s = (ep, r)" and "stops r"
  shows "scan_exp (s @ t) = (ep, r @ t)"
proof (cases "ep = []")
  case True
  with assms have "r = s" by (auto simp: scan_exp_def Let_def split: list.splits if_splits prod.splits)
  with assms True show ?thesis
    by (auto simp: scan_exp_def stops_def is_ws_def split: list.splits if_splits)
next
  case False
  with assms(1) obtain c s' sg s2 ds where e: "s = c # s'" "c = CHR ''e'' \<or> c = CHR ''E''"
      "scan_sign s' = (sg, s2)" "split_digits s2 = (ds, r)" "ds \<noteq> []" "ep = c # sg @ ds"
    by (auto simp: scan_exp_def split: list.splits if_splits prod.splits)
  have r: "r \<noteq> []" using assms(2) by (rule stops_nonempty)
  have "s' \<noteq> []" using e by (auto simp: scan_sign_def split_digits_def)
  with e scan_sign_ext[OF e(3)] split_digits_ext[OF e(4) r] show ?thesis
    by (auto simp: scan_exp_def)
qed

lemma scan_number_ext:
  assumes "scan_number s = Some (v, r)" and "stops r"
  shows "scan_number (s @ t) = Some (v, r @ t)"
proof -
  obtain neg s1 ip s2 fp s3 ep where p:
      "(neg, s1) = (case s of c # s' \<Rightarrow> if c = CHR ''-'' then (True, s') else (False, s) | [] \<Rightarrow> (False, s))"
      "scan_int_part s1 = Some (ip, s2)" "scan_frac s2 = (fp, s3)" "scan_exp s3 = (ep, r)"
      "v = (if fp = [] \<and> ep = [] then JInt (if neg then - int (read_nat 0 ip) else int (read_nat 0 ip))
            else JFloat ((if neg then ''-'' else []) @ ip @ fp @ ep))"
    using assms(1)
    by (auto simp: scan_number_def split: option.splits prod.splits if_splits list.splits)
  have s1: "s \<noteq> [] \<and> s1 \<noteq> []" using p by (cases s) (auto simp: scan_int_part_def)
  have e: "scan_exp (s3 @ t) = (ep, r @ t)" using scan_exp_ext[OF p(4) assms(2)] .
  have s3: "stops s3 \<or> (\<exists>ep r'. scan_exp s3 = (ep, r') \<and> ep \<noteq> [])"
    using p(4) assms(2)
    by (cases "ep = []") (auto simp: scan_exp_def Let_def split: list.splits if_splits prod.splits)
  have f: "scan_frac (s2 @ t) = (fp, s3 @ t)" using scan_frac_ext[OF p(3) s3] .
  have "s3 \<noteq> []" using s3 by (auto simp: stops_def scan_exp_def)
  then have "s2 \<noteq> []"
    using p(3) by (auto simp: scan_frac_def)
  then have i: "scan_int_part (s1 @ t) = Some (ip, s2 @ t)" using scan_int_part_ext[OF p(2)] by blast
  have "(case s @ t of c # s' \<Rightarrow> if c = CHR ''-'' then (True, s') else (False, s @ t) | [] \<Rightarrow> (False, s @ t))
      = (neg, s1 @ t)"
    using p(1) s1 by (cases s) (auto split: if_splits)
  then show ?thesis by (simp add: scan_number_def i f e p(5))
qed

lemma starts_with_ext: "starts_with p s \<Longrightarrow> starts_with p (s @ t) \<and> drop (length p) (s @ t) = drop (length p) s @ t"
proof -
  assume *: "starts_with p s"
  then have "length p \<le> length s"
    unfolding starts_with_def by (metis length_take min.cobounded1)
  with * show ?thesis by (simp add: starts_with_def)
qed

lemma parse_scalar_ext:
  assumes "parse_scalar s = Some (v, r)" and "stops r"
  shows "parse_scalar (s @ t) = Some (v, r @ t)"
proof (cases "scan_number s")
  case None
  with assms obtain c s' p where c: "s = c # s'" "literal_of c = Some (p, v)" "starts_with p s"
      "r = drop (length p) s"
    by (auto simp: parse_scalar_def split: list.splits option.splits if_splits)
  have "\<not> is_digit c" using c(2)
    by (auto simp: literal_of_def is_digit_def digit_val_def split: if_splits)
  moreover have "c = CHR ''-'' \<Longrightarrow> s' \<noteq> [] \<and> hd s' = CHR ''I''"
    using c by (cases s') (auto simp: literal_of_def starts_with_def split: if_splits)
  moreover have "\<not> is_digit (CHR ''I'')" by code_simp
  ultimately have "scan_number (s @ t) = None"
    using c(1) by (cases "scan_number (s @ t)") (auto elim!: scan_number_hd)
  with c starts_with_ext[OF c(3), of t] show ?thesis by (simp add: parse_scalar_def)
next
  case (Some x)
  with assms have "scan_number s = Some (v, r)" by (simp add: parse_scalar_def)
  from scan_number_ext[OF this assms(2)] show ?thesis by (simp add: parse_scalar_def)
qed

lemma parse_scalar_hd:
  assumes "parse_scalar s = Some x" shows "s \<noteq> []"
  using assms by (auto simp: parse_scalar_def scan_number_def scan_int_part_def)

lemma stops_skip: "skip_ws r = d # s \<Longrightarrow> d \<in> {CHR '','', CHR ''}'', CHR '']''} \<Longrightarrow> stops r"
  by (cases r) (auto simp: skip_ws_def stops_def split: if_splits)

lemma parse_Nil: "parse_value f [] = None" "parse_elems f [] es = None" "parse_members f [] acc = None"
proof -
  show v: "parse_value f [] = None" for f by (cases f) (auto simp: parse_value.simps)
  show "parse_elems f [] es = None" by (cases f) (auto simp: v)
  show "parse_members f [] acc = None" by (cases f) auto
qed

lemma skip_ws_append_ne: "skip_ws s \<noteq> [] \<Longrightarrow> skip_ws (s @ t) = skip_ws s @ t"
  by (induction s) (auto simp: skip_ws_def)

lemma parse_ext:
  shows "parse_value f s = Some (v, r) \<Longrightarrow> stops r \<or> hd s = CHR ''{'' \<Longrightarrow>
      parse_value f (s @ t) = Some (v, r @ t)"
    and "parse_elems f s es = Some (v, r) \<Longrightarrow> parse_elems f (s @ t) es = Some (v, r @ t)"
    and "parse_members f s acc = Some (v, r) \<Longrightarrow> parse_members f (s @ t) acc = Some (v, r @ t)"
proof (induction f s and f s es and f s acc arbitrary: v r and v r and v r
    rule: parse_value_parse_elems_parse_members.induct)
  case (2 f s)
  from "2.prems"(1) obtain c s' where c: "s = c # s'" by (cases s) (auto simp: parse_value.simps)
  show ?case
  proof (cases "c \<in> {CHR ''{'', CHR ''[''}")
    case True
    with "2.prems"(1) c obtain d s2 where d: "skip_ws s' = d # s2"
      by (auto simp: parse_value.simps split: list.splits)
    from True "2.prems"(1) "2.IH" c d skip_ws_ext[OF d, of t] show ?thesis
      by (auto simp: parse_value.simps split: if_splits)
  next
    case False
    with "2.prems" c show ?thesis
      by (auto simp: parse_value.simps scan_string_ext parse_scalar_ext[of "c # s'", simplified]
          split: if_splits)
  qed
next
  case (4 f s acc)
  from "4.prems" obtain v1 s1 d s2 where p: "parse_value f s = Some (v1, s1)" "skip_ws s1 = d # s2"
      "d = CHR '','' \<and> parse_elems f (skip_ws s2) (acc @ [v1]) = Some (v, r)
       \<or> d = CHR '']'' \<and> v = JList (acc @ [v1]) \<and> r = s2"
    by (auto split: option.splits list.splits if_splits)
  have v: "parse_value f (s @ t) = Some (v1, s1 @ t)"
    using "4.IH"(1)[OF p(1)] stops_skip[OF p(2)] p(3) by auto
  show ?case
  proof (cases "d = CHR '',''")
    case True
    with p(3) have e: "parse_elems f (skip_ws s2) (acc @ [v1]) = Some (v, r)" by auto
    then have "skip_ws s2 \<noteq> []" by (auto simp: parse_Nil)
    with True v p "4.IH"(2)[OF p(1) _ p(2) True e] show ?thesis
      by (simp add: skip_ws_ext skip_ws_append_ne)
  next
    case False
    with v p show ?thesis by (simp add: skip_ws_ext)
  qed
next
  case (6 f s acc)
  from "6.prems" obtain s' k s1 s2 v1 s3 e s4 where p: "s = dquote # s'"
      "scan_string s' = Some (k, s1)" "skip_ws s1 = CHR '':'' # s2"
      "parse_value f (skip_ws s2) = Some (v1, s3)" "skip_ws s3 = e # s4"
      "e = CHR '','' \<and> parse_members f (skip_ws s4) (dict_set k v1 acc) = Some (v, r)
       \<or> e = CHR ''}'' \<and> v = JObj (dict_set k v1 acc) \<and> r = s4"
    by (auto split: option.splits list.splits if_splits)
  have s2: "skip_ws (s2 @ t) = skip_ws s2 @ t"
    using p(4) by (intro skip_ws_append_ne) (auto simp: parse_Nil)
  have v: "parse_value f (skip_ws s2 @ t) = Some (v1, s3 @ t)"
    using "6.IH"(1)[OF p(1) _ p(2) _ p(3) _ p(4)] stops_skip[OF p(5)] p(6) by auto
  show ?case
  proof (cases "e = CHR '',''")
    case True
    with p(6) have m: "parse_members f (skip_ws s4) (dict_set k v1 acc) = Some (v, r)" by auto
    then have "skip_ws s4 \<noteq> []" by (auto simp: parse_Nil)
    with True v s2 p m "6.IH"(2)[OF p(1) _ p(2) _ p(3) _ p(4) _ p(5) True m] show ?thesis
      by (simp add: skip_ws_ext skip_ws_append_ne scan_string_ext)
  next
    case False
    with v s2 p show ?thesis by (simp add: skip_ws_ext scan_string_ext)
  qed
qed auto


lemma parse_mono:
  shows "parse_value f s = Some x \<Longrightarrow> f \<le> g \<Longrightarrow> parse_value g s = Some x"
    and "parse_elems f s es = Some x \<Longrightarrow> f \<le> g \<Longrightarrow> parse_elems g s es = Some x"
    and "parse_members f s acc = Some x \<Longrightarrow> f \<le> g \<Longrightarrow> parse_members g s acc = Some x"
proof (induction f s and f s es and f s acc arbitrary: x g and x g and x g
    rule: parse_value_parse_elems_parse_members.induct)
  case (2 f s)
  obtain g' where g: "g = Suc g'" "f \<le> g'" using "2.prems"(2) by (cases g) auto
  from "2.prems"(1) obtain c s' where c: "s = c # s'" by (cases s) (auto simp: parse_value.simps)
  show ?case
  proof (cases "c \<in> {CHR ''{'', CHR ''[''}")
    case True
    with "2.prems"(1) c obtain d s2 where d: "skip_ws s' = d # s2"
      by (auto simp: parse_value.simps split: list.splits)
    from True show ?thesis
    proof (elim insertE)
      assume c2: "c = CHR ''{''"
      have "d \<noteq> CHR ''}'' \<Longrightarrow> parse_members f (d # s2) [] = Some x
          \<Longrightarrow> parse_members g' (d # s2) [] = Some x"
        using "2.IH"(1)[OF c _ c2 d _ _ g(2)] c2 by simp
      with "2.prems"(1) c c2 d g show ?thesis by (auto simp: parse_value_obj split: if_splits)
    next
      assume c2: "c = CHR ''[''"
      have "d \<noteq> CHR '']'' \<Longrightarrow> parse_elems f (d # s2) [] = Some x
          \<Longrightarrow> parse_elems g' (d # s2) [] = Some x"
        using "2.IH"(2)[OF c _ _ c2 d _ _ g(2)] c2 by simp
      with "2.prems"(1) c c2 d g show ?thesis by (auto simp: parse_value_list split: if_splits)
    qed simp
  next
    case False
    with "2.prems"(1) c g show ?thesis by (auto simp: parse_value.simps)
  qed
next
  case (4 f s acc)
  obtain g' where g: "g = Suc g'" "f \<le> g'" using "4.prems"(2) by (cases g) auto
  from "4.prems"(1) obtain v1 s1 d s2 where p: "parse_value f s = Some (v1, s1)" "skip_ws s1 = d # s2"
      "d = CHR '','' \<and> parse_elems f (skip_ws s2) (acc @ [v1]) = Some x
       \<or> d = CHR '']'' \<and> x = (JList (acc @ [v1]), s2)"
    by (auto split: option.splits list.splits if_splits)
  have v: "parse_value g' s = Some (v1, s1)" by (rule "4.IH"(1)[OF p(1) g(2)])
  show ?case
  proof (cases "d = CHR '',''")
    case True
    with p(3) have e: "parse_elems f (skip_ws s2) (acc @ [v1]) = Some x" by auto
    have "parse_elems g' (skip_ws s2) (acc @ [v1]) = Some x"
      by (rule "4.IH"(2)[OF p(1) _ p(2) True e g(2)]) simp
    with True v p(2) g(1) show ?thesis by simp
  next
    case False
    with v p g(1) show ?thesis by simp
  qed
next
  case (6 f s acc)
  obtain g' where g: "g = Suc g'" "f \<le> g'" using "6.prems"(2) by (cases g) auto
  from "6.prems"(1) obtain s' k s1 s2 v1 s3 e s4 where p: "s = dquote # s'"
      "scan_string s' = Some (k, s1)" "skip_ws s1 = CHR '':'' # s2"
      "parse_value f (skip_ws s2) = Some (v1, s3)" "skip_ws s3 = e # s4"
      "e = CHR '','' \<and> parse_members f (skip_ws s4) (dict_set k v1 acc) = Some x
       \<or> e = CHR ''}'' \<and> x = (JObj (dict_set k v1 acc), s4)"
    by (auto split: option.splits list.splits if_splits)
  have v: "parse_value g' (skip_ws s2) = Some (v1, s3)"
    by (rule "6.IH"(1)[OF p(1) _ p(2) _ p(3) _ p(4) g(2)]) simp_all
  show ?case
  proof (cases "e = CHR '',''")
    case True
    with p(6) have m: "parse_members f (skip_ws s4) (dict_set k v1 acc) = Some x" by auto
    have "parse_members g' (skip_ws s4) (dict_set k v1 acc) = Some x"
      by (rule "6.IH"(2)[OF p(1) _ p(2) _ p(3) _ p(4) _ p(5) True m g(2)]) simp_all
    with True v p g(1) show ?thesis by simp
  next
    case False
    with v p g(1) show ?thesis by simp
  qed
qed auto

lemma loads_truncated:
  assumes "json_ok (JObj kvs)" and "dumps (JObj kvs) = s @ t" and "t \<noteq> []"
  shows "loads s = None"
proof (cases s)
  case Nil
  then show ?thesis by (simp add: loads_def skip_ws_def parse_Nil)
next
  case (Cons c s')
  with assms(2) have c: "c = CHR ''{''" by simp
  have ws: "skip_ws s = s" using Cons c by (simp add: skip_ws_id is_ws_def)
  have full: "parse_value (Suc (length (s @ t))) (s @ t) = Some (JObj kvs, [])"
    using parse_dumps(1)[OF assms(1), of "length (s @ t)" "[]"] unfolding assms(2) by simp
  have "parse_value (Suc (length s)) s = None"
  proof (cases "parse_value (Suc (length s)) s")
    case (Some vr)
    obtain v r where vr: "vr = (v, r)" by fastforce
    have "parse_value (Suc (length s)) (s @ t) = Some (v, r @ t)"
      using parse_ext(1)[of "Suc (length s)" s v r t] Some vr Cons c by simp
    from parse_mono(1)[OF this, of "Suc (length (s @ t))"] full assms(3) show ?thesis by simp
  qed
  then show ?thesis by (simp add: loads_def ws)
qed

lemma loads_glued:
  assumes "json_ok (JObj kvs)" and "skip_ws t \<noteq> []"
  shows "loads (dumps (JObj kvs) @ t) = None"
proof -
  let ?s = "dumps (JObj kvs)"
  have p: "parse_value (Suc (length ?s)) ?s = Some (JObj kvs, [])"
    using parse_dumps(1)[OF assms(1), of "length ?s" "[]"] by simp
  have "parse_value (Suc (length (?s @ t))) (?s @ t) = Some (JObj kvs, t)"
    using parse_ext(1)[OF parse_mono(1)[OF p, of "Suc (length (?s @ t))"], of t] by simp
  moreover have "skip_ws (?s @ t) = ?s @ t"
    using dumps_hd[OF assms(1)] dumps_not_Nil[OF assms(1)] by (intro skip_ws_append) auto
  ultimately show ?thesis using assms(2) by (simp add: loads_def del: dumps.simps)
qed

end
