(* ===== verification/Journal.thy ===== *)
theory Journal
  imports Silo_Index Json
begin

text \<open>
  \<^verbatim>\<open>sync/journal.py\<close>: the durable event journal.  The disk holds the journal text
  and the checkpoint text; opening a journal loads the checkpoint and replays the
  journal.  JSON is the text-level model of theory \<open>Json\<close>, so a torn line is a real
  prefix of the printed event.  Files are modelled by their decoded text.

  Python's dataclasses do not check the types of their fields; a JSON value of the
  wrong type would travel on inside the index.  Such an input has the result
  \<open>OutsideModel\<close>, which no theorem below treats as a Python exception.
\<close>

section \<open>Errors\<close>

datatype journal_error =
    CorruptCheckpoint
  | CorruptCheckpointRecord string
  | CorruptEntry nat
  | UnknownKind nat
  | OutsideModel

section \<open>Events as dictionaries\<close>

definition event_to_dict :: "SyncEvent \<Rightarrow> json" where
  "event_to_dict ev =
     (case ev of
        Write e \<Rightarrow> JObj
          [(''path'', JStr (we_path e)), (''rapidhash'', JInt (we_rapidhash e)),
           (''size'', JInt (we_size e)), (''mtime_s'', JInt (we_mtime_s e)),
           (''mtime_ns'', JInt (we_mtime_ns e)), (''recv_ts_ns'', JInt (we_recv_ts_ns e)),
           (''mode'', JInt (we_mode e)), (''uid_name'', JStr (we_uid_name e)),
           (''gid_name'', JStr (we_gid_name e)), (''kind'', JStr ''write'')]
      | Delete p t \<Rightarrow> JObj
          [(''path'', JStr p), (''recv_ts_ns'', JInt t), (''kind'', JStr ''delete'')]
      | Rename old new t \<Rightarrow> JObj
          [(''old_path'', JStr old), (''new_path'', JStr new), (''recv_ts_ns'', JInt t),
           (''kind'', JStr ''rename'')])"

text \<open>Reading a field: a missing key is Python's \<^verbatim>\<open>KeyError\<close> or \<^verbatim>\<open>TypeError\<close>, which the
  callers turn into a \<^verbatim>\<open>JournalError\<close>; the error to use is a parameter.\<close>

definition get_str :: "journal_error \<Rightarrow> (string, json) dict \<Rightarrow> string \<Rightarrow> journal_error + string" where
  "get_str e d k =
     (case dict_get d k of None \<Rightarrow> Inl e | Some (JStr s) \<Rightarrow> Inr s | Some _ \<Rightarrow> Inl OutsideModel)"

definition get_int :: "journal_error \<Rightarrow> (string, json) dict \<Rightarrow> string \<Rightarrow> journal_error + int" where
  "get_int e d k =
     (case dict_get d k of None \<Rightarrow> Inl e | Some (JInt i) \<Rightarrow> Inr i | Some _ \<Rightarrow> Inl OutsideModel)"

definition bindr :: "('e + 'a) \<Rightarrow> ('a \<Rightarrow> 'e + 'b) \<Rightarrow> 'e + 'b" where
  "bindr r f = (case r of Inl e \<Rightarrow> Inl e | Inr a \<Rightarrow> f a)"

lemma bindr_simps [simp]: "bindr (Inl e) f = Inl e" "bindr (Inr a) f = f a"
  by (simp_all add: bindr_def)

text \<open>\<^verbatim>\<open>Cls(**d)\<close> accepts exactly the fields of the class: an unexpected or a missing key
  is a \<^verbatim>\<open>TypeError\<close>.\<close>

definition same_keys :: "(string, json) dict \<Rightarrow> string list \<Rightarrow> bool" where
  "same_keys d ks \<longleftrightarrow> set (map fst d) = set ks"

definition write_fields :: "string list" where
  "write_fields = [''path'', ''rapidhash'', ''size'', ''mtime_s'', ''mtime_ns'', ''recv_ts_ns'',
     ''mode'', ''uid_name'', ''gid_name'']"

definition dict_to_event :: "nat \<Rightarrow> json \<Rightarrow> journal_error + SyncEvent" where
  "dict_to_event lineno v =
     (case v of
        JObj d0 \<Rightarrow>
          (case dict_get d0 ''kind'' of
             None \<Rightarrow> Inl (CorruptEntry lineno)
           | Some kind \<Rightarrow>
               (let d = dict_del ''kind'' d0; e = CorruptEntry lineno in
                if kind = JStr ''write'' then
                  (if \<not> same_keys d write_fields then Inl e
                   else
                     bindr (get_str e d ''path'') (\<lambda>p.
                     bindr (get_int e d ''rapidhash'') (\<lambda>h.
                     bindr (get_int e d ''size'') (\<lambda>sz.
                     bindr (get_int e d ''mtime_s'') (\<lambda>ms.
                     bindr (get_int e d ''mtime_ns'') (\<lambda>mn.
                     bindr (get_int e d ''recv_ts_ns'') (\<lambda>t.
                     bindr (get_int e d ''mode'') (\<lambda>m.
                     bindr (get_str e d ''uid_name'') (\<lambda>u.
                     bindr (get_str e d ''gid_name'') (\<lambda>g.
                     Inr (Write \<lparr>we_path = p, we_rapidhash = h, we_size = sz, we_mtime_s = ms,
                       we_mtime_ns = mn, we_recv_ts_ns = t, we_mode = m, we_uid_name = u,
                       we_gid_name = g\<rparr>)))))))))))
                else if kind = JStr ''delete'' then
                  (if \<not> same_keys d [''path'', ''recv_ts_ns''] then Inl e
                   else
                     bindr (get_str e d ''path'') (\<lambda>p.
                     bindr (get_int e d ''recv_ts_ns'') (\<lambda>t. Inr (Delete p t))))
                else if kind = JStr ''rename'' then
                  (if \<not> same_keys d [''old_path'', ''new_path'', ''recv_ts_ns''] then Inl e
                   else
                     bindr (get_str e d ''old_path'') (\<lambda>p.
                     bindr (get_str e d ''new_path'') (\<lambda>q.
                     bindr (get_int e d ''recv_ts_ns'') (\<lambda>t. Inr (Rename p q t)))))
                else Inl (UnknownKind lineno)))
      | JStr _ \<Rightarrow> Inl OutsideModel
      | JList _ \<Rightarrow> Inl OutsideModel
      | _ \<Rightarrow> Inl (CorruptEntry lineno))"

section \<open>Loading\<close>

definition record_of_json :: "string \<Rightarrow> json \<Rightarrow> journal_error + FileRecord" where
  "record_of_json p v =
     (let e = CorruptCheckpointRecord p in
      case v of
        JObj d \<Rightarrow>
          bindr (get_int e d ''rapidhash'') (\<lambda>h.
          bindr (get_int e d ''size'') (\<lambda>sz.
          bindr (get_int e d ''mtime_s'') (\<lambda>ms.
          bindr (get_int e d ''mtime_ns'') (\<lambda>mn.
          bindr (get_int e d ''recv_ts_ns'') (\<lambda>t.
          bindr (get_int e d ''mode'') (\<lambda>m.
          bindr (get_str e d ''uid_name'') (\<lambda>u.
          bindr (get_str e d ''gid_name'') (\<lambda>g.
          bindr (case dict_get d ''deleted'' of None \<Rightarrow> Inr False | Some (JBool b) \<Rightarrow> Inr b
                 | Some _ \<Rightarrow> Inl OutsideModel) (\<lambda>b.
          Inr \<lparr>fr_rapidhash = h, fr_size = sz, fr_mtime_s = ms, fr_mtime_ns = mn,
               fr_recv_ts_ns = t, fr_mode = m, fr_uid_name = u, fr_gid_name = g,
               fr_deleted = b\<rparr>)))))))))
      | _ \<Rightarrow> Inl e)"

fun load_records :: "(string, json) dict \<Rightarrow> SiloIndex \<Rightarrow> journal_error + SiloIndex" where
  "load_records [] ix = Inr ix"
| "load_records ((p, v) # rest) ix =
     (case record_of_json p v of Inl e \<Rightarrow> Inl e
      | Inr r \<Rightarrow> load_records rest (put_record p r ix))"

definition load_checkpoint :: "string \<Rightarrow> SiloIndex \<Rightarrow> journal_error + SiloIndex" where
  "load_checkpoint text ix =
     (case loads text of
        None \<Rightarrow> Inl CorruptCheckpoint
      | Some (JObj d) \<Rightarrow>
          (case dict_get d ''records'' of
             None \<Rightarrow> Inr ix
           | Some (JObj rs) \<Rightarrow> load_records rs ix
           | Some _ \<Rightarrow> Inl OutsideModel)
      | Some _ \<Rightarrow> Inl OutsideModel)"

fun replay_lines :: "nat \<Rightarrow> string list \<Rightarrow> SiloIndex \<Rightarrow> journal_error + SiloIndex" where
  "replay_lines n [] ix = Inr ix"
| "replay_lines n (raw # rest) ix =
     (let line = strip raw in
      if line = [] then replay_lines (Suc n) rest ix
      else case loads line of
             None \<Rightarrow> Inl (CorruptEntry n)
           | Some d \<Rightarrow>
               (case dict_to_event n d of
                  Inl e \<Rightarrow> Inl e
                | Inr ev \<Rightarrow> replay_lines (Suc n) rest (snd (apply_event ev ix))))"

definition replay_journal :: "string \<Rightarrow> SiloIndex \<Rightarrow> journal_error + SiloIndex" where
  "replay_journal text ix = replay_lines 1 (splitlines text) ix"

section \<open>The journal and its disk\<close>

record disk =
  dk_journal :: "string option"
  dk_checkpoint :: "string option"
  dk_tmp :: "string option"

record EventJournal =
  ej_disk :: disk
  ej_index :: SiloIndex

definition load_index :: "disk \<Rightarrow> SiloIndex \<Rightarrow> journal_error + SiloIndex" where
  "load_index dk ix =
     bindr (case dk_checkpoint dk of None \<Rightarrow> Inr ix | Some text \<Rightarrow> load_checkpoint text ix) (\<lambda>ix1.
     case dk_journal dk of None \<Rightarrow> Inr ix1 | Some text \<Rightarrow> replay_journal text ix1)"

text \<open>The constructor: load, then open the journal in append mode, which creates it.\<close>

definition open_journal :: "disk \<Rightarrow> uuid \<Rightarrow> string \<Rightarrow> journal_error + EventJournal" where
  "open_journal dk sid nid =
     bindr (load_index dk (new_SiloIndex sid nid)) (\<lambda>ix.
     Inr \<lparr>ej_disk = dk\<lparr>dk_journal := Some (case dk_journal dk of None \<Rightarrow> [] | Some t \<Rightarrow> t)\<rparr>,
          ej_index = ix\<rparr>)"

definition event_line :: "SyncEvent \<Rightarrow> string" where
  "event_line ev = dumps (event_to_dict ev)"

abbreviation append_text :: "string \<Rightarrow> disk \<Rightarrow> disk" where
  "append_text s dk \<equiv> dk\<lparr>dk_journal := Some (case dk_journal dk of None \<Rightarrow> s | Some t \<Rightarrow> t @ s)\<rparr>"

definition append_event :: "SyncEvent \<Rightarrow> EventJournal \<Rightarrow> ConflictInfo option \<times> EventJournal" where
  "append_event ev j =
     (let dk = append_text (event_line ev @ [CHR 0x0A]) (ej_disk j);
          (c, ix) = apply_event ev (ej_index j)
      in (c, \<lparr>ej_disk = dk, ej_index = ix\<rparr>))"

definition uuid_hex :: "uuid \<Rightarrow> string" where
  "uuid_hex u = map (\<lambda>i. hex_digit ((unat u div 16 ^ (31 - i)) mod 16)) [0..<32]"

definition uuid_str :: "uuid \<Rightarrow> string" where
  "uuid_str u =
     (let h = uuid_hex u in
      take 8 h @ ''-'' @ take 4 (drop 8 h) @ ''-'' @ take 4 (drop 12 h) @ ''-''
      @ take 4 (drop 16 h) @ ''-'' @ drop 20 h)"

definition snapshot_json :: "FileEntrySnapshot \<Rightarrow> json" where
  "snapshot_json s = JObj
     [(''rapidhash'', JInt (fs_rapidhash s)), (''size'', JInt (fs_size s)),
      (''mode'', JInt (fs_mode s)), (''uid_name'', JStr (fs_uid_name s)),
      (''gid_name'', JStr (fs_gid_name s)), (''mtime_s'', JInt (fs_mtime_s s)),
      (''mtime_ns'', JInt (fs_mtime_ns s)), (''recv_ts_ns'', JInt (fs_recv_ts_ns s)),
      (''deleted'', JBool (fs_deleted s))]"

definition checkpoint_text :: "SiloIndex \<Rightarrow> string" where
  "checkpoint_text ix =
     dumps (JObj [(''silo_id'', JStr (uuid_str (ix_silo_id ix))),
                  (''node_id'', JStr (ix_node_id ix)),
                  (''records'', JObj (map (\<lambda>(p, s). (p, snapshot_json s)) (to_snapshot ix)))])"

text \<open>The disk after each step of \<open>checkpoint\<close>: the temporary file is written and
  fsynced, renamed over the checkpoint, and the journal truncated.\<close>

definition checkpoint_steps :: "EventJournal \<Rightarrow> disk list" where
  "checkpoint_steps j =
     (let dk0 = ej_disk j;
          dk1 = dk0\<lparr>dk_tmp := Some (checkpoint_text (ej_index j))\<rparr>;
          dk2 = dk1\<lparr>dk_checkpoint := dk_tmp dk1, dk_tmp := None\<rparr>;
          dk3 = dk2\<lparr>dk_journal := Some []\<rparr>
      in [dk1, dk2, dk3])"

definition checkpoint :: "EventJournal \<Rightarrow> EventJournal" where
  "checkpoint j = j\<lparr>ej_disk := last (checkpoint_steps j)\<rparr>"

section \<open>Round trips of events and records\<close>

lemmas event_json_simps = dict_to_event_def event_to_dict_def get_str_def get_int_def
  same_keys_def write_fields_def Let_def

lemma dict_to_event_to_dict: "dict_to_event n (event_to_dict ev) = Inr ev"
  by (cases ev) (auto simp: event_json_simps)

lemma event_json_ok: "json_ok (event_to_dict ev)"
  by (cases ev) (auto simp: event_to_dict_def dict_ok_def)

lemma event_line_loads: "loads (event_line ev) = Some (event_to_dict ev)"
  by (simp add: event_line_def loads_dumps event_json_ok)

lemma record_of_snapshot: "record_of_json p (snapshot_json (record_to_snapshot r)) = Inr r"
  by (simp add: record_of_json_def snapshot_json_def record_to_snapshot_def get_int_def
      get_str_def Let_def)

lemma snapshot_json_ok: "json_ok (snapshot_json s)"
  by (simp add: snapshot_json_def dict_ok_def)

section \<open>Lines\<close>

lemma printable_no_break: "printable c \<Longrightarrow> \<not> is_linebreak c"
  by (auto simp: printable_def is_linebreak_def)

lemma is_linebreak_nl [simp]: "is_linebreak (CHR 0x0A)"
  by (simp add: is_linebreak_def)

lemma splitlines_line_nl:
  assumes "\<And>c. c \<in> set l \<Longrightarrow> \<not> is_linebreak c"
  shows "splitlines (l @ CHR 0x0A # s) = l # splitlines s"
  using assms by (induction l) (auto split: list.split)

lemma splitlines_line:
  assumes "\<And>c. c \<in> set l \<Longrightarrow> \<not> is_linebreak c" and "l \<noteq> []"
  shows "splitlines l = [l]"
  using assms
proof (induction l)
  case (Cons c l)
  then show ?case by (cases l) auto
qed simp

lemma event_line_printable: "c \<in> set (event_line ev) \<Longrightarrow> printable c"
  using dumps_printable(1) event_json_ok by (auto simp: event_line_def)

lemma event_line_shape: "\<exists>s. event_line ev = CHR ''{'' # s @ ''}''"
  by (cases ev) (auto simp: event_line_def event_to_dict_def)

lemma strip_event_line: "strip (event_line ev) = event_line ev"
proof -
  obtain s where s: "event_line ev = CHR ''{'' # s @ ''}''" using event_line_shape by blast
  have "\<not> is_py_space (CHR ''{'')" "\<not> is_py_space (CHR ''}'')"
    by (simp_all add: is_py_space_def is_linebreak_def)
  then show ?thesis by (simp add: strip_def s)
qed

lemma event_line_not_Nil [simp]: "event_line ev \<noteq> []"
  using event_line_shape[of ev] by auto

definition journal_text :: "SyncEvent list \<Rightarrow> string" where
  "journal_text es = concat (map (\<lambda>e. event_line e @ [CHR 0x0A]) es)"

lemma splitlines_journal_text:
  "splitlines (journal_text es @ s) = map event_line es @ splitlines s"
  by (induction es)
    (auto simp: journal_text_def splitlines_line_nl event_line_printable printable_no_break)

lemma replay_event_lines:
  "replay_lines n (map event_line es @ ls) ix = replay_lines (n + length es) ls (apply_events es ix)"
  by (induction es arbitrary: n ix)
    (simp_all add: strip_event_line event_line_loads dict_to_event_to_dict Let_def)

lemma replay_journal_text: "replay_journal (journal_text es) ix = Inr (apply_events es ix)"
  using splitlines_journal_text[of es "[]"] replay_event_lines[of 1 es "[]" ix]
  by (simp add: replay_journal_def)

lemma journal_text_snoc: "journal_text (es @ [e]) = journal_text es @ event_line e @ [CHR 0x0A]"
  by (simp add: journal_text_def)

section \<open>Checkpoints load back\<close>

lemma load_records_snapshot:
  assumes "dict_ok (ix_records ix @ rs)"
  shows "load_records (map (\<lambda>(p, s). (p, snapshot_json s))
            (map (\<lambda>(p, r). (p, record_to_snapshot r)) rs)) ix
         = Inr (ix\<lparr>ix_records := ix_records ix @ rs\<rparr>)"
  using assms
proof (induction rs arbitrary: ix)
  case (Cons pr rs)
  obtain p r where pr: "pr = (p, r)" by fastforce
  from Cons.prems have "p \<notin> fst ` set (ix_records ix)"
    by (auto simp: dict_ok_def pr)
  then have set: "dict_set p r (ix_records ix) = ix_records ix @ [(p, r)]"
    by (rule dict_set_new)
  have "dict_ok (ix_records (put_record p r ix) @ rs)"
    using Cons.prems by (simp add: set pr)
  from Cons.IH[OF this] show ?case by (simp add: pr record_of_snapshot set)
qed simp

lemma checkpoint_json_ok:
  "ix_wf ix \<Longrightarrow> json_ok (JObj (map (\<lambda>(p, s). (p, snapshot_json s)) (to_snapshot ix)))"
  by (auto simp: ix_wf_def dict_ok_def to_snapshot_def snapshot_json_ok comp_def case_prod_beta)

lemma load_checkpoint_text:
  assumes "ix_wf ix"
  shows "load_checkpoint (checkpoint_text ix) (new_SiloIndex (ix_silo_id ix) (ix_node_id ix)) = Inr ix"
proof -
  let ?new = "new_SiloIndex (ix_silo_id ix) (ix_node_id ix)"
  have "load_checkpoint (checkpoint_text ix) ?new
      = load_records (map (\<lambda>(p, s). (p, snapshot_json s)) (to_snapshot ix)) ?new"
    using checkpoint_json_ok[OF assms]
    by (simp add: load_checkpoint_def checkpoint_text_def loads_dumps dict_ok_def del: dumps.simps)
  also have "\<dots> = Inr ix"
    using load_records_snapshot[of ?new "ix_records ix"] assms
    by (simp add: to_snapshot_def new_SiloIndex_def ix_wf_def)
  finally show ?thesis .
qed

section \<open>Durability\<close>

datatype journal_op = Append SyncEvent | Checkpoint

fun journal_step :: "journal_op \<Rightarrow> EventJournal \<Rightarrow> EventJournal" where
  "journal_step (Append e) j = snd (append_event e j)"
| "journal_step Checkpoint j = checkpoint j"

definition empty_disk :: disk where
  "empty_disk = \<lparr>dk_journal = None, dk_checkpoint = None, dk_tmp = None\<rparr>"

definition fresh_journal :: "uuid \<Rightarrow> string \<Rightarrow> EventJournal" where
  "fresh_journal sid nid =
     \<lparr>ej_disk = empty_disk\<lparr>dk_journal := Some []\<rparr>, ej_index = new_SiloIndex sid nid\<rparr>"

text \<open>The invariant: the journal file holds whole lines, the checkpoint loads, and the
  index in memory is the checkpoint with the journal applied.\<close>

definition base_index :: "disk \<Rightarrow> SiloIndex \<Rightarrow> journal_error + SiloIndex" where
  "base_index dk ix = (case dk_checkpoint dk of None \<Rightarrow> Inr ix | Some text \<Rightarrow> load_checkpoint text ix)"

definition journal_holds :: "uuid \<Rightarrow> string \<Rightarrow> SyncEvent list \<Rightarrow> EventJournal \<Rightarrow> bool" where
  "journal_holds sid nid es j \<longleftrightarrow>
     dk_journal (ej_disk j) = Some (journal_text es)
     \<and> ix_wf (ej_index j) \<and> ix_silo_id (ej_index j) = sid \<and> ix_node_id (ej_index j) = nid
     \<and> (\<exists>ix. base_index (ej_disk j) (new_SiloIndex sid nid) = Inr ix
             \<and> ej_index j = apply_events es ix)"

definition journal_inv :: "uuid \<Rightarrow> string \<Rightarrow> EventJournal \<Rightarrow> bool" where
  "journal_inv sid nid j \<longleftrightarrow> (\<exists>es. journal_holds sid nid es j)"

lemma append_event_simps [simp]:
  "ej_index (snd (append_event e j)) = ix_step e (ej_index j)"
  "ej_disk (snd (append_event e j)) = append_text (event_line e @ [CHR 0x0A]) (ej_disk j)"
  by (simp_all add: append_event_def Let_def split: prod.split)

lemma journal_holds_append:
  assumes "journal_holds sid nid es j"
  shows "journal_holds sid nid (es @ [e]) (snd (append_event e j))"
  using assms
  by (auto simp: journal_holds_def base_index_def journal_text_snoc ix_wf_step)

lemma journal_holds_checkpoint:
  assumes "journal_holds sid nid es j"
  shows "journal_holds sid nid [] (checkpoint j)"
  using assms load_checkpoint_text[of "ej_index j"]
  by (auto simp: journal_holds_def checkpoint_def checkpoint_steps_def base_index_def Let_def
      journal_text_def)

interpretation journal: invariant_machine journal_step "journal_inv sid nid" for sid nid
proof
  show "journal_inv sid nid (journal_step x s)" if "journal_inv sid nid s" for x s
    using that by (cases x)
      (auto simp: journal_inv_def intro: journal_holds_append journal_holds_checkpoint)
qed

lemma fresh_journal_holds: "journal_holds sid nid [] (fresh_journal sid nid)"
  by (auto simp: journal_holds_def fresh_journal_def empty_disk_def base_index_def
      journal_text_def new_SiloIndex_def ix_wf_def)

lemma fresh_journal_inv: "journal_inv sid nid (fresh_journal sid nid)"
  using fresh_journal_holds by (auto simp: journal_inv_def)

lemma load_index_base: "load_index dk ix =
  bindr (base_index dk ix) (\<lambda>ix1. case dk_journal dk of None \<Rightarrow> Inr ix1 | Some t \<Rightarrow> replay_journal t ix1)"
  by (simp add: load_index_def base_index_def)

lemma load_index_holds:
  assumes "journal_holds sid nid es j"
  shows "load_index (ej_disk j) (new_SiloIndex sid nid) = Inr (ej_index j)"
  using assms by (auto simp: journal_holds_def load_index_base replay_journal_text)

lemma open_journal_holds:
  assumes "journal_inv sid nid j"
  shows "open_journal (ej_disk j) sid nid = Inr j"
proof -
  obtain es where h: "journal_holds sid nid es j" using assms by (auto simp: journal_inv_def)
  then show ?thesis
    by (auto simp: open_journal_def load_index_holds[OF h] journal_holds_def)
qed

text \<open>nothing is lost by a restart: starting from an empty directory, after any
  sequence of appends and checkpoints, opening the files again gives back exactly the
  journal that was closed, with the same index record for record and in the same
  order.\<close>

theorem journal_reopen:
  "open_journal empty_disk sid nid = Inr (fresh_journal sid nid)
   \<and> open_journal (ej_disk (fold journal_step ops (fresh_journal sid nid))) sid nid
     = Inr (fold journal_step ops (fresh_journal sid nid))"
proof
  show "open_journal empty_disk sid nid = Inr (fresh_journal sid nid)"
    by (simp add: open_journal_def load_index_def empty_disk_def fresh_journal_def)
  show "open_journal (ej_disk (fold journal_step ops (fresh_journal sid nid))) sid nid
     = Inr (fold journal_step ops (fresh_journal sid nid))"
    by (rule open_journal_holds) (rule journal.run_inv[OF fresh_journal_inv])
qed

section \<open>Crashes\<close>

lemma load_steps:
  assumes "journal_holds sid nid es j"
  shows "map (\<lambda>dk. load_index dk (new_SiloIndex sid nid)) (checkpoint_steps j)
    = [Inr (ej_index j), Inr (apply_events es (ej_index j)), Inr (ej_index j)]"
  using assms load_checkpoint_text[of "ej_index j"] replay_journal_text[of "[]"]
  by (auto simp: journal_holds_def checkpoint_steps_def Let_def load_index_base base_index_def
      replay_journal_text journal_text_def[of "[]"])

lemma load_window:
  assumes "journal_holds sid nid es j"
  shows "load_index (checkpoint_steps j ! 1) (new_SiloIndex sid nid) = Inr (apply_events es (ej_index j))"
  using arg_cong[OF load_steps[OF assms], of "\<lambda>xs. xs ! 1"]
  by (simp add: checkpoint_steps_def Let_def)

text \<open>a crash inside \<open>checkpoint\<close> before the rename, or after the truncation, loses
  nothing: the directory loads to the index in memory.  Between the rename and the
  truncation the directory loads to that index with the journal's events applied a
  second time.\<close>

theorem checkpoint_crash_points:
  assumes "journal_holds sid nid es j"
  shows "map (\<lambda>dk. load_index dk (new_SiloIndex sid nid)) (checkpoint_steps j)
    = [Inr (ej_index j), Inr (apply_events es (ej_index j)), Inr (ej_index j)]"
  using assms by (rule load_steps)

definition sample_journal :: EventJournal where
  "sample_journal =
     fold journal_step
       [Append (Write (sample_write ''a'' 11 10)), Checkpoint, Append (Rename ''a'' ''b'' 30),
        Append (Write (sample_write ''a'' 22 20))]
       (fresh_journal 1 ''server'')"

lemma sample_journal_holds:
  "journal_holds 1 ''server'' [Rename ''a'' ''b'' 30, Write (sample_write ''a'' 22 20)] sample_journal"
proof -
  from journal_holds_checkpoint[OF journal_holds_append[OF fresh_journal_holds[of 1 "''server''"], of "Write (sample_write ''a'' 11 10)"]]
  have "journal_holds 1 ''server'' []
      (fold journal_step [Append (Write (sample_write ''a'' 11 10)), Checkpoint] (fresh_journal 1 ''server''))"
    by simp
  from journal_holds_append[OF journal_holds_append[OF this, of "Rename ''a'' ''b'' 30"],
      of "Write (sample_write ''a'' 22 20)"]
  show ?thesis by (simp add: sample_journal_def)
qed

theorem checkpoint_crash_points_witness:
  "map (\<lambda>dk. load_index dk (new_SiloIndex 1 ''server'')) (checkpoint_steps sample_journal)
    = [Inr (ej_index sample_journal),
       Inr (apply_events [Rename ''a'' ''b'' 30, Write (sample_write ''a'' 22 20)]
         (ej_index sample_journal)),
       Inr (ej_index sample_journal)]"
  by (rule checkpoint_crash_points[OF sample_journal_holds])

text \<open>in the window between the rename and the truncation of a checkpoint, a journal
  without renames still loads to the same files: replaying its writes and deletions over
  their own result changes no live record.\<close>

theorem checkpoint_window_safe:
  assumes "journal_holds sid nid es j" and "\<And>e. e \<in> set es \<Longrightarrow> \<not> is_rename e"
  shows "\<exists>ix. load_index (checkpoint_steps j ! 1) (new_SiloIndex sid nid) = Inr ix
    \<and> live ix = live (ej_index j)"
proof -
  obtain ix0 where ix0: "ej_index j = apply_events es ix0"
    using assms(1) by (auto simp: journal_holds_def)
  have "load_index (checkpoint_steps j ! 1) (new_SiloIndex sid nid)
      = Inr (apply_events es (ej_index j))"
    using assms(1) by (rule load_window)
  moreover have "live (apply_events es (ej_index j)) = live (ej_index j)"
    unfolding ix0 using assms(2) by (rule live_replay_twice)
  ultimately show ?thesis by blast
qed

definition plain_journal :: EventJournal where
  "plain_journal =
     fold journal_step
       [Append (Write (sample_write ''a'' 11 10)), Append (Delete ''a'' 20),
        Append (Write (sample_write ''a'' 22 15))]
       (fresh_journal 1 ''server'')"

lemma plain_journal_holds:
  "journal_holds 1 ''server'' [Write (sample_write ''a'' 11 10), Delete ''a'' 20,
     Write (sample_write ''a'' 22 15)] plain_journal"
proof -
  from journal_holds_append[OF journal_holds_append[OF journal_holds_append[OF fresh_journal_holds[of 1 "''server''"],
      of "Write (sample_write ''a'' 11 10)"], of "Delete ''a'' 20"],
      of "Write (sample_write ''a'' 22 15)"]
  show ?thesis by (simp add: plain_journal_def)
qed

theorem checkpoint_window_safe_witness:
  "\<exists>ix. load_index (checkpoint_steps plain_journal ! 1) (new_SiloIndex 1 ''server'') = Inr ix
    \<and> live ix = live (ej_index plain_journal)"
  by (rule checkpoint_window_safe[OF plain_journal_holds]) (auto simp: is_rename_def)

text \<open>with a rename in the journal the same window loses a file.  After \<open>a\<close> was
  renamed to \<open>b\<close> and a new \<open>a\<close> written, a crash between the rename of the checkpoint and
  the truncation makes the next start rename the new \<open>a\<close> over \<open>b\<close>: the index in memory
  holds both files, the loaded one has lost the content of \<open>b\<close>.\<close>

theorem checkpoint_window_loses_rename:
  "\<exists>ix. load_index (checkpoint_steps sample_journal ! 1) (new_SiloIndex 1 ''server'') = Inr ix
    \<and> map_option fr_rapidhash (live (ej_index sample_journal) ''b'') = Some 11
    \<and> map_option fr_rapidhash (live ix ''b'') = Some 22"
proof -
  let ?es = "[Rename ''a'' ''b'' 30, Write (sample_write ''a'' 22 20)]"
  let ?all = "Write (sample_write ''a'' 11 10) # ?es"
  have "live (new_SiloIndex 1 ''server'') = (\<lambda>_. None)"
    by (simp add: live_def new_SiloIndex_def fun_eq_iff)
  then have spec: "live (apply_events es (new_SiloIndex 1 ''server'')) = fold live_event es (\<lambda>_. None)" for es
    by (simp only: live_apply_events)
  have ix: "ej_index sample_journal = apply_events ?all (new_SiloIndex 1 ''server'')"
    by (simp add: sample_journal_def checkpoint_def fresh_journal_def)
  then have ix2: "apply_events ?es (ej_index sample_journal)
      = apply_events (?all @ ?es) (new_SiloIndex 1 ''server'')"
    by simp
  note live_defs = live_write_def live_move_def sample_write_def write_record_def Let_def
  have "map_option fr_rapidhash (live (ej_index sample_journal) ''b'') = Some 11"
    unfolding ix spec by (simp add: live_defs)
  moreover have "map_option fr_rapidhash (live (apply_events ?es (ej_index sample_journal)) ''b'') = Some 22"
    unfolding ix2 spec by (simp add: live_defs)
  ultimately show ?thesis using load_window[OF sample_journal_holds] by blast
qed

section \<open>Torn appends\<close>

lemma strip_prefix:
  assumes "\<not> is_py_space c"
  shows "\<exists>n. strip (c # s) = c # take n s"
proof -
  have "\<exists>n. rev (dropWhile is_py_space (rev (c # s))) = c # take n s"
  proof (induction s rule: rev_induct)
    case Nil
    with assms show ?case by simp
  next
    case (snoc x s)
    then obtain n where n: "rev (dropWhile is_py_space (rev (c # s))) = c # take n s" by blast
    show ?case
    proof (cases "is_py_space x")
      case True
      with n have "rev (dropWhile is_py_space (rev (c # s @ [x]))) = c # take (min n (length s)) (s @ [x])"
        by (simp add: min_def)
      then show ?thesis by blast
    next
      case False
      then have "rev (dropWhile is_py_space (rev (c # s @ [x]))) = c # take (Suc (length s)) (s @ [x])"
        by simp
      then show ?thesis by blast
    qed
  qed
  with assms show ?thesis by (simp add: strip_def)
qed

lemma event_obj: obtains kvs where "event_to_dict ev = JObj kvs"
  by (cases ev) (auto simp: event_to_dict_def)

lemma torn_line_unreadable:
  assumes "0 < k" and "k < length (event_line ev)"
  shows "strip (take k (event_line ev)) \<noteq> [] \<and> loads (strip (take k (event_line ev))) = None"
proof -
  obtain s where s: "event_line ev = CHR ''{'' # s @ ''}''" using event_line_shape by blast
  obtain m where m: "k = Suc m" using assms(1) by (cases k) auto
  have "\<not> is_py_space (CHR ''{'')" by (simp add: is_py_space_def is_linebreak_def)
  from strip_prefix[OF this, of "take m (s @ ''}'')"] obtain n where
    n: "strip (take k (event_line ev)) = CHR ''{'' # take n (take m (s @ ''}''))"
    by (auto simp: s m)
  then have pre: "strip (take k (event_line ev)) = take (Suc (min n m)) (event_line ev)"
    by (simp only: s take_Suc_Cons take_take)
  obtain kvs where kvs: "event_to_dict ev = JObj kvs" by (rule event_obj)
  have "loads (take (Suc (min n m)) (event_line ev)) = None"
  proof (rule loads_truncated)
    show "json_ok (JObj kvs)" using event_json_ok[of ev] by (simp add: kvs del: json_ok.simps)
    show "dumps (JObj kvs) = take (Suc (min n m)) (event_line ev) @ drop (Suc (min n m)) (event_line ev)"
      by (simp add: event_line_def kvs del: dumps.simps)
    show "drop (Suc (min n m)) (event_line ev) \<noteq> []" using assms(2) m by simp
  qed
  then show ?thesis by (simp add: pre)
qed

lemma splitlines_torn:
  assumes "0 < k" and "l \<noteq> []" and "\<And>c. c \<in> set l \<Longrightarrow> \<not> is_linebreak c"
  shows "splitlines (take k l) = [take k l]"
  using assms by (intro splitlines_line) (auto dest: in_set_takeD)

text \<open>a crash in the middle of writing a line makes the journal unopenable: whatever
  proper, non-empty part of the line reached the disk, the next start raises
  \<open>JournalError\<close> for that line and the events before it are not served either.\<close>

theorem torn_append_fails_open:
  assumes "journal_holds sid nid es j" and "0 < k" and "k < length (event_line ev)"
  shows "open_journal (append_text (take k (event_line ev)) (ej_disk j)) sid nid
    = Inl (CorruptEntry (Suc (length es)))"
proof -
  have "splitlines (journal_text es @ take k (event_line ev))
      = map event_line es @ [take k (event_line ev)]"
    using assms(2) by (simp add: splitlines_journal_text splitlines_torn event_line_printable
        printable_no_break)
  moreover have "replay_lines n [take k (event_line ev)] ix = Inl (CorruptEntry n)" for n ix
    using torn_line_unreadable[OF assms(2,3)] by (simp add: Let_def)
  ultimately have "replay_journal (journal_text es @ take k (event_line ev)) ix
      = Inl (CorruptEntry (Suc (length es)))" for ix
    by (simp add: replay_journal_def replay_event_lines del: replay_lines.simps)
  then show ?thesis
    using assms(1) by (auto simp: open_journal_def load_index_base journal_holds_def base_index_def)
qed

theorem torn_append_fails_open_witness:
  "open_journal (append_text (take 5 (event_line (Delete ''b'' 40))) (ej_disk sample_journal)) 1 ''server''
    = Inl (CorruptEntry 3)"
  using torn_append_fails_open[OF sample_journal_holds, of 5 "Delete ''b'' 40"]
  by (simp add: event_line_def event_to_dict_def quote_str_def esc_char_def)

lemma loads_glued_lines: "loads (event_line e1 @ event_line e2) = None"
proof -
  obtain kvs where kvs: "event_to_dict e1 = JObj kvs" by (rule event_obj)
  obtain s where s: "event_line e2 = CHR ''{'' # s @ ''}''" using event_line_shape by blast
  have "skip_ws (event_line e2) \<noteq> []" by (simp add: s skip_ws_def is_ws_def)
  moreover have "json_ok (JObj kvs)" using event_json_ok[of e1] by (simp only: kvs)
  ultimately have "loads (dumps (JObj kvs) @ event_line e2) = None" by (intro loads_glued)
  then show ?thesis by (simp only: event_line_def kvs)
qed

lemma strip_glued_lines: "strip (event_line e1 @ event_line e2) = event_line e1 @ event_line e2"
proof -
  obtain s1 s2 where s: "event_line e1 = CHR ''{'' # s1 @ ''}''" "event_line e2 = CHR ''{'' # s2 @ ''}''"
    using event_line_shape by blast
  have "\<not> is_py_space (CHR ''{'')" "\<not> is_py_space (CHR ''}'')"
    by (simp_all add: is_py_space_def is_linebreak_def)
  then show ?thesis by (simp add: strip_def s)
qed

text \<open>a crash that loses only the line break is worse than it looks: the next start
  succeeds and serves the torn event, but the line is never ended, so the first append
  after it shares its line and the start after that fails; both events are lost.\<close>

theorem lost_newline_poisons:
  assumes "journal_holds sid nid es j"
  shows "\<exists>j1. open_journal (append_text (event_line e1) (ej_disk j)) sid nid = Inr j1
    \<and> ej_index j1 = ix_step e1 (ej_index j)
    \<and> open_journal (ej_disk (snd (append_event e2 j1))) sid nid = Inl (CorruptEntry (Suc (length es)))"
proof -
  obtain ix where ix: "base_index (ej_disk j) (new_SiloIndex sid nid) = Inr ix"
      "ej_index j = apply_events es ix" "dk_journal (ej_disk j) = Some (journal_text es)"
    using assms by (auto simp: journal_holds_def)
  have one: "splitlines (journal_text es @ event_line e1) = map event_line (es @ [e1])"
    by (simp add: splitlines_journal_text splitlines_line event_line_printable printable_no_break)
  have r1: "replay_journal (journal_text es @ event_line e1) ix = Inr (ix_step e1 (ej_index j))"
    using replay_event_lines[of 1 "es @ [e1]" "[]" ix] by (simp add: replay_journal_def one ix(2))
  have nobreak: "\<not> is_linebreak c" if "c \<in> set (event_line e1 @ event_line e2)" for c
    using that event_line_printable printable_no_break by auto
  have two: "splitlines (journal_text es @ (event_line e1 @ event_line e2) @ [CHR 0x0A])
      = map event_line es @ [event_line e1 @ event_line e2]"
    using splitlines_line_nl[of "event_line e1 @ event_line e2" "[]", OF nobreak]
    by (simp add: splitlines_journal_text)
  have r2: "replay_journal (journal_text es @ event_line e1 @ event_line e2 @ [CHR 0x0A]) ix
      = Inl (CorruptEntry (Suc (length es)))"
    using two by (simp add: replay_journal_def replay_event_lines strip_glued_lines
        loads_glued_lines Let_def)
  let ?dk = "append_text (event_line e1) (ej_disk j)"
  have "open_journal ?dk sid nid = Inr \<lparr>ej_disk = ?dk, ej_index = ix_step e1 (ej_index j)\<rparr>"
    using ix r1 by (simp add: open_journal_def load_index_base base_index_def)
  moreover have "open_journal (append_text (event_line e2 @ [CHR 0x0A]) ?dk) sid nid
      = Inl (CorruptEntry (Suc (length es)))"
    using ix r2 by (simp add: open_journal_def load_index_base base_index_def)
  ultimately show ?thesis by auto
qed

theorem lost_newline_poisons_witness:
  "\<exists>j1. open_journal (append_text (event_line (Delete ''b'' 40)) (ej_disk sample_journal)) 1 ''server'' = Inr j1
    \<and> ej_index j1 = ix_step (Delete ''b'' 40) (ej_index sample_journal)
    \<and> open_journal (ej_disk (snd (append_event (Delete ''a'' 41) j1))) 1 ''server'' = Inl (CorruptEntry 3)"
  using lost_newline_poisons[OF sample_journal_holds, of "Delete ''b'' 40" "Delete ''a'' 41"]
  by (simp add: eval_nat_numeral)

end
