(* ===== verification/Audit_Log.thy ===== *)
theory Audit_Log
  imports Journal
begin

text \<open>
  \<^verbatim>\<open>security/audit.py\<close>: the audit log, one JSON object per line, in a file that the standard library's
  \<^verbatim>\<open>RotatingFileHandler\<close> rolls over with the module's compressing hook; and \<^verbatim>\<open>audit_tail\<close> of \<^verbatim>\<open>cli.py\<close>,
  which prints it.  The clock, its ISO form up to the second and \<^verbatim>\<open>str\<close> of a JSON value are arguments.
  The text is ASCII, so its length in characters is its length in bytes.
\<close>

section \<open>One event\<close>

record log_call =
  lc_event :: string
  lc_severity :: string
  lc_client_cn :: string
  lc_silo_id :: "uuid option"
  lc_path :: string
  lc_detail :: "(string \<times> json) list"

text \<open>\<^verbatim>\<open>f".{n:09d}"[:7]\<close>: the point and the first six of nine digits.\<close>

definition micros :: "int \<Rightarrow> string" where
  "micros ts_ns =
     (let digits = show_nat (nat (ts_ns mod 1000000000))
      in take 7 (CHR ''.'' # replicate (9 - length digits) (CHR ''0'') @ digits))"

text \<open>Empty optional fields are left out.\<close>

definition audit_record :: "int \<Rightarrow> string \<Rightarrow> log_call \<Rightarrow> json" where
  "audit_record ts_ns iso_s c =
     JObj ([(''ts_ns'', JInt ts_ns), (''ts_iso'', JStr (iso_s @ micros ts_ns @ ''Z'')),
            (''severity'', JStr (lc_severity c)), (''event'', JStr (lc_event c))]
       @ (if lc_client_cn c \<noteq> [] then [(''client_cn'', JStr (lc_client_cn c))] else [])
       @ (case lc_silo_id c of None \<Rightarrow> [] | Some u \<Rightarrow> [(''silo_id'', JStr (uuid_str u))])
       @ (if lc_path c \<noteq> [] then [(''path'', JStr (lc_path c))] else [])
       @ (if lc_detail c \<noteq> [] then [(''detail'', JObj (lc_detail c))] else []))"

definition audit_line :: "int \<Rightarrow> string \<Rightarrow> log_call \<Rightarrow> string" where
  "audit_line ts_ns iso_s c = dumps (audit_record ts_ns iso_s c)"

section \<open>The event types\<close>

abbreviation call :: "string \<Rightarrow> string \<Rightarrow> string \<Rightarrow> uuid option \<Rightarrow> string \<Rightarrow> (string \<times> json) list \<Rightarrow> log_call" where
  "call ev sev cn sid p detail \<equiv>
     \<lparr>lc_event = ev, lc_severity = sev, lc_client_cn = cn, lc_silo_id = sid, lc_path = p, lc_detail = detail\<rparr>"

definition log_auth_ok :: "string \<Rightarrow> uuid \<Rightarrow> log_call" where
  "log_auth_ok cn sid = call ''auth.ok'' ''INFO'' cn (Some sid) [] []"

definition log_auth_fail :: "string \<Rightarrow> string \<Rightarrow> log_call" where
  "log_auth_fail cn reason = call ''auth.fail'' ''WARN'' cn None [] [(''reason'', JStr reason)]"

definition log_auth_replay :: "string \<Rightarrow> log_call" where
  "log_auth_replay cn = call ''auth.replay'' ''ERROR'' cn None [] []"

definition log_file_write :: "string \<Rightarrow> uuid \<Rightarrow> string \<Rightarrow> int option \<Rightarrow> int \<Rightarrow> int \<Rightarrow> bool \<Rightarrow> int \<Rightarrow> log_call" where
  "log_file_write cn sid p before after recv_ts delta size_bytes =
     call ''file.write'' ''INFO'' cn (Some sid) p
       [(''rapidhash_before'', case before of None \<Rightarrow> JNull | Some h \<Rightarrow> JInt h), (''rapidhash_after'', JInt after),
        (''recv_ts_ns'', JInt recv_ts), (''delta'', JBool delta), (''size_bytes'', JInt size_bytes)]"

definition log_file_delete :: "string \<Rightarrow> uuid \<Rightarrow> string \<Rightarrow> log_call" where
  "log_file_delete cn sid p = call ''file.delete'' ''INFO'' cn (Some sid) p []"

definition log_file_rename :: "string \<Rightarrow> uuid \<Rightarrow> string \<Rightarrow> string \<Rightarrow> log_call" where
  "log_file_rename cn sid old new = call ''file.rename'' ''INFO'' cn (Some sid) old [(''new_path'', JStr new)]"

definition log_conflict_lww :: "string \<Rightarrow> uuid \<Rightarrow> string \<Rightarrow> int \<Rightarrow> int \<Rightarrow> log_call" where
  "log_conflict_lww cn sid p kept overwritten =
     call ''conflict.lww'' ''WARN'' cn (Some sid) p
       [(''kept_rapidhash'', JInt kept), (''overwritten_rapidhash'', JInt overwritten)]"

definition log_quarantine :: "string \<Rightarrow> uuid \<Rightarrow> string \<Rightarrow> string \<Rightarrow> log_call" where
  "log_quarantine cn sid p virus = call ''quarantine'' ''CRITICAL'' cn (Some sid) p [(''virus'', JStr virus)]"

definition log_path_traversal :: "string \<Rightarrow> uuid \<Rightarrow> string \<Rightarrow> log_call" where
  "log_path_traversal cn sid p = call ''security.path_traversal'' ''CRITICAL'' cn (Some sid) p []"

definition log_uid_denied :: "string \<Rightarrow> uuid \<Rightarrow> string \<Rightarrow> log_call" where
  "log_uid_denied cn sid name = call ''security.uid_denied'' ''CRITICAL'' cn (Some sid) [] [(''name'', JStr name)]"

fun show_octal :: "nat \<Rightarrow> string" where
  "show_octal n = (if n < 8 then [hex_digit n] else show_octal (n div 8) @ [hex_digit (n mod 8)])"

declare show_octal.simps [simp del]

definition oct :: "int \<Rightarrow> string" where
  "oct m = (if m < 0 then ''-0o'' @ show_octal (nat (- m)) else ''0o'' @ show_octal (nat m))"

definition log_mode_stripped :: "string \<Rightarrow> uuid \<Rightarrow> string \<Rightarrow> int \<Rightarrow> int \<Rightarrow> log_call" where
  "log_mode_stripped cn sid p raw safe =
     call ''security.mode_stripped'' ''WARN'' cn (Some sid) p
       [(''raw_mode'', JStr (oct raw)), (''safe_mode'', JStr (oct safe))]"

definition log_session_start :: "string \<Rightarrow> uuid \<Rightarrow> log_call" where
  "log_session_start cn sid = call ''session.start'' ''INFO'' cn (Some sid) [] []"

definition log_session_end :: "string \<Rightarrow> uuid \<Rightarrow> log_call" where
  "log_session_end cn sid = call ''session.end'' ''INFO'' cn (Some sid) [] []"

definition log_blacklist_sync :: "string \<Rightarrow> uuid \<Rightarrow> log_call" where
  "log_blacklist_sync cn sid = call ''blacklist.sync'' ''INFO'' cn (Some sid) [] []"

section \<open>The file and its rotation\<close>

datatype log_file = Plain string | Gzip string

record AuditLogger =
  au_base :: string
  au_max_bytes :: int
  au_backup_count :: nat
  au_files :: "(string, log_file) dict"

text \<open>\<open>files\<close> is what the directory holds.  The handler opens the file at once, for appending: one that exists is
  continued, one that does not is created empty.\<close>

definition AuditLogger_new :: "string \<Rightarrow> int \<Rightarrow> nat \<Rightarrow> (string, log_file) dict \<Rightarrow> AuditLogger" where
  "AuditLogger_new base max_bytes backup_count files =
     \<lparr>au_base = base, au_max_bytes = max_bytes, au_backup_count = backup_count,
      au_files = (case dict_get files base of None \<Rightarrow> dict_set base (Plain []) files | Some _ \<Rightarrow> files)\<rparr>"

definition file_text :: "string \<Rightarrow> (string, log_file) dict \<Rightarrow> string" where
  "file_text name files = (case dict_get files name of Some (Plain t) \<Rightarrow> t | Some (Gzip t) \<Rightarrow> t | None \<Rightarrow> [])"

text \<open>\<open>gzip_rotator\<close>, the hook: compresses into a file with another suffix than the handler knows.\<close>

definition gzip_rotator :: "string \<Rightarrow> string \<Rightarrow> (string, log_file) dict \<Rightarrow> (string, log_file) dict" where
  "gzip_rotator source dest files =
     dict_del source (dict_set (dest @ ''.gz'') (Gzip (file_text source files)) files)"

definition gz_namer :: "string \<Rightarrow> string" where
  "gz_namer name = name"

abbreviation numbered :: "string \<Rightarrow> nat \<Rightarrow> string" where
  "numbered base i \<equiv> gz_namer (base @ ''.'' @ show_nat i)"

text \<open>\<^verbatim>\<open>RotatingFileHandler.doRollover\<close> and \<^verbatim>\<open>emit\<close>.\<close>

definition shift_file :: "string \<Rightarrow> nat \<Rightarrow> (string, log_file) dict \<Rightarrow> (string, log_file) dict" where
  "shift_file base i files =
     (case dict_get files (numbered base i) of
        None \<Rightarrow> files
      | Some f \<Rightarrow> dict_del (numbered base i) (dict_set (numbered base (Suc i)) f files))"

definition do_rollover :: "AuditLogger \<Rightarrow> AuditLogger" where
  "do_rollover lg =
     (let base = au_base lg;
          files1 = (if au_backup_count lg > 0
                    then gzip_rotator base (numbered base 1)
                           (dict_del (numbered base 1)
                             (fold (shift_file base) (rev [1..<au_backup_count lg]) (au_files lg)))
                    else au_files lg)
      in lg\<lparr>au_files := dict_set base (Plain (file_text base files1)) files1\<rparr>)"

definition should_rollover :: "string \<Rightarrow> AuditLogger \<Rightarrow> bool" where
  "should_rollover line lg \<longleftrightarrow>
     au_max_bytes lg > 0
     \<and> int (length (file_text (au_base lg) (au_files lg)) + length line + 1) \<ge> au_max_bytes lg"

definition audit_log :: "int \<times> string \<times> log_call \<Rightarrow> AuditLogger \<Rightarrow> AuditLogger" where
  "audit_log x lg =
     (case x of (ts_ns, iso_s, c) \<Rightarrow>
        let line = audit_line ts_ns iso_s c;
            lg1 = (if should_rollover line lg then do_rollover lg else lg)
        in lg1\<lparr>au_files := dict_set (au_base lg1)
                 (Plain (file_text (au_base lg1) (au_files lg1) @ line @ [CHR 0x0A])) (au_files lg1)\<rparr>)"

text \<open>The server is started again and again on the same directory, each time with a size, a number of backups and
  the events it logs.\<close>

type_synonym logged = "int \<times> string \<times> log_call"

fun audit_runs :: "string \<Rightarrow> (int \<times> nat \<times> logged list) list \<Rightarrow> (string, log_file) dict \<Rightarrow> (string, log_file) dict" where
  "audit_runs base [] files = files"
| "audit_runs base ((max_bytes, n, xs) # runs) files =
     audit_runs base runs (au_files (fold audit_log xs (AuditLogger_new base max_bytes n files)))"

section \<open>Printing the log\<close>

text \<open>\<^verbatim>\<open>raw_lines[-lines:]\<close> if there are more than \<open>lines\<close> lines.\<close>

definition recent_lines :: "int \<Rightarrow> string list \<Rightarrow> string list" where
  "recent_lines n raw =
     (if int (length raw) > n
      then (if n > 0 then drop (length raw - nat n) raw else drop (nat (- n)) raw)
      else raw)"

definition ljust :: "nat \<Rightarrow> string \<Rightarrow> string" where
  "ljust n s = s @ replicate (n - length s) (CHR '' '')"

text \<open>What \<^verbatim>\<open>_print_audit_line\<close> raises: \<^verbatim>\<open>JSONDecodeError\<close>, which its caller catches, and the
  \<^verbatim>\<open>AttributeError\<close> or \<^verbatim>\<open>TypeError\<close> of a value of the wrong type, which it does not.\<close>

datatype print_error = NotJson | WrongType

definition get_text :: "(string \<times> json) list \<Rightarrow> string \<Rightarrow> string \<Rightarrow> print_error + string" where
  "get_text kvs k dflt = (case dict_get kvs k of None \<Rightarrow> Inr dflt | Some (JStr s) \<Rightarrow> Inr s | Some _ \<Rightarrow> Inl WrongType)"

text \<open>Values that count as false.  A float is its text; one too small to be represented is not considered.\<close>

definition zero_float :: "string \<Rightarrow> bool" where
  "zero_float s =
     (let mantissa = takeWhile (\<lambda>c. c \<noteq> CHR ''e'' \<and> c \<noteq> CHR ''E'') s
      in CHR ''0'' \<in> set mantissa \<and> list_all (\<lambda>c. c \<in> set ''-.0'') mantissa)"

fun falsy :: "json \<Rightarrow> bool" where
  "falsy JNull = True"
| "falsy (JBool b) = (\<not> b)"
| "falsy (JInt i) = (i = 0)"
| "falsy (JStr s) = (s = [])"
| "falsy (JList l) = (l = [])"
| "falsy (JObj d) = (d = [])"
| "falsy (JFloat s) = zero_float s"

definition optional_part :: "(string \<times> json) list \<Rightarrow> string \<Rightarrow> print_error + string list" where
  "optional_part kvs k =
     (case dict_get kvs k of
        None \<Rightarrow> Inr []
      | Some v \<Rightarrow> if falsy v then Inr [] else (case v of JStr s \<Rightarrow> Inr [s] | _ \<Rightarrow> Inl WrongType))"

definition detail_part :: "(json \<Rightarrow> string) \<Rightarrow> (string \<times> json) list \<Rightarrow> print_error + string list" where
  "detail_part py_str kvs =
     (case dict_get kvs ''detail'' of
        None \<Rightarrow> Inr []
      | Some v \<Rightarrow>
          if falsy v then Inr []
          else (case v of
                  JObj d \<Rightarrow> Inr [''['' @ join_on ''  '' (map (\<lambda>(k, v). k @ ''='' @ py_str v) d) @ '']'']
                | _ \<Rightarrow> Inl WrongType))"

definition print_audit_line :: "(json \<Rightarrow> string) \<Rightarrow> string \<Rightarrow> print_error + string" where
  "print_audit_line py_str raw =
     (case loads raw of
        None \<Rightarrow> Inl NotJson
      | Some (JObj kvs) \<Rightarrow>
          bindr (get_text kvs ''ts_iso'' []) (\<lambda>ts.
          bindr (get_text kvs ''severity'' ''INFO'') (\<lambda>sev.
          bindr (get_text kvs ''event'' []) (\<lambda>ev.
          bindr (optional_part kvs ''client_cn'') (\<lambda>cn.
          bindr (optional_part kvs ''path'') (\<lambda>p.
          bindr (detail_part py_str kvs) (\<lambda>extra.
            Inr (join_on ''  ''
              ([map (\<lambda>c. if c = CHR ''T'' then CHR '' '' else c) (take 19 ts), ljust 8 sev, ljust 30 ev]
               @ cn @ p @ extra))))))))
      | Some _ \<Rightarrow> Inl WrongType)"

text \<open>The lines printed so far and whether an exception ended the loop.\<close>

fun tail_lines :: "(json \<Rightarrow> string) \<Rightarrow> string list \<Rightarrow> string list \<times> print_error option" where
  "tail_lines py_str [] = ([], None)"
| "tail_lines py_str (raw # raws) =
     (let line = strip raw in
      if line = [] then tail_lines py_str raws
      else case print_audit_line py_str line of
             Inl WrongType \<Rightarrow> ([], Some WrongType)
           | Inl NotJson \<Rightarrow> (case tail_lines py_str raws of (out, e) \<Rightarrow> (line # out, e))
           | Inr s \<Rightarrow> (case tail_lines py_str raws of (out, e) \<Rightarrow> (s # out, e)))"

definition audit_tail :: "(json \<Rightarrow> string) \<Rightarrow> int \<Rightarrow> string \<Rightarrow> string list \<times> print_error option" where
  "audit_tail py_str n text = tail_lines py_str (recent_lines n (splitlines text))"

section \<open>The log can be read back\<close>

text \<open>Details made of objects with distinct keys and no floats, as all the event types have.\<close>

definition call_ok :: "log_call \<Rightarrow> bool" where
  "call_ok c \<longleftrightarrow> json_ok (JObj (lc_detail c))"

lemma event_types_ok:
  "call_ok (log_auth_ok cn sid)" "call_ok (log_auth_fail cn r)" "call_ok (log_auth_replay cn)"
  "call_ok (log_file_write cn sid p hb ha t d n)" "call_ok (log_file_delete cn sid p)" "call_ok (log_file_rename cn sid p q)"
  "call_ok (log_conflict_lww cn sid p h h')" "call_ok (log_quarantine cn sid p v)" "call_ok (log_path_traversal cn sid p)"
  "call_ok (log_uid_denied cn sid u)" "call_ok (log_mode_stripped cn sid p m m')" "call_ok (log_session_start cn sid)"
  "call_ok (log_session_end cn sid)" "call_ok (log_blacklist_sync cn sid)"
  by (auto simp: call_ok_def dict_ok_def log_auth_ok_def log_auth_fail_def log_auth_replay_def log_file_write_def
      log_file_delete_def log_file_rename_def log_conflict_lww_def log_quarantine_def log_path_traversal_def
      log_uid_denied_def log_mode_stripped_def log_session_start_def log_session_end_def log_blacklist_sync_def
      split: option.split)

lemma audit_record_ok: "call_ok c \<Longrightarrow> json_ok (audit_record ts iso_s c)"
  by (auto simp: call_ok_def audit_record_def dict_ok_def split: option.split)

lemma audit_line_loads: "call_ok c \<Longrightarrow> loads (audit_line ts iso_s c) = Some (audit_record ts iso_s c)"
  by (simp add: audit_line_def loads_dumps audit_record_ok)

lemma audit_line_no_break: "call_ok c \<Longrightarrow> x \<in> set (audit_line ts iso_s c) \<Longrightarrow> \<not> is_linebreak x"
  unfolding audit_line_def using dumps_printable(1) audit_record_ok printable_no_break by blast

definition log_text :: "logged list \<Rightarrow> string" where
  "log_text xs = concat (map (\<lambda>(ts, iso_s, c). audit_line ts iso_s c @ [CHR 0x0A]) xs)"

lemma splitlines_log_text:
  "\<forall>x \<in> set xs. call_ok (snd (snd x)) \<Longrightarrow> splitlines (log_text xs) = map (\<lambda>(ts, iso_s, c). audit_line ts iso_s c) xs"
proof (induction xs)
  case (Cons x xs)
  obtain ts iso_s c where x: "x = (ts, iso_s, c)" by (metis prod_cases3)
  have "splitlines (audit_line ts iso_s c @ CHR 0x0A # log_text xs) = audit_line ts iso_s c # splitlines (log_text xs)"
    by (rule splitlines_line_nl) (use Cons.prems x audit_line_no_break in auto)
  with Cons x show ?case by (simp add: log_text_def)
qed (simp add: log_text_def)

section \<open>What rotation keeps\<close>

abbreviation archive_name :: "string \<Rightarrow> string" where
  "archive_name base \<equiv> base @ ''.1.gz''"

lemma numbered_names:
  "numbered base i \<noteq> base" "numbered base i \<noteq> archive_name base" "numbered base 1 @ ''.gz'' = archive_name base"
proof -
  have "is_digit (last (show_nat i))" by (rule show_nat_digits[of _ i]) simp
  then have "show_nat i \<noteq> ''1.gz''" by (auto simp: is_digit_def digit_val_def)
  then show "numbered base i \<noteq> archive_name base" by (simp add: gz_namer_def)
qed (simp_all add: gz_namer_def show_nat.simps hex_digit_def)

text \<open>After logging \<open>xs\<close>: the file holds the events from the \<open>k\<close>th on, the archive, if there was a
  rotation, the events from the \<open>j\<close>th to the \<open>k\<close>th, and there is no other file.\<close>

definition holds_events :: "string \<Rightarrow> logged list \<Rightarrow> nat \<Rightarrow> nat \<Rightarrow> (string, log_file) dict \<Rightarrow> bool" where
  "holds_events base xs j k files \<longleftrightarrow>
     j \<le> k \<and> k \<le> length xs
     \<and> dict_get files base = Some (Plain (log_text (drop k xs)))
     \<and> (dict_get files (archive_name base) = None \<and> k = 0
        \<or> dict_get files (archive_name base) = Some (Gzip (log_text (drop j (take k xs)))))
     \<and> (\<forall>name. name \<noteq> base \<longrightarrow> name \<noteq> archive_name base \<longrightarrow> dict_get files name = None)"

lemma shift_file_idle:
  "dict_get files (numbered base i) = None \<Longrightarrow> shift_file base i files = files"
  by (simp add: shift_file_def)

lemma shifts_idle:
  "\<forall>i. dict_get files (numbered base i) = None \<Longrightarrow> fold (shift_file base) is files = files"
  by (induction "is") (simp_all add: shift_file_idle)

lemma holds_events_names:
  assumes "holds_events base xs j k files"
  shows "name = base \<or> name = archive_name base \<or> dict_get files name = None"
  using assms unfolding holds_events_def by (elim conjE allE[of _ name]) argo

lemma holds_events_texts:
  assumes "holds_events base xs j k files"
  shows "j \<le> k" "file_text base files = log_text (drop k xs)"
    "k = 0 \<or> file_text (archive_name base) files = log_text (drop j (take k xs))"
proof -
  have "dict_get files (archive_name base) = Some (Gzip t) \<Longrightarrow> file_text (archive_name base) files = t" for t
    by (simp add: file_text_def)
  then show "k = 0 \<or> file_text (archive_name base) files = log_text (drop j (take k xs))"
    using assms unfolding holds_events_def by blast
qed (use assms in \<open>simp_all add: holds_events_def file_text_def\<close>)

lemma numbered_absent: "holds_events base xs j k files \<Longrightarrow> dict_get files (numbered base i) = None"
  using holds_events_names numbered_names(1,2) by metis

lemma do_rollover_config [simp]:
  "au_base (do_rollover lg) = au_base lg" "au_max_bytes (do_rollover lg) = au_max_bytes lg"
  "au_backup_count (do_rollover lg) = au_backup_count lg"
  by (simp_all add: do_rollover_def Let_def)

lemma audit_log_config [simp]:
  "au_base (audit_log x lg) = au_base lg" "au_max_bytes (audit_log x lg) = au_max_bytes lg"
  "au_backup_count (audit_log x lg) = au_backup_count lg"
  by (cases x; simp add: audit_log_def Let_def)+

lemma fold_audit_log_config [simp]:
  "au_base (fold audit_log xs lg) = au_base lg" "au_max_bytes (fold audit_log xs lg) = au_max_bytes lg"
  "au_backup_count (fold audit_log xs lg) = au_backup_count lg"
  by (induction xs arbitrary: lg) simp_all

lemma AuditLogger_new_config [simp]:
  "au_base (AuditLogger_new base m n files) = base" "au_max_bytes (AuditLogger_new base m n files) = m"
  "au_backup_count (AuditLogger_new base m n files) = n"
  by (simp_all add: AuditLogger_new_def)

lemma do_rollover_files:
  assumes "holds_events (au_base lg) xs j k (au_files lg)" "au_backup_count lg > 0"
  shows "dict_get (au_files (do_rollover lg)) name =
    (if name = au_base lg then Some (Plain [])
     else if name = archive_name (au_base lg) then Some (Gzip (log_text (drop k xs))) else None)"
proof -
  have idle: "fold (shift_file (au_base lg)) is (au_files lg) = au_files lg" for "is"
    using shifts_idle numbered_absent[OF assms(1)] by blast
  have "dict_get (au_files lg) (au_base lg) = Some (Plain (log_text (drop k xs)))"
    and "name \<noteq> au_base lg \<Longrightarrow> name \<noteq> archive_name (au_base lg) \<Longrightarrow> dict_get (au_files lg) name = None"
    using assms(1) by (simp_all add: holds_events_def)
  then show ?thesis
    using assms(2) numbered_names(1)[of "au_base lg" 1] numbered_names(2)[of "au_base lg" 1] numbered_names(3)[of "au_base lg"]
    by (simp add: do_rollover_def Let_def gzip_rotator_def idle file_text_def)
qed

lemma do_rollover_holds:
  assumes "holds_events (au_base lg) xs j k (au_files lg)"
  shows "if au_backup_count lg > 0 then holds_events (au_base lg) xs k (length xs) (au_files (do_rollover lg))
    else holds_events (au_base lg) xs j k (au_files (do_rollover lg))"
proof (cases "au_backup_count lg > 0")
  case True
  then show ?thesis using assms by (simp add: holds_events_def do_rollover_files[OF assms True] log_text_def)
next
  case False
  then show ?thesis using assms by (auto simp: holds_events_def do_rollover_def Let_def file_text_def)
qed

lemma write_line_holds:
  assumes "holds_events base xs j k files"
  shows "holds_events base (xs @ [(ts, iso_s, c)]) j k
    (dict_set base (Plain (file_text base files @ audit_line ts iso_s c @ [CHR 0x0A])) files)"
  using assms by (auto simp: holds_events_def file_text_def log_text_def)

text \<open>A handler with this configuration never rotates a file of at most \<open>len\<close> bytes.\<close>

definition no_rotation :: "nat \<Rightarrow> int \<Rightarrow> nat \<Rightarrow> bool" where
  "no_rotation len max_bytes n \<longleftrightarrow> max_bytes \<le> 0 \<or> n = 0 \<or> int len < max_bytes"

lemma log_text_append: "log_text (xs @ ys) = log_text xs @ log_text ys"
  by (simp add: log_text_def)

lemma length_log_text_drop: "length (log_text (drop k xs)) \<le> length (log_text xs)"
  using log_text_append[of "take k xs" "drop k xs"] by simp

lemma length_log_text_step:
  "length (log_text (drop k xs)) + length (audit_line ts iso_s c) + 1 \<le> length (log_text (xs @ [(ts, iso_s, c)]))"
  using length_log_text_drop[of k xs] by (simp add: log_text_def)

text \<open>One event: it goes to the end of the file, after a rotation of a file that would become too large.\<close>

lemma audit_log_holds:
  assumes h: "holds_events (au_base lg) xs j k (au_files lg)"
  shows "\<exists>j' k'. holds_events (au_base lg) (xs @ [x]) j' k' (au_files (audit_log x lg)) \<and> k' \<le> length xs
    \<and> (no_rotation (length (log_text (xs @ [x]))) (au_max_bytes lg) (au_backup_count lg) \<longrightarrow> k' = k)
    \<and> (0 < au_max_bytes lg \<and> 0 < au_backup_count lg
        \<longrightarrow> int (length (log_text (drop k' (xs @ [x])))) < au_max_bytes lg \<or> k' = length xs)"
proof -
  obtain ts iso_s c where x: "x = (ts, iso_s, c)" by (metis prod_cases3)
  have k: "k \<le> length xs" and f: "file_text (au_base lg) (au_files lg) = log_text (drop k xs)"
    using h by (simp_all add: holds_events_def file_text_def)
  let ?roll = "should_rollover (audit_line ts iso_s c) lg"
  let ?lg1 = "if ?roll then do_rollover lg else lg"
  let ?j = "if ?roll \<and> 0 < au_backup_count lg then k else j"
  let ?k = "if ?roll \<and> 0 < au_backup_count lg then length xs else k"
  have "holds_events (au_base lg) xs ?j ?k (au_files ?lg1)"
    using h do_rollover_holds[OF h] by (auto split: if_splits)
  from write_line_holds[OF this, of ts iso_s c]
  have "holds_events (au_base lg) (xs @ [x]) ?j ?k (au_files (audit_log x lg))"
    by (auto simp: x audit_log_def Let_def)
  moreover have "no_rotation (length (log_text (xs @ [x]))) (au_max_bytes lg) (au_backup_count lg) \<longrightarrow> ?k = k"
    using length_log_text_step[of k xs ts iso_s c] by (auto simp: no_rotation_def should_rollover_def f x)
  moreover have "int (length (log_text (drop ?k (xs @ [x])))) < au_max_bytes lg \<or> ?k = length xs"
    if "0 < au_max_bytes lg \<and> 0 < au_backup_count lg"
    using that k by (auto simp: should_rollover_def f x log_text_def)
  moreover have "?k \<le> length xs" using k by simp
  ultimately show ?thesis by blast
qed

lemma no_rotation_mono: "no_rotation b m n \<Longrightarrow> a \<le> b \<Longrightarrow> no_rotation a m n"
  by (auto simp: no_rotation_def)

lemma audit_fold_holds:
  assumes "holds_events (au_base lg) xs j k (au_files lg)"
  shows "\<exists>j' k'. holds_events (au_base lg) (xs @ ys) j' k' (au_files (fold audit_log ys lg))
    \<and> (no_rotation (length (log_text (xs @ ys))) (au_max_bytes lg) (au_backup_count lg) \<longrightarrow> k' = k)"
proof (induction ys rule: rev_induct)
  case Nil
  show ?case using assms by auto
next
  case (snoc y ys)
  then obtain j1 k1 where h: "holds_events (au_base (fold audit_log ys lg)) (xs @ ys) j1 k1 (au_files (fold audit_log ys lg))"
    and k1: "no_rotation (length (log_text (xs @ ys))) (au_max_bytes lg) (au_backup_count lg) \<longrightarrow> k1 = k" by auto
  have "no_rotation (length (log_text (xs @ ys @ [y]))) (au_max_bytes lg) (au_backup_count lg)
      \<Longrightarrow> no_rotation (length (log_text (xs @ ys))) (au_max_bytes lg) (au_backup_count lg)"
    by (erule no_rotation_mono) (simp add: log_text_append)
  with audit_log_holds[OF h, of y] k1 show ?case by auto
qed

lemma AuditLogger_new_holds:
  "holds_events base xs j k files \<Longrightarrow> holds_events base xs j k (au_files (AuditLogger_new base m n files))"
  by (simp add: holds_events_def AuditLogger_new_def)

lemma AuditLogger_new_empty: "holds_events base [] 0 0 (au_files (AuditLogger_new base m n []))"
  by (simp add: holds_events_def AuditLogger_new_def log_text_def)

abbreviation all_logged :: "(int \<times> nat \<times> logged list) list \<Rightarrow> logged list" where
  "all_logged runs \<equiv> concat (map (\<lambda>run. snd (snd run)) runs)"

lemma audit_runs_holds:
  "holds_events base xs j k files
   \<Longrightarrow> \<exists>j' k'. holds_events base (xs @ all_logged runs) j' k' (audit_runs base runs files)
     \<and> (list_all (\<lambda>(m, n, _). no_rotation (length (log_text (xs @ all_logged runs))) m n) runs \<longrightarrow> k' = k)"
proof (induction runs arbitrary: xs j k files)
  case (Cons run runs)
  obtain m n ys where r: "run = (m, n, ys)" by (metis prod_cases3)
  let ?lg = "AuditLogger_new base m n files"
  obtain j1 k1 where h: "holds_events base (xs @ ys) j1 k1 (au_files (fold audit_log ys ?lg))"
    and k1: "no_rotation (length (log_text (xs @ ys))) m n \<longrightarrow> k1 = k"
    using audit_fold_holds[of ?lg xs j k ys] AuditLogger_new_holds[OF Cons.prems] by auto
  have "no_rotation (length (log_text (xs @ ys @ all_logged runs))) m n \<Longrightarrow> no_rotation (length (log_text (xs @ ys))) m n"
    by (erule no_rotation_mono) (simp add: log_text_append)
  with Cons.IH[OF h] k1 show ?case by (auto simp: r)
qed auto

lemma audit_runs_opened:
  "\<exists>j k. holds_events base (all_logged runs) j k (au_files (AuditLogger_new base m n (audit_runs base runs [])))
     \<and> (list_all (\<lambda>(m, n, _). no_rotation (length (log_text (all_logged runs))) m n) runs \<longrightarrow> k = 0)"
proof (cases runs)
  case Nil
  then show ?thesis using AuditLogger_new_empty by auto
next
  case (Cons run rest)
  obtain m1 n1 ys where r: "run = (m1, n1, ys)" by (metis prod_cases3)
  have "holds_events base [] 0 0 (au_files (AuditLogger_new base m1 n1 []))" by (rule AuditLogger_new_empty)
  from audit_runs_holds[OF this, of runs] obtain j k where
    "holds_events base (all_logged runs) j k (audit_runs base runs (au_files (AuditLogger_new base m1 n1 [])))"
    "list_all (\<lambda>(m, n, _). no_rotation (length (log_text (all_logged runs))) m n) runs \<longrightarrow> k = 0" by auto
  moreover have "audit_runs base runs (au_files (AuditLogger_new base m1 n1 [])) = audit_runs base runs []"
    by (simp add: Cons r AuditLogger_new_def)
  ultimately show ?thesis using AuditLogger_new_holds by metis
qed

text \<open>The last event of the last run.\<close>

lemma audit_runs_last:
  assumes "xs = all_logged runs @ ys @ [x]"
    and "lg = fold audit_log (ys @ [x]) (AuditLogger_new base max_bytes n (audit_runs base runs []))"
  shows "\<exists>j k. holds_events base xs j k (au_files lg) \<and> k < length xs
    \<and> (list_all (\<lambda>(m, n, _). no_rotation (length (log_text xs)) m n) ((max_bytes, n, ys) # runs) \<longrightarrow> k = 0)
    \<and> (0 < max_bytes \<and> 0 < n \<longrightarrow> int (length (log_text (drop k xs))) < max_bytes \<or> Suc k = length xs)"
proof -
  let ?new = "AuditLogger_new base max_bytes n (audit_runs base runs [])"
  let ?lg = "fold audit_log ys ?new"
  let ?xs = "all_logged runs @ ys"
  obtain j0 k0 where h0: "holds_events (au_base ?new) (all_logged runs) j0 k0 (au_files ?new)"
    and k0: "list_all (\<lambda>(m, n, _). no_rotation (length (log_text (all_logged runs))) m n) runs \<longrightarrow> k0 = 0"
    using audit_runs_opened[of base runs max_bytes n] by auto
  obtain j1 k1 where h1: "holds_events (au_base ?lg) ?xs j1 k1 (au_files ?lg)"
    and k1: "no_rotation (length (log_text ?xs)) max_bytes n \<longrightarrow> k1 = k0"
    using audit_fold_holds[OF h0, of ys] by auto
  obtain j k where h: "holds_events base xs j k (au_files lg)" and k: "k < length xs"
    and k2: "no_rotation (length (log_text xs)) max_bytes n \<longrightarrow> k = k1"
    and size: "0 < max_bytes \<and> 0 < n \<longrightarrow> int (length (log_text (drop k xs))) < max_bytes \<or> Suc k = length xs"
  proof -
    have e: "?xs @ [x] = xs" "audit_log x ?lg = lg" "length xs = Suc (length ?xs)" by (simp_all add: assms)
    from audit_log_holds[OF h1, of x] obtain j k where
      "holds_events base xs j k (au_files lg)" "k \<le> length ?xs"
      "no_rotation (length (log_text xs)) max_bytes n \<longrightarrow> k = k1"
      "0 < max_bytes \<and> 0 < n \<longrightarrow> int (length (log_text (drop k xs))) < max_bytes \<or> k = length ?xs"
      unfolding e(1,2) by auto
    then show thesis using that[of j k] e(3) by simp
  qed
  have "list_all (\<lambda>(m, n, _). no_rotation (length (log_text xs)) m n) runs
      \<Longrightarrow> list_all (\<lambda>(m, n, _). no_rotation (length (log_text (all_logged runs))) m n) runs"
    by (auto simp: list_all_iff assms(1) log_text_append elim!: no_rotation_mono)
  moreover have "no_rotation (length (log_text xs)) max_bytes n \<Longrightarrow> no_rotation (length (log_text ?xs)) max_bytes n"
    by (erule no_rotation_mono) (simp add: assms(1) log_text_append)
  ultimately have "list_all (\<lambda>(m, n, _). no_rotation (length (log_text xs)) m n) ((max_bytes, n, ys) # runs) \<longrightarrow> k = 0"
    using k0 k1 k2 by auto
  with h k size show ?thesis by blast
qed

section \<open>The properties\<close>

text \<open>The records a text holds, line by line.\<close>

definition records_of :: "string \<Rightarrow> json option list" where
  "records_of text = map loads (splitlines text)"

definition records :: "logged list \<Rightarrow> json option list" where
  "records xs = map (\<lambda>(ts, iso_s, c). Some (audit_record ts iso_s c)) xs"

lemma records_of_log_text: "\<forall>x \<in> set xs. call_ok (snd (snd x)) \<Longrightarrow> records_of (log_text xs) = records xs"
  by (auto simp: records_of_def records_def splitlines_log_text audit_line_loads)



text \<open>rotation keeps a single archive, whatever the number of backups asked for.  The hook compresses into
  \<open>base.1.gz\<close> while the handler shifts the files \<open>base.i\<close>, which never exist; so every rotation overwrites
  the only archive, and the events before it are gone.\<close>

theorem rotation_keeps_one_archive:
  assumes "dict_get (au_files (fold audit_log xs (AuditLogger_new base max_bytes n (audit_runs base runs [])))) name \<noteq> None"
  shows "name = base \<or> name = archive_name base"
proof -
  let ?new = "AuditLogger_new base max_bytes n (audit_runs base runs [])"
  obtain j0 k0 where "holds_events (au_base ?new) (all_logged runs) j0 k0 (au_files ?new)"
    using audit_runs_opened[of base runs max_bytes n] by auto
  then obtain j k where "holds_events base (all_logged runs @ xs) j k (au_files (fold audit_log xs ?new))"
    using audit_fold_holds[of ?new "all_logged runs" j0 k0 xs] by auto
  from holds_events_names[OF this, of name] assms show ?thesis by auto
qed

theorem rotation_keeps_one_archive_witness:
  "''a'' = ''a'' \<or> ''a'' = archive_name ''a''"
proof -
  have "dict_get (au_files (fold audit_log [] (AuditLogger_new ''a'' 0 10 (audit_runs ''a'' [] [])))) ''a'' \<noteq> None"
    by (simp add: AuditLogger_new_def)
  from rotation_keeps_one_archive[OF this] show ?thesis .
qed

text \<open>\<^verbatim>\<open>raw_lines[-0:]\<close> is the whole list: asking for no line prints them all.\<close>

lemma audit_tail_zero: "audit_tail py_str 0 text = tail_lines py_str (splitlines text)"
  by (simp add: audit_tail_def recent_lines_def)

end
