(* ===== verification/Handles.thy ===== *)
theory Handles
  imports Journal Audit_Log
begin

text \<open>
  Objects that own an open file: the journal (\<^verbatim>\<open>sync/journal.py\<close>) and the audit logger (\<^verbatim>\<open>security/audit.py\<close>), with
  \<^verbatim>\<open>close\<close>, \<^verbatim>\<open>flush\<close> and the context manager.  An append to a closed journal raises, a log call on a closed logger is
  dropped, and a checkpoint opens the journal again.
\<close>

section \<open>The interface\<close>

datatype 'op handle_op = Use 'op | Close

text \<open>The uses that have an effect: those that do not need the file, and those between the opening and the next closing.\<close>

fun effective :: "('op \<Rightarrow> bool) \<Rightarrow> bool \<Rightarrow> 'op handle_op list \<Rightarrow> 'op list" where
  "effective needs is_open [] = []"
| "effective needs is_open (Close # xs) = effective needs False xs"
| "effective needs is_open (Use x # xs) =
     (if is_open \<or> \<not> needs x then x # effective needs True xs else effective needs False xs)"

locale file_handle =
  fixes act :: "'op \<Rightarrow> 'h \<Rightarrow> 'h"
    and close :: "'h \<Rightarrow> 'h"
    and opened :: "'h \<Rightarrow> bool"
    and content :: "'h \<Rightarrow> 'c"
    and needs :: "'op \<Rightarrow> bool"
    and effect :: "'op \<Rightarrow> 'c \<Rightarrow> 'c"
  assumes act_open: "opened h \<or> \<not> needs x \<Longrightarrow> content (act x h) = effect x (content h) \<and> opened (act x h)"
    and act_closed: "\<not> opened h \<Longrightarrow> needs x \<Longrightarrow> act x h = h"
    and close_keeps: "content (close h) = content h \<and> \<not> opened (close h)"
begin

definition handle_step :: "'op handle_op \<Rightarrow> 'h \<Rightarrow> 'h" where
  "handle_step x h = (case x of Use y \<Rightarrow> act y h | Close \<Rightarrow> close h)"

lemma run_content: "content (fold handle_step xs h) = fold effect (effective needs (opened h) xs) (content h)"
proof (induction xs arbitrary: h)
  case (Cons x xs)
  show ?case
  proof (cases x)
    case (Use y)
    then show ?thesis using Cons[of "act y h"] act_open[of h y] act_closed[of h y]
      by (cases "opened h \<or> \<not> needs y") (auto simp: handle_step_def)
  next
    case Close
    then show ?thesis using Cons[of "close h"] close_keeps[of h] by (simp add: handle_step_def)
  qed
qed simp

end

section \<open>The journal\<close>

record journal_handle =
  jh_journal :: EventJournal
  jh_open :: bool

datatype handle_error = ClosedFile

definition journal_handle_new :: "disk \<Rightarrow> uuid \<Rightarrow> string \<Rightarrow> journal_error + journal_handle" where
  "journal_handle_new dk sid nid = map_sum id (\<lambda>j. \<lparr>jh_journal = j, jh_open = True\<rparr>) (open_journal dk sid nid)"

text \<open>Writing to a closed file raises \<^verbatim>\<open>ValueError\<close> before anything is written or applied.\<close>

definition journal_append :: "SyncEvent \<Rightarrow> journal_handle \<Rightarrow> (handle_error + ConflictInfo option) \<times> journal_handle" where
  "journal_append ev h =
     (if jh_open h
      then (case append_event ev (jh_journal h) of (c, j) \<Rightarrow> (Inr c, h\<lparr>jh_journal := j\<rparr>))
      else (Inl ClosedFile, h))"

text \<open>\<open>checkpoint\<close> closes the handle, which may be closed already, and opens a new one.\<close>

definition journal_checkpoint :: "journal_handle \<Rightarrow> journal_handle" where
  "journal_checkpoint h = \<lparr>jh_journal = checkpoint (jh_journal h), jh_open = True\<rparr>"

definition journal_close :: "journal_handle \<Rightarrow> journal_handle" where
  "journal_close h = h\<lparr>jh_open := False\<rparr>"

definition journal_exit :: "journal_handle \<Rightarrow> journal_handle" where
  "journal_exit h = journal_close h"

fun journal_act :: "journal_op \<Rightarrow> journal_handle \<Rightarrow> journal_handle" where
  "journal_act (Append e) h = snd (journal_append e h)"
| "journal_act Checkpoint h = journal_checkpoint h"

fun needs_file :: "journal_op \<Rightarrow> bool" where
  "needs_file (Append e) = True"
| "needs_file Checkpoint = False"

interpretation journal_file: file_handle journal_act journal_exit jh_open jh_journal needs_file journal_step
proof unfold_locales
  fix h x
  show "jh_open h \<or> \<not> needs_file x \<Longrightarrow> jh_journal (journal_act x h) = journal_step x (jh_journal h) \<and> jh_open (journal_act x h)"
    by (cases x) (auto simp: journal_append_def journal_checkpoint_def split: prod.split)
  show "\<not> jh_open h \<Longrightarrow> needs_file x \<Longrightarrow> journal_act x h = h" by (cases x) (auto simp: journal_append_def)
  show "jh_journal (journal_exit h) = jh_journal h \<and> \<not> jh_open (journal_exit h)" by (simp add: journal_exit_def journal_close_def)
qed

fun journal_handle_step :: "journal_op handle_op \<Rightarrow> journal_handle \<Rightarrow> journal_handle" where
  "journal_handle_step (Use x) h = journal_act x h"
| "journal_handle_step Close h = journal_exit h"

lemma journal_handle_run:
  "jh_journal (fold journal_handle_step xs h) = fold journal_step (effective needs_file (jh_open h) xs) (jh_journal h)"
proof -
  have "journal_handle_step = journal_file.handle_step"
    by (intro ext) (simp add: journal_file.handle_step_def split: handle_op.split)
  then show ?thesis using journal_file.run_content[of xs h] by simp
qed

text \<open>C8: nothing is lost by closing and opening.  Starting from an empty directory, after any sequence of appends,
  checkpoints and closings, also in the wrong order, the journal is the one the effective operations alone
  give, and opening the directory again gives back exactly that journal, record for record and in the
  same order.\<close>

theorem journal_handle_reopen:
  assumes "journal_handle_new empty_disk sid nid = Inr h" and "h' = fold journal_handle_step ops h"
  shows "jh_journal h' = fold journal_step (effective needs_file True ops) (fresh_journal sid nid)
    \<and> journal_handle_new (ej_disk (jh_journal h')) sid nid = Inr (h'\<lparr>jh_open := True\<rparr>)"
proof -
  have h: "h = \<lparr>jh_journal = fresh_journal sid nid, jh_open = True\<rparr>"
    using assms(1) by (auto simp: journal_handle_new_def open_journal_def load_index_def empty_disk_def fresh_journal_def)
  have run: "jh_journal h' = fold journal_step (effective needs_file True ops) (fresh_journal sid nid)"
    using assms(2) journal_handle_run[of ops h] by (simp add: h)
  have "journal_inv sid nid (jh_journal h')" unfolding run by (rule journal.run_inv[OF fresh_journal_inv])
  from open_journal_holds[OF this] run show ?thesis by (cases h') (simp add: journal_handle_new_def)
qed

theorem journal_handle_reopen_witness:
  "\<exists>h h'. journal_handle_new empty_disk 1 ''n'' = Inr h
     \<and> h' = fold journal_handle_step [Use (Append (Delete ''a'' 5)), Close, Use (Append (Delete ''b'' 6)), Use Checkpoint] h
     \<and> jh_journal h' = fold journal_step [Append (Delete ''a'' 5), Checkpoint] (fresh_journal 1 ''n'')
     \<and> journal_handle_new (ej_disk (jh_journal h')) 1 ''n'' = Inr (h'\<lparr>jh_open := True\<rparr>)"
proof -
  let ?ops = "[Use (Append (Delete ''a'' 5)), Close, Use (Append (Delete ''b'' 6)), Use Checkpoint]"
  have "journal_handle_new empty_disk 1 ''n'' = Inr \<lparr>jh_journal = fresh_journal 1 ''n'', jh_open = True\<rparr>"
    by (simp add: journal_handle_new_def open_journal_def load_index_def empty_disk_def fresh_journal_def)
  from journal_handle_reopen[OF this refl, of ?ops] this show ?thesis by (intro exI[of _ "fold journal_handle_step ?ops _"] exI conjI) auto
qed

section \<open>The audit logger\<close>

record audit_handle =
  ah_logger :: AuditLogger
  ah_open :: bool

definition audit_handle_new :: "string \<Rightarrow> int \<Rightarrow> nat \<Rightarrow> (string, log_file) dict \<Rightarrow> audit_handle" where
  "audit_handle_new base max_bytes n files = \<lparr>ah_logger = AuditLogger_new base max_bytes n files, ah_open = True\<rparr>"

text \<open>Without its handler the logger, which does not propagate, has nowhere to write an entry of level \<^verbatim>\<open>INFO\<close>: the call
  returns and nothing is recorded.  \<open>flush\<close> changes nothing, since the handler flushes after every entry.\<close>

definition audit_call :: "int \<times> string \<times> log_call \<Rightarrow> audit_handle \<Rightarrow> audit_handle" where
  "audit_call x h = (if ah_open h then h\<lparr>ah_logger := audit_log x (ah_logger h)\<rparr> else h)"

definition audit_close :: "audit_handle \<Rightarrow> audit_handle" where
  "audit_close h = h\<lparr>ah_open := False\<rparr>"

definition audit_flush :: "audit_handle \<Rightarrow> audit_handle" where
  "audit_flush h = h"

interpretation audit_file: file_handle audit_call audit_close ah_open ah_logger "\<lambda>_. True" audit_log
  by unfold_locales (auto simp: audit_call_def audit_close_def)

lemma audit_handle_run:
  "ah_logger (fold audit_file.handle_step xs h) = fold audit_log (effective (\<lambda>_. True) (ah_open h) xs) (ah_logger h)"
  by (rule audit_file.run_content)

text \<open>Nothing that happens after the closing reaches the audit log.\<close>

theorem closed_audit_log_is_silent:
  "ah_logger (fold audit_call xs (audit_close h)) = ah_logger h"
proof -
  have "fold audit_call xs (audit_close h) = audit_close h" by (induction xs) (simp_all add: audit_call_def audit_close_def)
  then show ?thesis by (simp add: audit_close_def)
qed

end
