(* ===== verification/Session_State.thy ===== *)
theory Session_State
  imports Prelude
begin

text \<open>
  \<^verbatim>\<open>protocol/state_machine.py\<close>: the life cycle of a session.  The table of allowed
  transitions and \<open>transition\<close> as functions; the runs of the machine as an inductive
  relation, with the paths the table forces proved by rule induction.
\<close>

datatype SessionState = IDLE | CONNECTING | AUTHENTICATING | SYNCING | ACTIVE | RECONNECTING

fun TRANSITIONS :: "SessionState \<Rightarrow> SessionState list" where
  "TRANSITIONS IDLE = [CONNECTING]"
| "TRANSITIONS CONNECTING = [AUTHENTICATING, RECONNECTING]"
| "TRANSITIONS AUTHENTICATING = [SYNCING, RECONNECTING]"
| "TRANSITIONS SYNCING = [ACTIVE, RECONNECTING]"
| "TRANSITIONS ACTIVE = [RECONNECTING, IDLE]"
| "TRANSITIONS RECONNECTING = [CONNECTING, IDLE]"

datatype state_error = InvalidTransition SessionState SessionState

record SessionStateMachine =
  sm_state :: SessionState

definition SessionStateMachine_new :: SessionStateMachine where
  "SessionStateMachine_new = \<lparr>sm_state = IDLE\<rparr>"

definition transition :: "SessionState \<Rightarrow> SessionStateMachine \<Rightarrow> (state_error + unit) \<times> SessionStateMachine" where
  "transition to sm =
     (if to \<notin> set (TRANSITIONS (sm_state sm))
      then (Inl (InvalidTransition (sm_state sm) to), sm)
      else (Inr (), sm\<lparr>sm_state := to\<rparr>))"

definition is_active :: "SessionStateMachine \<Rightarrow> bool" where
  "is_active sm \<longleftrightarrow> sm_state sm = ACTIVE"

definition is_live :: "SessionStateMachine \<Rightarrow> bool" where
  "is_live sm \<longleftrightarrow> sm_state sm \<in> {CONNECTING, AUTHENTICATING, SYNCING, ACTIVE}"

section \<open>Runs\<close>

text \<open>\<open>runs sm tr sm'\<close>: the successful transitions \<open>tr\<close>, latest last, lead from \<open>sm\<close> to \<open>sm'\<close>;
  refused requests leave no trace.\<close>

inductive runs :: "SessionStateMachine \<Rightarrow> SessionState list \<Rightarrow> SessionStateMachine \<Rightarrow> bool" where
  start: "runs sm [] sm"
| ok: "runs sm tr s1 \<Longrightarrow> transition to s1 = (Inr (), s2) \<Longrightarrow> runs sm (tr @ [to]) s2"
| refused: "runs sm tr s1 \<Longrightarrow> transition to s1 = (Inl e, s2) \<Longrightarrow> runs sm tr s2"

inductive_cases runs_NilE: "runs sm [] s"

lemma transition_Inr: "transition to sm = (Inr u, sm') \<longleftrightarrow> to \<in> set (TRANSITIONS (sm_state sm)) \<and> sm' = sm\<lparr>sm_state := to\<rparr>"
  by (auto simp: transition_def)

lemma transition_Inl: "transition to sm = (Inl e, sm') \<Longrightarrow> sm' = sm"
  by (auto simp: transition_def split: if_splits)

text \<open>The state is the last successful request, and consecutive requests follow the table.\<close>

fun chained :: "SessionState list \<Rightarrow> bool" where
  "chained (a # b # ss) = (b \<in> set (TRANSITIONS a) \<and> chained (b # ss))"
| "chained _ = True"

lemma chained_snoc: "chained (ss @ [a, b]) \<longleftrightarrow> chained (ss @ [a]) \<and> b \<in> set (TRANSITIONS a)"
  by (induction ss rule: induct_list012) auto

lemma runs_chained:
  assumes "runs sm tr s"
  shows "chained (sm_state sm # tr) \<and> sm_state s = last (sm_state sm # tr)"
  using assms
proof induction
  case (ok sm tr s1 to s2)
  obtain ss where "sm_state sm # tr = ss @ [sm_state s1]"
    using ok.IH by (metis append_butlast_last_id list.distinct(1))
  then have snoc: "sm_state sm # tr @ [to] = ss @ [sm_state s1, to]" by simp
  from ok.IH ok.hyps(2) \<open>_ = ss @ [sm_state s1]\<close> show ?case
    unfolding snoc chained_snoc by (simp add: transition_Inr)
qed (auto dest: transition_Inl)

lemma into_active: "ACTIVE \<in> set (TRANSITIONS a) \<Longrightarrow> a = SYNCING"
  by (cases a) auto

lemma into_syncing: "SYNCING \<in> set (TRANSITIONS a) \<Longrightarrow> a = AUTHENTICATING"
  by (cases a) auto

lemma into_authenticating: "AUTHENTICATING \<in> set (TRANSITIONS a) \<Longrightarrow> a = CONNECTING"
  by (cases a) auto

lemma last_three:
  assumes "chained (IDLE # tr)" and "last (IDLE # tr) = ACTIVE"
  shows "\<exists>pre. tr = pre @ [CONNECTING, AUTHENTICATING, SYNCING, ACTIVE]"
proof -
  have step: "\<exists>pre. tr = pre @ [a, b] \<or> (tr = [b] \<and> a = IDLE)"
    if "chained (IDLE # tr)" "tr = ss @ [b]" "\<And>x. b \<in> set (TRANSITIONS x) \<Longrightarrow> x = a" for tr ss a b
  proof (cases ss rule: rev_cases)
    case Nil
    with that(1,2) that(3)[of IDLE] show ?thesis by simp
  next
    case (snoc zs z)
    with that chained_snoc[of "IDLE # zs" z b] show ?thesis by auto
  qed
  obtain s1 where s1: "tr = s1 @ [ACTIVE]"
    using assms(2) by (cases tr rule: rev_cases) auto
  from step[OF assms(1) s1 into_active] obtain s2 where s2: "s1 = s2 @ [SYNCING]"
    using s1 by auto
  have c2: "chained (IDLE # s1)" using assms(1) s1 s2 chained_snoc[of "IDLE # s2" SYNCING ACTIVE] by simp
  from step[OF c2 s2 into_syncing] obtain s3 where s3: "s2 = s3 @ [AUTHENTICATING]"
    using s2 by auto
  have c3: "chained (IDLE # s2)" using c2 s2 s3 chained_snoc[of "IDLE # s3" AUTHENTICATING SYNCING] by simp
  from step[OF c3 s3 into_authenticating] obtain s4 where "s3 = s4 @ [CONNECTING]"
    using s3 by auto
  with s1 s2 s3 show ?thesis by simp
qed

text \<open>a session is active only after it connected, authenticated and synchronised, in that
  order and without interruption: the last four successful transitions of any run that ends
  in \<open>ACTIVE\<close> are exactly those.\<close>

theorem active_only_after_auth_and_sync:
  assumes "runs SessionStateMachine_new tr s" and "is_active s"
  shows "\<exists>pre. tr = pre @ [CONNECTING, AUTHENTICATING, SYNCING, ACTIVE]"
  using runs_chained[OF assms(1)] assms(2)
  by (intro last_three) (simp_all add: SessionStateMachine_new_def is_active_def)

theorem active_only_after_auth_and_sync_witness:
  "\<exists>pre. [CONNECTING, RECONNECTING, CONNECTING, AUTHENTICATING, SYNCING, ACTIVE]
     = pre @ [CONNECTING, AUTHENTICATING, SYNCING, ACTIVE]"
proof (rule active_only_after_auth_and_sync)
  let ?m = "\<lambda>s. \<lparr>sm_state = s\<rparr>"
  have n: "transition b (?m a) = (Inr (), ?m b)" if "b \<in> set (TRANSITIONS a)" for a b
    using that by (simp add: transition_def)
  have "runs SessionStateMachine_new ([] @ [CONNECTING]) (?m CONNECTING)"
    by (rule runs.ok[OF runs.start]) (simp add: SessionStateMachine_new_def n)
  from runs.ok[OF runs.ok[OF runs.ok[OF runs.ok[OF runs.ok[OF this n[of RECONNECTING CONNECTING]]
      n[of CONNECTING RECONNECTING]] n[of AUTHENTICATING CONNECTING]] n[of SYNCING AUTHENTICATING]]
      n[of ACTIVE SYNCING]]
  show "runs SessionStateMachine_new [CONNECTING, RECONNECTING, CONNECTING, AUTHENTICATING, SYNCING, ACTIVE]
      (?m ACTIVE)" by simp
  show "is_active (?m ACTIVE)" by (simp add: is_active_def)
qed

text \<open>no state is a dead end: from every state some sequence of allowed transitions leads to
  \<open>ACTIVE\<close> and some sequence leads back to \<open>IDLE\<close>, and a refused request leaves the machine
  unchanged.\<close>

theorem session_never_stuck:
  "(\<exists>tr s. runs sm tr s \<and> is_active s) \<and> (\<exists>tr s. runs sm tr s \<and> sm_state s = IDLE)
   \<and> (case transition to sm of (Inl e, sm') \<Rightarrow> sm' = sm \<and> e = InvalidTransition (sm_state sm) to
      | (Inr _, sm') \<Rightarrow> sm_state sm' = to \<and> to \<in> set (TRANSITIONS (sm_state sm)))"
proof -
  have go: "\<exists>tr'. runs sm tr' (s\<lparr>sm_state := b\<rparr>)" if "runs sm tr s" "b \<in> set (TRANSITIONS (sm_state s))"
    for tr s b
    using runs.ok[OF that(1), of b] that(2) by (auto simp: transition_def)
  have reach: "\<exists>tr. runs sm tr (sm\<lparr>sm_state := b\<rparr>)"
    if "\<exists>tr. runs sm tr (sm\<lparr>sm_state := a\<rparr>)" "b \<in> set (TRANSITIONS a)" for a b
    using that go[of _ "sm\<lparr>sm_state := a\<rparr>" b] by auto
  have here: "\<exists>tr. runs sm tr (sm\<lparr>sm_state := sm_state sm\<rparr>)" using runs.start[of sm] by auto
  have rec: "\<exists>tr. runs sm tr (sm\<lparr>sm_state := CONNECTING\<rparr>)"
  proof (cases "sm_state sm")
    case CONNECTING
    with here show ?thesis by simp
  next
    case IDLE
    with here reach[of IDLE CONNECTING] show ?thesis by simp
  next
    case RECONNECTING
    with here reach[of RECONNECTING CONNECTING] show ?thesis by simp
  qed (use here reach[of "sm_state sm" RECONNECTING] reach[of RECONNECTING CONNECTING] in simp_all)
  from rec reach[of CONNECTING AUTHENTICATING] reach[of AUTHENTICATING SYNCING] reach[of SYNCING ACTIVE]
    reach[of ACTIVE IDLE]
  have "\<exists>tr. runs sm tr (sm\<lparr>sm_state := ACTIVE\<rparr>)" "\<exists>tr. runs sm tr (sm\<lparr>sm_state := IDLE\<rparr>)"
    by simp_all
  moreover have "is_active (sm\<lparr>sm_state := ACTIVE\<rparr>)" "sm_state (sm\<lparr>sm_state := IDLE\<rparr>) = IDLE"
    by (simp_all add: is_active_def)
  ultimately have "\<exists>tr s. runs sm tr s \<and> is_active s" "\<exists>tr s. runs sm tr s \<and> sm_state s = IDLE"
    by blast+
  then show ?thesis by (simp add: transition_def)
qed

end
