(* ===== verification/Path_Locks.thy ===== *)
theory Path_Locks
  imports Prelude "HOL-Library.List_Lexorder" "HOL-Library.Char_ord"
begin

text \<open>
  The per-path locks of \<^verbatim>\<open>sync/engine.py\<close> (ADR-009): the tasks that share one engine, each running
  \<open>send_write\<close>, \<open>send_delete\<close> or \<open>send_rename\<close>, as programs of lock operations interleaved in any
  order.  \<^verbatim>\<open>asyncio.Lock\<close> is not re-entrant: a lock is free or has one owner, and acquiring a held
  lock waits.
\<close>

datatype request = SendWrite string | SendDelete string | SendRename string string

datatype action = Acquire string | Perform | Release string

text \<open>\<^verbatim>\<open>sorted([old_path, new_path])\<close>, then the two nested \<^verbatim>\<open>async with\<close> blocks.\<close>

fun lock_program :: "request \<Rightarrow> action list" where
  "lock_program (SendWrite p) = [Acquire p, Perform, Release p]"
| "lock_program (SendDelete p) = [Acquire p, Perform, Release p]"
| "lock_program (SendRename old new) =
     (let (first, second) = (if new < old then (new, old) else (old, new))
      in [Acquire first, Acquire second, Perform, Release second, Release first])"

record engine_state =
  eg_locks :: "string \<Rightarrow> nat option"
  eg_tasks :: "action list list"

definition engine_start :: "request list \<Rightarrow> engine_state" where
  "engine_start reqs = \<lparr>eg_locks = \<lambda>_. None, eg_tasks = map lock_program reqs\<rparr>"

text \<open>One step of task \<open>i\<close>, when it is enabled.\<close>

definition task_step :: "nat \<Rightarrow> engine_state \<Rightarrow> engine_state option" where
  "task_step i s =
     (if i < length (eg_tasks s) then
        (case eg_tasks s ! i of
           [] \<Rightarrow> None
         | Acquire p # as \<Rightarrow>
             if eg_locks s p = None
             then Some (s\<lparr>eg_locks := (eg_locks s)(p \<mapsto> i), eg_tasks := (eg_tasks s)[i := as]\<rparr>)
             else None
         | Perform # as \<Rightarrow> Some (s\<lparr>eg_tasks := (eg_tasks s)[i := as]\<rparr>)
         | Release p # as \<Rightarrow>
             Some (s\<lparr>eg_locks := (eg_locks s)(p := None), eg_tasks := (eg_tasks s)[i := as]\<rparr>))
      else None)"

inductive reach :: "request list \<Rightarrow> engine_state \<Rightarrow> bool" for reqs where
  init: "reach reqs (engine_start reqs)"
| step: "reach reqs s \<Longrightarrow> task_step i s = Some s' \<Longrightarrow> reach reqs s'"

definition all_done :: "engine_state \<Rightarrow> bool" where
  "all_done s \<longleftrightarrow> (\<forall>as \<in> set (eg_tasks s). as = [])"

fun req_paths :: "request \<Rightarrow> string set" where
  "req_paths (SendWrite p) = {p}"
| "req_paths (SendDelete p) = {p}"
| "req_paths (SendRename old new) = {old, new}"

fun self_rename :: "request \<Rightarrow> bool" where
  "self_rename (SendRename old new) = (old = new)"
| "self_rename _ = False"

section \<open>Lock programs are well bracketed and ordered\<close>

lemma program_acquire:
  assumes "lock_program r = pre @ Acquire p # post" and "\<not> self_rename r"
  shows "Acquire p \<notin> set pre \<and> Release p \<notin> set pre \<and> (\<forall>q. Acquire q \<in> set pre \<longrightarrow> q < p)"
  using assms
  by (cases r) (auto simp: Cons_eq_append_conv split: if_splits)

lemma program_release:
  assumes "lock_program r = pre @ Release p # post" and "\<not> self_rename r"
  shows "Acquire p \<in> set pre \<and> Release p \<notin> set pre"
  using assms
  by (cases r) (auto simp: Cons_eq_append_conv split: if_splits)

lemma program_perform:
  assumes "lock_program r = pre @ Perform # post"
  shows "p \<in> req_paths r \<longrightarrow> Acquire p \<in> set pre \<and> Release p \<notin> set pre"
  using assms
  by (cases r) (auto simp: Cons_eq_append_conv split: if_splits)

lemma program_balanced: "Acquire p \<in> set (lock_program r) \<longleftrightarrow> Release p \<in> set (lock_program r)"
  by (cases r) (auto simp: Let_def)

section \<open>The invariant\<close>

text \<open>Task \<open>i\<close> has run a prefix of its program and owns exactly the locks that prefix has taken.\<close>

definition engine_inv :: "request list \<Rightarrow> engine_state \<Rightarrow> bool" where
  "engine_inv reqs s \<longleftrightarrow>
     length (eg_tasks s) = length reqs
     \<and> (\<forall>p i. eg_locks s p = Some i \<longrightarrow> i < length reqs)
     \<and> (\<forall>i < length reqs. \<exists>pre. lock_program (reqs ! i) = pre @ eg_tasks s ! i
          \<and> (\<forall>p. eg_locks s p = Some i \<longleftrightarrow> Acquire p \<in> set pre \<and> Release p \<notin> set pre))"

lemma engine_inv_task:
  assumes "engine_inv reqs s" and "i < length reqs"
  obtains pre where "lock_program (reqs ! i) = pre @ eg_tasks s ! i"
    "\<And>p. eg_locks s p = Some i \<longleftrightarrow> Acquire p \<in> set pre \<and> Release p \<notin> set pre"
  using assms unfolding engine_inv_def by blast

lemma engine_inv_start: "engine_inv reqs (engine_start reqs)"
  by (auto simp: engine_inv_def engine_start_def)

text \<open>Task \<open>i\<close> advances over one action; every other task keeps its program and its locks.\<close>

lemma engine_inv_update:
  assumes inv: "engine_inv reqs s" and i: "i < length reqs"
    and task: "eg_tasks s ! i = a # as"
    and own: "\<And>p pre. lock_program (reqs ! i) = pre @ a # as \<Longrightarrow>
        (\<And>p. eg_locks s p = Some i \<longleftrightarrow> Acquire p \<in> set pre \<and> Release p \<notin> set pre) \<Longrightarrow>
        locks p = Some i \<longleftrightarrow> Acquire p \<in> set (pre @ [a]) \<and> Release p \<notin> set (pre @ [a])"
    and others: "\<And>p j. j \<noteq> i \<Longrightarrow> locks p = Some j \<longleftrightarrow> eg_locks s p = Some j"
  shows "engine_inv reqs (s\<lparr>eg_locks := locks, eg_tasks := (eg_tasks s)[i := as]\<rparr>)"
proof -
  have len: "length (eg_tasks s) = length reqs" using inv by (simp add: engine_inv_def)
  have "\<exists>pre. lock_program (reqs ! j) = pre @ (eg_tasks s)[i := as] ! j
      \<and> (\<forall>p. locks p = Some j \<longleftrightarrow> Acquire p \<in> set pre \<and> Release p \<notin> set pre)" if j: "j < length reqs" for j
  proof (cases "j = i")
    case True
    obtain pre where pre: "lock_program (reqs ! i) = pre @ eg_tasks s ! i"
        "\<And>p. eg_locks s p = Some i \<longleftrightarrow> Acquire p \<in> set pre \<and> Release p \<notin> set pre"
      using engine_inv_task[OF inv i] by blast
    show ?thesis
      using own[OF pre(1)[unfolded task] pre(2)] pre(1) task i len True
      by (intro exI[of _ "pre @ [a]"]) simp
  next
    case False
    obtain pre where "lock_program (reqs ! j) = pre @ eg_tasks s ! j"
        "\<And>p. eg_locks s p = Some j \<longleftrightarrow> Acquire p \<in> set pre \<and> Release p \<notin> set pre"
      using engine_inv_task[OF inv j] by blast
    with False others show ?thesis by (intro exI[of _ pre]) simp
  qed
  moreover have "k < length reqs" if "locks p = Some k" for p k
    using that others[of k p] inv i by (cases "k = i") (auto simp: engine_inv_def)
  ultimately show ?thesis using len by (simp add: engine_inv_def)
qed

lemma engine_inv_step:
  assumes inv: "engine_inv reqs s" and step: "task_step i s = Some s'"
    and ok: "\<And>r. r \<in> set reqs \<Longrightarrow> \<not> self_rename r"
  shows "engine_inv reqs s'"
proof -
  have i: "i < length reqs" using step inv by (auto simp: task_step_def engine_inv_def split: if_splits)
  then have good: "\<not> self_rename (reqs ! i)" using ok by simp
  obtain a as where task: "eg_tasks s ! i = a # as"
    using step by (auto simp: task_step_def split: if_splits list.splits)
  show ?thesis
  proof (cases a)
    case (Acquire p)
    with step task have free: "eg_locks s p = None"
      and s': "s' = s\<lparr>eg_locks := (eg_locks s)(p \<mapsto> i), eg_tasks := (eg_tasks s)[i := as]\<rparr>"
      by (auto simp: task_step_def split: if_splits)
    show ?thesis unfolding s'
      by (rule engine_inv_update[OF inv i task])
        (use Acquire free good in \<open>auto dest: program_acquire\<close>)
  next
    case Perform
    with step task have s': "s' = s\<lparr>eg_locks := eg_locks s, eg_tasks := (eg_tasks s)[i := as]\<rparr>"
      by (auto simp: task_step_def split: if_splits)
    show ?thesis unfolding s'
      by (rule engine_inv_update[OF inv i task]) (use Perform in auto)
  next
    case (Release p)
    with step task have s': "s' = s\<lparr>eg_locks := (eg_locks s)(p := None), eg_tasks := (eg_tasks s)[i := as]\<rparr>"
      by (auto simp: task_step_def split: if_splits)
    obtain pre where pre: "lock_program (reqs ! i) = pre @ Release p # as"
        "\<And>q. eg_locks s q = Some i \<longleftrightarrow> Acquire q \<in> set pre \<and> Release q \<notin> set pre"
      using engine_inv_task[OF inv i] task Release by metis
    have mine: "eg_locks s p = Some i" using program_release[OF pre(1) good] pre(2) by simp
    show ?thesis unfolding s'
      by (rule engine_inv_update[OF inv i task]) (use Release mine in auto)
  qed
qed

lemma reach_inv:
  assumes "reach reqs s" and "\<And>r. r \<in> set reqs \<Longrightarrow> \<not> self_rename r"
  shows "engine_inv reqs s"
  using assms(1)
proof induction
  case (step s i s')
  then show ?case using engine_inv_step[OF _ _ assms(2)] by blast
qed (rule engine_inv_start)

section \<open>Mutual exclusion and progress\<close>

text \<open>C23: at most one operation per path is in flight: in no interleaving are two tasks performing
  at once operations that share a path.\<close>

theorem one_operation_per_path:
  assumes "reach reqs s" and "\<And>r. r \<in> set reqs \<Longrightarrow> \<not> self_rename r"
    and "i < length reqs" and "j < length reqs" and "i \<noteq> j"
    and "eg_tasks s ! i = Perform # as" and "eg_tasks s ! j = Perform # bs"
  shows "req_paths (reqs ! i) \<inter> req_paths (reqs ! j) = {}"
proof -
  have inv: "engine_inv reqs s" using assms(1,2) by (rule reach_inv)
  have own: "eg_locks s p = Some k"
    if "k < length reqs" "eg_tasks s ! k = Perform # cs" "p \<in> req_paths (reqs ! k)" for k p cs
    using engine_inv_task[OF inv that(1)] that(2,3) program_perform by metis
  show ?thesis using own[OF assms(3,6)] own[OF assms(4,7)] assms(5) by fastforce
qed

abbreviation two_writes :: "request list" where
  "two_writes \<equiv> [SendWrite ''a'', SendRename ''b'' ''c'']"

theorem one_operation_per_path_witness:
  "req_paths (two_writes ! 0) \<inter> req_paths (two_writes ! 1) = {}"
proof -
  let ?s = "\<lparr>eg_locks = (\<lambda>_. None)(''a'' \<mapsto> 0, ''b'' \<mapsto> 1, ''c'' \<mapsto> 1),
    eg_tasks = [[Perform, Release ''a''], [Perform, Release ''c'', Release ''b'']]\<rparr>"
  have "reach two_writes (engine_start two_writes)" by (rule reach.init)
  from reach.step[OF reach.step[OF reach.step[OF this, of 0], of _ 1], of _ _ 1 ?s]
  have r: "reach two_writes ?s"
    by (simp add: engine_start_def task_step_def less_char_def)
  have ok: "\<And>r. r \<in> set two_writes \<Longrightarrow> \<not> self_rename r" by auto
  show ?thesis
    using one_operation_per_path[OF r ok, of 0 1 "[Release ''a'']" "[Release ''c'', Release ''b'']"]
    by simp
qed

text \<open>A task that waits for the largest path anyone waits for waits for a task that can go on.\<close>

lemma engine_progress:
  assumes inv: "engine_inv reqs s" and ok: "\<And>r. r \<in> set reqs \<Longrightarrow> \<not> self_rename r" and "\<not> all_done s"
  shows "\<exists>i s'. task_step i s = Some s'"
proof (rule ccontr)
  assume stuck: "\<nexists>i s'. task_step i s = Some s'"
  have len: "length (eg_tasks s) = length reqs" using inv by (simp add: engine_inv_def)
  have waits: "\<exists>p as. eg_tasks s ! i = Acquire p # as \<and> eg_locks s p \<noteq> None"
    if il: "i < length reqs" and ne: "eg_tasks s ! i \<noteq> []" for i
  proof -
    obtain a as where a: "eg_tasks s ! i = a # as" using ne by (cases "eg_tasks s ! i") auto
    have "task_step i s = None" using stuck by (cases "task_step i s") auto
    with a il len show ?thesis by (cases a) (auto simp: task_step_def split: if_splits)
  qed
  define W where "W = {p. \<exists>i as. i < length reqs \<and> eg_tasks s ! i = Acquire p # as}"
  have "W \<subseteq> (\<lambda>i. case eg_tasks s ! i of Acquire p # _ \<Rightarrow> p | _ \<Rightarrow> []) ` {..<length reqs}"
  proof
    fix p assume "p \<in> W"
    then obtain i as where "i < length reqs" "eg_tasks s ! i = Acquire p # as" by (auto simp: W_def)
    then show "p \<in> (\<lambda>i. case eg_tasks s ! i of Acquire p # _ \<Rightarrow> p | _ \<Rightarrow> []) ` {..<length reqs}"
      by (intro image_eqI[of _ _ i]) simp_all
  qed
  then have fin: "finite W" by (rule finite_subset) simp
  obtain i0 where "i0 < length reqs" "eg_tasks s ! i0 \<noteq> []"
    using assms(3) len by (auto simp: all_done_def in_set_conv_nth)
  with waits have "W \<noteq> {}" by (fastforce simp: W_def)
  with fin have "Max W \<in> W" by (rule Max_in)
  then obtain i as where i: "i < length reqs" "eg_tasks s ! i = Acquire (Max W) # as"
    by (auto simp: W_def)
  with waits[of i] obtain j where j: "eg_locks s (Max W) = Some j" by auto
  then have jl: "j < length reqs" using inv by (auto simp: engine_inv_def)
  obtain pre where pre: "lock_program (reqs ! j) = pre @ eg_tasks s ! j"
      "Acquire (Max W) \<in> set pre" "Release (Max W) \<notin> set pre"
    using engine_inv_task[OF inv jl] j by metis
  have "eg_tasks s ! j \<noteq> []" using pre program_balanced[of "Max W" "reqs ! j"] by auto
  with waits[OF jl] obtain q bs where q: "eg_tasks s ! j = Acquire q # bs" by auto
  have "\<not> self_rename (reqs ! j)" using ok jl by simp
  from program_acquire[OF _ this, of pre q bs] pre q have "Max W < q" by auto
  moreover have "q \<le> Max W" using fin q jl by (intro Max_ge) (auto simp: W_def)
  ultimately show False by simp
qed

text \<open>the engine never deadlocks when no rename has equal paths: in every reachable state with
  unfinished tasks some task can take a step.\<close>

theorem engine_deadlock_free:
  assumes "reach reqs s" and "\<And>r. r \<in> set reqs \<Longrightarrow> \<not> self_rename r" and "\<not> all_done s"
  shows "\<exists>i s'. task_step i s = Some s'"
  using engine_progress[OF reach_inv[OF assms(1,2)] assms(2,3)] by blast

theorem engine_deadlock_free_witness:
  "\<exists>i s'. task_step i (engine_start two_writes) = Some s'"
proof (rule engine_deadlock_free)
  show "reach two_writes (engine_start two_writes)" by (rule reach.init)
qed (auto simp: all_done_def engine_start_def)

section \<open>Termination\<close>

definition work_left :: "engine_state \<Rightarrow> nat" where
  "work_left s = sum_list (map length (eg_tasks s))"

definition no_self_rename :: "request list \<Rightarrow> bool" where
  "no_self_rename reqs = list_all (\<lambda>r. \<not> self_rename r) reqs"

lemma task_step_work: "task_step i s = Some s' \<Longrightarrow> work_left s = Suc (work_left s')"
proof -
  assume "task_step i s = Some s'"
  then obtain a as where "i < length (eg_tasks s)" "eg_tasks s ! i = a # as" "eg_tasks s' = (eg_tasks s)[i := as]"
    by (auto simp: task_step_def split: if_splits list.splits action.splits)
  moreover from this have "i < length (map length (eg_tasks s))" by simp
  ultimately show ?thesis
    using elem_le_sum_list[of i "map length (eg_tasks s)"]
    by (simp add: work_left_def map_update sum_list_update)
qed

lemma all_done_work: "all_done s \<longleftrightarrow> work_left s = 0"
  by (auto simp: all_done_def work_left_def sum_list_eq_0_iff)

interpretation engine: terminating_machine task_step "\<lambda>s. no_self_rename reqs \<and> engine_inv reqs s" all_done work_left for reqs
proof
  fix s i s'
  assume "no_self_rename reqs \<and> engine_inv reqs s"
  moreover from this have "\<And>r. r \<in> set reqs \<Longrightarrow> \<not> self_rename r" by (simp add: no_self_rename_def list_all_iff)
  ultimately show "task_step i s = Some s' \<Longrightarrow> no_self_rename reqs \<and> engine_inv reqs s'"
    and "\<not> all_done s \<Longrightarrow> \<exists>i s'. task_step i s = Some s'"
    using engine_inv_step engine_progress by blast+
qed (simp_all add: task_step_work all_done_work)

lemma all_done_free: "engine_inv reqs s \<Longrightarrow> all_done s \<Longrightarrow> eg_locks s p = None"
proof (rule ccontr)
  assume inv: "engine_inv reqs s" and dn: "all_done s" and "eg_locks s p \<noteq> None"
  then obtain i where i: "eg_locks s p = Some i" "i < length reqs" by (auto simp: engine_inv_def)
  then have "eg_tasks s ! i = []" using inv dn by (auto simp: engine_inv_def all_done_def)
  then show False using engine_inv_task[OF inv i(2)] i(1) program_balanced by (metis append_Nil2)
qed

text \<open>C15: every set of operations finishes, under every schedule.  A schedule never has more steps than the
  programs have actions; as long as it has fewer, it can be continued; and once it has as many, every
  operation is done and every lock is free.\<close>

theorem engine_terminates:
  assumes "no_self_rename reqs" and "run_steps task_step schedule (engine_start reqs) = Some s"
  shows "length schedule \<le> work_left (engine_start reqs)
    \<and> (length schedule = work_left (engine_start reqs) \<longleftrightarrow> all_done s)
    \<and> (all_done s \<longrightarrow> (\<forall>p. eg_locks s p = None))
    \<and> (\<exists>rest s'. run_steps task_step rest s = Some s' \<and> all_done s')"
proof -
  have start: "no_self_rename reqs \<and> engine_inv reqs (engine_start reqs)" using assms(1) engine_inv_start by blast
  have r: "no_self_rename reqs \<and> engine_inv reqs s" "work_left (engine_start reqs) = length schedule + work_left s"
    using engine.run_keeps[OF start assms(2)] by blast+
  then show ?thesis using engine.run_finishes[OF r(1)] all_done_free all_done_work by auto
qed

theorem engine_terminates_witness:
  "\<exists>s. run_steps task_step [0, 1, 0] (engine_start two_writes) = Some s \<and> (\<exists>rest s'. run_steps task_step rest s = Some s' \<and> all_done s')"
proof -
  obtain s where s: "run_steps task_step [0, 1, 0] (engine_start two_writes) = Some s"
    by (simp add: engine_start_def task_step_def less_char_def)
  have "no_self_rename two_writes" by (simp add: no_self_rename_def)
  from engine_terminates[OF this s] s show ?thesis by blast
qed

text \<open>a rename of a path onto itself deadlocks: after its first step the task waits for a lock it
  holds itself, the operation is not finished, and no step is possible.\<close>

theorem self_rename_deadlocks:
  "\<exists>s. reach [SendRename p p] s \<and> \<not> all_done s \<and> (\<forall>i. task_step i s = None)"
proof -
  let ?s = "\<lparr>eg_locks = (\<lambda>_. None)(p \<mapsto> 0), eg_tasks = [[Acquire p, Perform, Release p, Release p]]\<rparr>"
  have "task_step 0 (engine_start [SendRename p p]) = Some ?s"
    by (simp add: task_step_def engine_start_def)
  from reach.step[OF reach.init this] show ?thesis
    by (intro exI[of _ ?s]) (auto simp: all_done_def task_step_def)
qed

end
