(* ===== verification/Jail.thy ===== *)
theory Jail
  imports Messages "HOL-Library.Sublist"
begin

text \<open>
  \<^verbatim>\<open>fs/jail.py\<close>: path resolution inside a silo root, over a model of the file system the
  code runs on.  A file system maps physical paths (lists of component names from the root
  directory, no component a symbolic link) to nodes.  \<open>realpath\<close> is \<^verbatim>\<open>Path.resolve()\<close>, with
  fuel for the symbolic links it may follow: running out of fuel is the \<^verbatim>\<open>RuntimeError\<close>
  Python raises for a loop.  Every theorem holds for every fuel.
\<close>

section \<open>The file system\<close>

type_synonym path = "string list"

record file_node =
  fn_content :: bytes
  fn_mode :: int
  fn_uid :: int
  fn_gid :: int
  fn_mtime_ns :: int

datatype node = Directory | Regular file_node | Symlink (link_target: string)

type_synonym file_system = "path \<Rightarrow> node option"

definition is_link :: "file_system \<Rightarrow> path \<Rightarrow> bool" where
  "is_link fs p \<longleftrightarrow> (case fs p of Some (Symlink _) \<Rightarrow> True | _ \<Rightarrow> False)"

text \<open>No prefix of the path is a symbolic link.\<close>

definition physical :: "file_system \<Rightarrow> path \<Rightarrow> bool" where
  "physical fs p \<longleftrightarrow> (\<forall>q. prefix q p \<longrightarrow> \<not> is_link fs q)"

text \<open>\<^verbatim>\<open>PurePosixPath(s).parts\<close>: the anchor first when the path is absolute, then the
  components that are neither empty nor a single dot.\<close>

definition path_parts :: "string \<Rightarrow> string list" where
  "path_parts s =
     (if starts_with [slash] s then [[slash]] else [])
     @ filter (\<lambda>c. c \<noteq> [] \<and> c \<noteq> ''.'') (split_on slash s)"

text \<open>\<^verbatim>\<open>p / part\<close>: an absolute part replaces the path.\<close>

definition path_join :: "path \<Rightarrow> string \<Rightarrow> path" where
  "path_join p part = (if part = [slash] then [] else p @ [part])"

function realpath :: "nat \<Rightarrow> file_system \<Rightarrow> path \<Rightarrow> string list \<Rightarrow> path option" where
  "realpath fuel fs acc [] = Some acc"
| "realpath fuel fs acc (c # cs) =
     (if c = [slash] then realpath fuel fs [] cs
      else if c = ''..'' then realpath fuel fs (butlast acc) cs
      else case fs (acc @ [c]) of
             Some (Symlink target) \<Rightarrow>
               (case fuel of 0 \<Rightarrow> None
                | Suc n \<Rightarrow> realpath n fs acc (path_parts target @ cs))
           | _ \<Rightarrow> realpath fuel fs (acc @ [c]) cs)"
  by pat_completeness auto
termination
  by (relation "measures [\<lambda>(n, _, _, _). n, \<lambda>(_, _, _, cs). length cs]") auto

text \<open>Where a system call with the path \<open>p\<close> acts: the kernel follows the links in the directories of the path, and
  the calls of this program (\<^verbatim>\<open>unlink\<close>, \<^verbatim>\<open>rename\<close>, creating a file) do not follow the last component.\<close>

definition kernel_path :: "nat \<Rightarrow> file_system \<Rightarrow> path \<Rightarrow> path option" where
  "kernel_path fuel fs p = (if p = [] then Some [] else map_option (\<lambda>d. d @ [last p]) (realpath fuel fs [] (butlast p)))"

section \<open>PathJail\<close>

datatype jail_error =
    TraversalComponent string
  | SymlinkEscape path
  | SymlinkLoop
  | OutsideRoot path

record PathJail =
  pj_root :: path

definition PathJail_new :: "nat \<Rightarrow> file_system \<Rightarrow> path \<Rightarrow> jail_error + PathJail" where
  "PathJail_new fuel fs root =
     (case realpath fuel fs [] root of None \<Rightarrow> Inl SymlinkLoop | Some r \<Rightarrow> Inr \<lparr>pj_root = r\<rparr>)"

text \<open>The loop of \<open>resolve\<close> over the parts, with the running candidate.\<close>

fun resolve_loop :: "nat \<Rightarrow> file_system \<Rightarrow> path \<Rightarrow> string \<Rightarrow> path \<Rightarrow> string list \<Rightarrow> jail_error + path" where
  "resolve_loop fuel fs root rel candidate [] = Inr candidate"
| "resolve_loop fuel fs root rel candidate (part # parts) =
     (if part = [] \<or> part = ''.'' then resolve_loop fuel fs root rel candidate parts
      else if part = ''..'' then Inl (TraversalComponent rel)
      else
        let cand = path_join candidate part in
        if is_link fs cand then
          (case realpath fuel fs [] cand of
             None \<Rightarrow> Inl SymlinkLoop
           | Some resolved \<Rightarrow>
               if \<not> prefix root resolved then Inl (SymlinkEscape cand)
               else resolve_loop fuel fs root rel resolved parts)
        else resolve_loop fuel fs root rel cand parts)"

definition resolve :: "nat \<Rightarrow> file_system \<Rightarrow> PathJail \<Rightarrow> string \<Rightarrow> jail_error + path" where
  "resolve fuel fs jail rel = resolve_loop fuel fs (pj_root jail) rel (pj_root jail) (path_parts rel)"

definition jail_check :: "nat \<Rightarrow> file_system \<Rightarrow> PathJail \<Rightarrow> path \<Rightarrow> jail_error + unit" where
  "jail_check fuel fs jail p =
     (case realpath fuel fs [] p of
        None \<Rightarrow> Inl SymlinkLoop
      | Some r \<Rightarrow> if prefix (pj_root jail) r then Inr () else Inl (OutsideRoot p))"

section \<open>Resolved paths are physical\<close>

lemma physical_Nil: "\<not> is_link fs [] \<Longrightarrow> physical fs []"
  by (simp add: physical_def)

lemma physical_snoc: "physical fs p \<Longrightarrow> \<not> is_link fs (p @ [c]) \<Longrightarrow> physical fs (p @ [c])"
  by (auto simp: physical_def)

lemma physical_prefix: "physical fs p \<Longrightarrow> prefix q p \<Longrightarrow> physical fs q"
  unfolding physical_def using prefix_order.trans by blast

lemma physical_butlast: "physical fs p \<Longrightarrow> physical fs (butlast p)"
  by (erule physical_prefix) (rule prefixeq_butlast)

lemma realpath_physical:
  assumes "realpath fuel fs acc cs = Some p" and "physical fs acc" and "\<not> is_link fs []"
  shows "physical fs p"
  using assms
proof (induction fuel fs acc cs rule: realpath.induct)
  case (2 fuel fs acc c cs)
  show ?case
  proof (cases "c = [slash] \<or> c = ''..''")
    case True
    then show ?thesis
      using 2 by (auto simp: physical_Nil physical_butlast split: if_splits)
  next
    case False
    note c = this
    show ?thesis
    proof (cases "is_link fs (acc @ [c])")
      case True
      then obtain t where t: "fs (acc @ [c]) = Some (Symlink t)"
        by (auto simp: is_link_def split: option.splits node.splits)
      then obtain n where "fuel = Suc n" "realpath n fs acc (path_parts t @ cs) = Some p"
        using "2.prems"(1) c by (auto split: nat.splits)
      then show ?thesis using "2.IH" c t "2.prems"(2,3) by simp
    next
      case False
      then have "realpath fuel fs (acc @ [c]) cs = Some p"
        using "2.prems"(1) c by (auto simp: is_link_def split: option.splits node.splits)
      moreover have "physical fs (acc @ [c])" using "2.prems"(2) False by (rule physical_snoc)
      ultimately show ?thesis
        using "2.IH" c False "2.prems"(3)
        by (cases "fs (acc @ [c])"; cases "the (fs (acc @ [c]))") (simp_all add: is_link_def)
    qed
  qed
qed simp

lemma resolve_loop_inside:
  assumes "resolve_loop fuel fs root rel cand parts = Inr p"
    and "physical fs cand" and "prefix root cand" and "[slash] \<notin> set parts" and "\<not> is_link fs []"
  shows "physical fs p \<and> prefix root p"
  using assms
proof (induction fuel fs root rel cand parts rule: resolve_loop.induct)
  case (2 fuel fs root rel cand part parts)
  let ?c = "cand @ [part]"
  have join: "path_join cand part = ?c" using "2.prems"(4) by (auto simp: path_join_def)
  consider "part = [] \<or> part = ''.''" | "part \<notin> {[], ''.'', ''..''}" "is_link fs ?c"
    | "part \<notin> {[], ''.'', ''..''}" "\<not> is_link fs ?c"
    using "2.prems"(1) by fastforce
  then show ?case
  proof cases
    case 1
    with 2 show ?thesis by auto
  next
    case 2
    with "2.prems"(1) join obtain r where r: "realpath fuel fs [] ?c = Some r" "prefix root r"
        "resolve_loop fuel fs root rel r parts = Inr p"
      by (auto simp: Let_def split: option.splits if_splits)
    have "physical fs r" using realpath_physical[OF r(1)] "2.prems"(5) by (simp add: physical_Nil)
    then show ?thesis using "2.IH"(2) 2 r join "2.prems"(4,5) by auto
  next
    case 3
    with "2.prems" join have "resolve_loop fuel fs root rel ?c parts = Inr p"
      by (auto simp: Let_def)
    then show ?thesis
      using "2.IH"(3) 3 join "2.prems"(2-5) by (auto simp: physical_snoc)
  qed
qed simp

lemma path_parts_relative:
  assumes "\<not> starts_with [slash] rel"
  shows "[slash] \<notin> set (path_parts rel)"
  using assms split_on_no_sep[of "[slash]" slash rel] by (auto simp: path_parts_def)

text \<open>A path without links and without special components is where the system calls act.\<close>

definition clean_path :: "path \<Rightarrow> bool" where
  "clean_path p \<longleftrightarrow> list_all (\<lambda>c. c \<noteq> [slash] \<and> c \<noteq> ''..'') p"

lemma clean_path_simps [simp]:
  "clean_path []" "clean_path (p @ q) \<longleftrightarrow> clean_path p \<and> clean_path q" "clean_path (c # p) \<longleftrightarrow> c \<noteq> [slash] \<and> c \<noteq> ''..'' \<and> clean_path p"
  by (auto simp: clean_path_def)

lemma clean_path_prefix: "clean_path p \<Longrightarrow> prefix q p \<Longrightarrow> clean_path q"
  by (auto simp: prefix_def)

lemma clean_path_butlast: "clean_path p \<Longrightarrow> clean_path (butlast p)"
  by (erule clean_path_prefix) (rule prefixeq_butlast)

lemma realpath_self: "clean_path cs \<Longrightarrow> physical fs (acc @ cs) \<Longrightarrow> realpath fuel fs acc cs = Some (acc @ cs)"
proof (induction cs arbitrary: acc)
  case (Cons c cs)
  have "\<not> is_link fs (acc @ [c])" using Cons.prems(2) by (simp add: physical_def prefix_def)
  then show ?case using Cons by (auto simp: is_link_def split: option.splits node.splits)
qed simp

lemma kernel_path_self:
  assumes "clean_path p" "physical fs p"
  shows "kernel_path fuel fs p = Some p"
  using realpath_self[of "butlast p" fs "[]" fuel] clean_path_butlast[OF assms(1)] physical_butlast[OF assms(2)]
  by (simp add: kernel_path_def)

lemma realpath_clean: "realpath fuel fs acc cs = Some p \<Longrightarrow> clean_path acc \<Longrightarrow> clean_path p"
proof (induction fuel fs acc cs rule: realpath.induct)
  case (2 fuel fs acc c cs)
  show ?case
  proof (cases "c = [slash] \<or> c = ''..''")
    case True
    then show ?thesis using 2 by (auto simp: clean_path_butlast split: if_splits)
  next
    case False
    then show ?thesis using 2 by (cases "fs (acc @ [c])"; cases "the (fs (acc @ [c]))") (auto split: nat.splits)
  qed
qed simp

lemma resolve_loop_clean:
  "resolve_loop fuel fs root rel cand parts = Inr p \<Longrightarrow> clean_path cand \<Longrightarrow> [slash] \<notin> set parts \<Longrightarrow> clean_path p"
proof (induction fuel fs root rel cand parts rule: resolve_loop.induct)
  case (2 fuel fs root rel cand part parts)
  then show ?case
    using realpath_clean[of fuel fs "[]" "path_join cand part"]
    by (auto simp: path_join_def Let_def split: if_splits option.splits)
qed simp

text \<open>C13: the jail holds: for a relative path, whatever symbolic links the silo contains and
  wherever they point, a path the jail returns lies under the silo root and no component of it
  is a symbolic link, so the operation that follows cannot be redirected.\<close>

theorem jail_confines:
  assumes "PathJail_new n fs dir = Inr jail" and "\<not> is_link fs []"
    and "\<not> starts_with [slash] rel" and "resolve fuel fs jail rel = Inr p"
  shows "prefix (pj_root jail) p \<and> physical fs p"
proof -
  have "realpath n fs [] dir = Some (pj_root jail)"
    using assms(1) by (auto simp: PathJail_new_def split: option.splits)
  then have "physical fs (pj_root jail)"
    using assms(2) by (intro realpath_physical[OF _ physical_Nil])
  then show ?thesis
    using resolve_loop_inside[OF assms(4)[unfolded resolve_def]] path_parts_relative[OF assms(3)]
      assms(2) by simp
qed

text \<open>A silo with a link to the outside and a link inside.\<close>

definition demo_fs :: file_system where
  "demo_fs =
     [[] \<mapsto> Directory, [''silo''] \<mapsto> Directory, [''etc''] \<mapsto> Directory,
      [''silo'', ''evil''] \<mapsto> Symlink ''/etc'', [''silo'', ''docs''] \<mapsto> Directory,
      [''silo'', ''d''] \<mapsto> Symlink ''docs'']"

abbreviation demo_jail :: PathJail where
  "demo_jail \<equiv> \<lparr>pj_root = [''silo'']\<rparr>"

lemmas jail_eval = resolve_def path_parts_def path_join_def is_link_def demo_fs_def starts_with_def
  Let_def

theorem jail_confines_witness:
  "resolve 3 demo_fs demo_jail ''d/x'' = Inr [''silo'', ''docs'', ''x'']
   \<and> prefix [''silo''] [''silo'', ''docs'', ''x''] \<and> physical demo_fs [''silo'', ''docs'', ''x'']
   \<and> resolve 3 demo_fs demo_jail ''evil/passwd'' = Inl (SymlinkEscape [''silo'', ''evil''])"
proof -
  have new: "PathJail_new 3 demo_fs [''silo''] = Inr demo_jail"
    by (simp add: PathJail_new_def demo_fs_def)
  have root: "\<not> is_link demo_fs []" by (simp add: is_link_def demo_fs_def)
  have rel: "\<not> starts_with [slash] ''d/x''" by (simp add: starts_with_def)
  have r: "resolve 3 demo_fs demo_jail ''d/x'' = Inr [''silo'', ''docs'', ''x'']"
    by (simp add: jail_eval)
  moreover have "resolve 3 demo_fs demo_jail ''evil/passwd'' = Inl (SymlinkEscape [''silo'', ''evil''])"
    by (simp add: jail_eval)
  ultimately show ?thesis using jail_confines[OF new root rel r] by simp
qed

lemma resolve_loop_plain:
  assumes "\<And>q. prefix q parts \<Longrightarrow> \<not> is_link fs (cand @ q)"
    and "\<And>c. c \<in> set parts \<Longrightarrow> c \<notin> {[], ''.'', ''..'', [slash]}"
  shows "resolve_loop fuel fs root rel cand parts = Inr (cand @ parts)"
  using assms
proof (induction parts arbitrary: cand)
  case (Cons c parts)
  have "\<not> is_link fs (cand @ [c])" using Cons.prems(1)[of "[c]"] by simp
  moreover have "\<not> is_link fs ((cand @ [c]) @ q)" if "prefix q parts" for q
    using Cons.prems(1)[of "c # q"] that by simp
  ultimately show ?case
    using Cons.IH[of "cand @ [c]"] Cons.prems(2) by (auto simp: path_join_def Let_def)
qed simp

text \<open>the jail does not get in the way: a path that passed the message checks, with no
  symbolic link on the way, resolves to the root followed by its components.\<close>

theorem jail_resolves_plain:
  assumes "safe_path rel" and "\<And>q. prefix q (path_parts rel) \<Longrightarrow> \<not> is_link fs (pj_root jail @ q)"
  shows "resolve fuel fs jail rel = Inr (pj_root jail @ path_parts rel)"
proof -
  have rel: "\<not> starts_with [slash] rel"
    using assms(1) by (simp add: safe_path_def starts_with_singleton)
  then have "c \<notin> {[], ''.'', ''..'', [slash]}" if "c \<in> set (path_parts rel)" for c
    using that assms(1) path_parts_relative[OF rel] by (auto simp: path_parts_def safe_path_def)
  with assms(2) show ?thesis unfolding resolve_def by (intro resolve_loop_plain) auto
qed

theorem jail_resolves_plain_witness:
  "resolve 0 demo_fs demo_jail ''docs//a.txt'' = Inr [''silo'', ''docs'', ''a.txt'']"
proof -
  have parts: "path_parts ''docs//a.txt'' = [''docs'', ''a.txt'']"
    by (simp add: path_parts_def starts_with_def)
  have "resolve 0 demo_fs demo_jail ''docs//a.txt'' = Inr (pj_root demo_jail @ path_parts ''docs//a.txt'')"
  proof (rule jail_resolves_plain)
    show "safe_path ''docs//a.txt''" by (simp add: safe_path_def)
    show "\<not> is_link demo_fs (pj_root demo_jail @ q)" if "prefix q (path_parts ''docs//a.txt'')" for q
      using that by (auto simp: parts prefix_Cons is_link_def demo_fs_def)
  qed
  then show ?thesis by (simp add: parts)
qed

text \<open>called with an absolute path the jail does not hold: the anchor of the path replaces
  the silo root and the result is the absolute path itself, outside the root and unchecked.\<close>

theorem jail_absolute_escapes:
  assumes "\<And>p. \<not> is_link fs p"
  shows "resolve fuel fs jail ''/etc/passwd'' = Inr [''etc'', ''passwd'']"
  using assms by (simp add: resolve_def path_parts_def starts_with_def path_join_def Let_def)

theorem jail_absolute_escapes_witness:
  "resolve 3 [[] \<mapsto> Directory] demo_jail ''/etc/passwd'' = Inr [''etc'', ''passwd'']
   \<and> \<not> prefix (pj_root demo_jail) [''etc'', ''passwd'']"
  using jail_absolute_escapes[of "[[] \<mapsto> Directory]" 3 demo_jail] by (simp add: is_link_def)

end
