(* ===== verification/Writer.thy ===== *)
theory Writer
  imports Jail
begin

text \<open>
  \<^verbatim>\<open>fs/permissions.py\<close> and \<^verbatim>\<open>filesystem/writer.py\<close>: mode sanitising, owner lookup and the
  atomic write pipeline.  \<open>atomic_write\<close> returns its result together with every state the file
  system goes through, so a crash is any prefix of that list.  Which system calls fail is a
  parameter (\<open>os_fail\<close>), as are the passwd and group databases and the attributes of a new file.
\<close>

unbundle bit_operations_syntax

section \<open>Permissions\<close>

text \<open>The octal constants 7000, 644, 755 and 022.\<close>

abbreviation FORBIDDEN_BITS :: int where "FORBIDDEN_BITS \<equiv> 0xE00"
abbreviation MAX_FILE_MODE :: int where "MAX_FILE_MODE \<equiv> 0x1A4"
abbreviation MAX_DIR_MODE :: int where "MAX_DIR_MODE \<equiv> 0x1ED"
abbreviation SERVER_UMASK :: int where "SERVER_UMASK \<equiv> 0x12"

definition sanitize_mode :: "int \<Rightarrow> bool \<Rightarrow> int" where
  "sanitize_mode raw is_dir =
     (let mode = raw AND NOT FORBIDDEN_BITS;
          ceiling = (if is_dir then MAX_DIR_MODE else MAX_FILE_MODE)
      in mode AND ceiling AND NOT SERVER_UMASK)"

datatype owner_error = UnknownOwner string

definition lookup_uid :: "(string \<Rightarrow> int option) \<Rightarrow> string \<Rightarrow> owner_error + int" where
  "lookup_uid pwd name = (case pwd name of None \<Rightarrow> Inl (UnknownOwner name) | Some uid \<Rightarrow> Inr uid)"

definition lookup_gid :: "(string \<Rightarrow> int option) \<Rightarrow> string \<Rightarrow> owner_error + int" where
  "lookup_gid grp name = (case grp name of None \<Rightarrow> Inl (UnknownOwner name) | Some gid \<Rightarrow> Inr gid)"

text \<open>\<^verbatim>\<open>apply_posix_attrs\<close> as the system calls it makes, in order.  \<^verbatim>\<open>chmod\<close> acts on what the path resolves
  to, \<^verbatim>\<open>lchown\<close> on the path itself.\<close>

datatype attr_call = Chmod path int | Lchown path int int

definition apply_posix_attrs :: "(string \<Rightarrow> int option) \<Rightarrow> (string \<Rightarrow> int option) \<Rightarrow> path \<Rightarrow> int \<Rightarrow> string \<Rightarrow> string
    \<Rightarrow> owner_error + attr_call list" where
  "apply_posix_attrs pwd grp p mode uid_name gid_name =
     (case lookup_uid pwd uid_name of
        Inl e \<Rightarrow> Inl e
      | Inr uid \<Rightarrow>
          (case lookup_gid grp gid_name of
             Inl e \<Rightarrow> Inl e
           | Inr gid \<Rightarrow> Inr [Chmod p mode, Lchown p uid gid]))"

fun attr_target :: "nat \<Rightarrow> file_system \<Rightarrow> attr_call \<Rightarrow> path option" where
  "attr_target fuel fs (Chmod p mode) = realpath fuel fs [] p"
| "attr_target fuel fs (Lchown p uid gid) = map_option (\<lambda>d. d @ [last p]) (realpath fuel fs [] (butlast p))"

text \<open>On a symbolic link the two calls act on different files.\<close>

lemma posix_attrs_follow_link:
  assumes "fs [''l''] = Some (Symlink ''/etc'')" "fs [''etc''] = Some Directory"
  shows "map (attr_target (Suc n) fs) [Chmod [''l''] mode, Lchown [''l''] uid gid] = [Some [''etc''], Some [''l'']]"
  using assms by (simp add: path_parts_def starts_with_def)

lemma sanitize_mode_mask:
  "sanitize_mode raw is_dir = raw AND (if is_dir then MAX_DIR_MODE else MAX_FILE_MODE)"
proof -
  have "NOT FORBIDDEN_BITS AND MAX_DIR_MODE AND NOT SERVER_UMASK = MAX_DIR_MODE"
       "NOT FORBIDDEN_BITS AND MAX_FILE_MODE AND NOT SERVER_UMASK = MAX_FILE_MODE"
    by code_simp+
  then show ?thesis by (simp only: sanitize_mode_def Let_def and.assoc split: if_splits) simp
qed

text \<open>whatever mode a peer asks for, the mode applied is its intersection with 644 for files
  and 755 for directories: no setuid, setgid or sticky bit, no write bit for group or others, and
  no execute bit on files; sanitising twice changes nothing.\<close>

theorem sanitize_mode_ceiling:
  "sanitize_mode raw is_dir = raw AND (if is_dir then MAX_DIR_MODE else MAX_FILE_MODE)
   \<and> sanitize_mode raw is_dir AND (FORBIDDEN_BITS OR SERVER_UMASK) = 0
   \<and> sanitize_mode (sanitize_mode raw is_dir) is_dir = sanitize_mode raw is_dir
   \<and> 0 \<le> sanitize_mode raw is_dir \<and> sanitize_mode raw is_dir \<le> MAX_DIR_MODE"
proof -
  have z: "MAX_DIR_MODE AND (FORBIDDEN_BITS OR SERVER_UMASK) = 0"
      "MAX_FILE_MODE AND (FORBIDDEN_BITS OR SERVER_UMASK) = 0"
    by code_simp+
  have "raw AND m \<le> m" "0 \<le> raw AND m" if "0 \<le> m" for m :: int
    using that AND_upper2[of m raw] by simp_all
  from this[of MAX_DIR_MODE] this[of MAX_FILE_MODE]
  have b: "0 \<le> sanitize_mode raw is_dir" "sanitize_mode raw is_dir \<le> MAX_DIR_MODE"
    by (auto simp: sanitize_mode_mask)
  show ?thesis using z b by (simp add: sanitize_mode_mask and.assoc)
qed

section \<open>The write pipeline\<close>

datatype write_step = WMkdir | WOpen | WWrite | WFsync | WLookup | WChown | WChmod | WUtime | WRename

record os_env =
  os_fail :: "write_step \<Rightarrow> bool"
  os_pwd :: "string \<Rightarrow> int option"
  os_grp :: "string \<Rightarrow> int option"
  os_new :: file_node
  os_unlink_fails :: bool
  os_rename_fails :: bool
  os_dir_empty :: "path \<Rightarrow> bool"

text \<open>\<open>WriteJail\<close> is the \<^verbatim>\<open>JailbreakError\<close> of the resolution and \<open>WriteFailed\<close> the \<^verbatim>\<open>WriteError\<close> of a failing call; the others
  leave \<open>atomic_write\<close> as they are: the \<^verbatim>\<open>OSError\<close> of \<^verbatim>\<open>mkdir\<close>, the \<^verbatim>\<open>OverflowError\<close> of \<^verbatim>\<open>os.utime\<close> and the \<^verbatim>\<open>OSError\<close> of the
  removal of the temporary file.\<close>

datatype write_error = WriteJail jail_error | WriteMkdir | WriteFailed write_step | WriteOverflow | WriteCleanup

text \<open>\<^verbatim>\<open>mkdir(parents=True, exist_ok=True)\<close>: a component that exists and is not a directory is an
  \<^verbatim>\<open>OSError\<close>.\<close>

fun mkdirs :: "file_system \<Rightarrow> path \<Rightarrow> string list \<Rightarrow> file_system option" where
  "mkdirs fs acc [] = Some fs"
| "mkdirs fs acc (c # cs) =
     (case fs (acc @ [c]) of
        None \<Rightarrow> mkdirs (fs(acc @ [c] \<mapsto> Directory)) (acc @ [c]) cs
      | Some Directory \<Rightarrow> mkdirs fs (acc @ [c]) cs
      | Some _ \<Rightarrow> None)"

text \<open>The file attributes after each system call on the temporary file.\<close>

definition total_mtime_ns :: "FileEntry \<Rightarrow> int" where
  "total_mtime_ns e = fe_mtime_s e * 1000000000 + fe_mtime_ns e"

definition written_node :: "os_env \<Rightarrow> bytes \<Rightarrow> FileEntry \<Rightarrow> file_node" where
  "written_node env content e =
     \<lparr>fn_content = content, fn_mode = sanitize_mode (fe_mode e) False,
      fn_uid = the (os_pwd env (fe_uid_name e)), fn_gid = the (os_grp env (fe_gid_name e)),
      fn_mtime_ns = total_mtime_ns e\<rparr>"

definition write_stages :: "os_env \<Rightarrow> bytes \<Rightarrow> FileEntry \<Rightarrow> (write_step \<times> file_node) list" where
  "write_stages env content e =
     (let new = os_new env;
          full = new\<lparr>fn_content := content\<rparr>;
          owned = full\<lparr>fn_uid := the (os_pwd env (fe_uid_name e)), fn_gid := the (os_grp env (fe_gid_name e))\<rparr>;
          moded = owned\<lparr>fn_mode := sanitize_mode (fe_mode e) False\<rparr>;
          timed = moded\<lparr>fn_mtime_ns := total_mtime_ns e\<rparr>
      in [(WOpen, new\<lparr>fn_content := []\<rparr>), (WWrite, full), (WFsync, full), (WLookup, full),
          (WChown, owned), (WChmod, moded), (WUtime, timed)])"

text \<open>\<^verbatim>\<open>os.utime\<close> refuses seconds that do not fit a signed 64-bit \<^verbatim>\<open>time_t\<close>, before the system call.\<close>

definition utime_overflows :: "FileEntry \<Rightarrow> bool" where
  "utime_overflows e \<longleftrightarrow> total_mtime_ns e div 1000000000 < - (2 ^ 63) \<or> 2 ^ 63 \<le> total_mtime_ns e div 1000000000"

definition step_fails :: "os_env \<Rightarrow> file_system \<Rightarrow> path \<Rightarrow> FileEntry \<Rightarrow> write_step \<Rightarrow> bool" where
  "step_fails env fs dest e s =
     (case s of
        WLookup \<Rightarrow> is_error (lookup_uid (os_pwd env) (fe_uid_name e))
                  \<or> is_error (lookup_gid (os_grp env) (fe_gid_name e))
      | WUtime \<Rightarrow> utime_overflows e \<or> os_fail env WUtime
      | WRename \<Rightarrow> os_fail env WRename \<or> fs dest = Some Directory
      | _ \<Rightarrow> os_fail env s)"

definition step_error :: "FileEntry \<Rightarrow> write_step \<Rightarrow> write_error" where
  "step_error e s = (if s = WUtime \<and> utime_overflows e then WriteOverflow else WriteFailed s)"

text \<open>The \<^verbatim>\<open>except\<close> clauses: the temporary file is removed and the error raised; when the removal fails its error
  is raised instead and the file stays.\<close>

definition clean_up :: "os_env \<Rightarrow> path \<Rightarrow> write_error \<Rightarrow> file_system \<Rightarrow> write_error \<times> file_system" where
  "clean_up env tmp err fs = (if os_unlink_fails env then (WriteCleanup, fs) else (err, fs(tmp := None)))"

text \<open>Running the calls on the temporary file.\<close>

fun run_stages :: "os_env \<Rightarrow> FileEntry \<Rightarrow> (write_step \<Rightarrow> bool) \<Rightarrow> path \<Rightarrow> (write_step \<times> file_node) list \<Rightarrow> file_system
    \<Rightarrow> (write_error + file_system) \<times> file_system list" where
  "run_stages env e fails tmp [] fs = (Inr fs, [])"
| "run_stages env e fails tmp ((s, n) # rest) fs =
     (if fails s then (case clean_up env tmp (step_error e s) fs of (err, fs') \<Rightarrow> (Inl err, [fs']))
      else
        let fs' = fs(tmp \<mapsto> Regular n) in
        case run_stages env e fails tmp rest fs' of (r, sts) \<Rightarrow> (r, fs' # sts))"

definition tmp_path :: "path \<Rightarrow> string \<Rightarrow> path" where
  "tmp_path dest hex = butlast dest @ [''.chiralite_tmp_'' @ hex]"

text \<open>The calls act where the kernel's walk along the resolved path ends, \<open>d\<close>; making directories does not change
  that walk.  A walk that meets too many links is an \<^verbatim>\<open>OSError\<close> of the first call, \<^verbatim>\<open>mkdir\<close>.\<close>

definition atomic_write ::
  "os_env \<Rightarrow> string \<Rightarrow> nat \<Rightarrow> file_system \<Rightarrow> PathJail \<Rightarrow> string \<Rightarrow> bytes \<Rightarrow> FileEntry
    \<Rightarrow> (write_error + unit) \<times> file_system list" where
  "atomic_write env hex fuel fs jail rel content e =
     (case resolve fuel fs jail rel of
        Inl err \<Rightarrow> (Inl (WriteJail err), [fs])
      | Inr dest \<Rightarrow>
          (case kernel_path fuel fs dest of
             None \<Rightarrow> (Inl WriteMkdir, [fs])
           | Some d \<Rightarrow>
               (case (if os_fail env WMkdir then None else mkdirs fs [] (butlast d)) of
                  None \<Rightarrow> (Inl WriteMkdir, [fs])
                | Some fs1 \<Rightarrow>
                    let tmp = tmp_path d hex;
                        fails = step_fails env fs1 d e
                    in case run_stages env e fails tmp (write_stages env content e) fs1 of
                         (Inl err, sts) \<Rightarrow> (Inl err, fs1 # sts)
                       | (Inr fs2, sts) \<Rightarrow>
                           if fails WRename
                           then (case clean_up env tmp (WriteFailed WRename) fs2 of (err, fs3) \<Rightarrow> (Inl err, fs1 # sts @ [fs3]))
                           else (Inr (), fs1 # sts @ [fs2(tmp := None, d := fs2 tmp)]))))"

section \<open>Atomicity\<close>

lemma mkdirs_only_adds:
  assumes "mkdirs fs acc cs = Some fs'"
  shows "(fs p \<noteq> None \<longrightarrow> fs' p = fs p)
    \<and> (fs' p \<noteq> fs p \<longrightarrow> fs' p = Some Directory \<and> strict_prefix acc p \<and> prefix p (acc @ cs))"
  using assms
proof (induction fs acc cs rule: mkdirs.induct)
  case (2 fs acc c cs)
  have lift: "strict_prefix acc p \<and> prefix p (acc @ c # cs)"
    if "p = acc @ [c] \<or> strict_prefix (acc @ [c]) p \<and> prefix p ((acc @ [c]) @ cs)"
    using that by (auto simp: strict_prefix_def dest: append_prefixD)
  show ?case
  proof (cases "fs (acc @ [c])")
    case None
    with "2.prems" have run: "mkdirs (fs(acc @ [c] \<mapsto> Directory)) (acc @ [c]) cs = Some fs'" by simp
    from "2.IH"(1)[OF None run] None lift show ?thesis by (cases "p = acc @ [c]") auto
  next
    case (Some n)
    with "2.prems" have n: "n = Directory" and run: "mkdirs fs (acc @ [c]) cs = Some fs'"
      by (cases n; simp)+
    from "2.IH"(2)[OF Some n run] lift show ?thesis by auto
  qed
qed simp

lemma run_stages_frame:
  assumes "run_stages env e fails tmp stages fs = (r, sts)"
  shows "(\<forall>st \<in> set sts. \<forall>p. p \<noteq> tmp \<longrightarrow> st p = fs p)
    \<and> (case r of Inl err \<Rightarrow> sts \<noteq> [] \<and> (last sts tmp = None \<or> os_unlink_fails env \<and> err = WriteCleanup)
       | Inr fs' \<Rightarrow> fs' = last (fs # sts) \<and> (stages \<noteq> [] \<longrightarrow> fs' tmp = Some (Regular (snd (last stages)))))"
  using assms
proof (induction stages arbitrary: fs r sts)
  case (Cons sn stages)
  obtain s n where sn: "sn = (s, n)" by fastforce
  show ?case
  proof (cases "fails s")
    case True
    with Cons.prems show ?thesis by (auto simp: sn clean_up_def split: if_splits)
  next
    case False
    obtain sts1 where run: "run_stages env e fails tmp stages (fs(tmp \<mapsto> Regular n)) = (r, sts1)"
        "sts = fs(tmp \<mapsto> Regular n) # sts1"
      using Cons.prems False by (auto simp: sn Let_def split: prod.splits)
    show ?thesis
      using Cons.IH[OF run(1)] run by (cases stages) (auto simp: sn split: sum.splits)
  qed
qed simp

lemma run_stages_nodes:
  assumes "run_stages env e fails tmp stages fs = (r, sts)" and "st \<in> set sts"
  shows "st p = fs p \<or> st p = None \<or> (\<exists>n. st p = Some (Regular n))"
  using assms
proof (induction stages arbitrary: fs r sts)
  case (Cons sn stages)
  obtain s n where sn: "sn = (s, n)" by fastforce
  show ?case
  proof (cases "fails s")
    case True
    with Cons.prems show ?thesis by (auto simp: sn clean_up_def split: if_splits)
  next
    case False
    obtain sts1 where run: "run_stages env e fails tmp stages (fs(tmp \<mapsto> Regular n)) = (r, sts1)"
        "sts = fs(tmp \<mapsto> Regular n) # sts1"
      using Cons.prems(1) False by (auto simp: sn Let_def split: prod.splits)
    with Cons.IH[OF run(1)] Cons.prems(2) show ?thesis by (auto split: if_splits)
  qed
qed simp

lemma write_stages_last: "snd (last (write_stages env content e)) = written_node env content e"
  by (simp add: write_stages_def Let_def written_node_def)

lemma write_stages_not_Nil: "write_stages env content e \<noteq> []"
  by (simp add: write_stages_def Let_def)

definition write_safe :: "os_env \<Rightarrow> path \<Rightarrow> path \<Rightarrow> file_node \<Rightarrow> file_system \<Rightarrow> (write_error + unit) \<times> file_system list \<Rightarrow> bool" where
  "write_safe env dest tmp new fs out \<longleftrightarrow>
     (\<forall>st \<in> set (snd out).
        (st dest = fs dest \<or> fst out = Inr () \<and> st dest = Some (Regular new))
        \<and> (\<forall>p. p \<noteq> dest \<longrightarrow> p \<noteq> tmp \<longrightarrow> \<not> prefix p (butlast dest) \<longrightarrow> st p = fs p))
     \<and> (last (snd out) tmp = None \<or> os_unlink_fails env \<and> fst out = Inl WriteCleanup)
     \<and> last (snd out) dest = (if is_error (fst out) then fs dest else Some (Regular new))"

lemma mkdirs_parent:
  assumes "mkdirs fs [] (butlast dest) = Some fs1"
  shows "fs1 dest = fs dest" and "fs1 (tmp_path dest hex) = fs (tmp_path dest hex)"
    and "\<not> prefix p (butlast dest) \<Longrightarrow> fs1 p = fs p"
proof -
  note add = mkdirs_only_adds[OF assms]
  show "fs1 p = fs p" if "\<not> prefix p (butlast dest)" for p using add[of p] that by auto
  then show "fs1 (tmp_path dest hex) = fs (tmp_path dest hex)"
    by (auto simp: tmp_path_def dest: prefix_length_le)
  have "\<not> (strict_prefix [] dest \<and> prefix dest (butlast dest))"
    using prefix_length_le[of dest "butlast dest"] by (cases dest) auto
  then show "fs1 dest = fs dest" using add[of dest] by auto
qed

lemma atomic_write_unfold:
  assumes "resolve fuel fs jail rel = Inr dest" and "kernel_path fuel fs dest = Some d"
  shows "atomic_write env hex fuel fs jail rel content e =
    (case (if os_fail env WMkdir then None else mkdirs fs [] (butlast d)) of
       None \<Rightarrow> (Inl WriteMkdir, [fs])
     | Some fs1 \<Rightarrow>
         (case run_stages env e (step_fails env fs1 d e) (tmp_path d hex) (write_stages env content e) fs1 of
            (Inl err, sts) \<Rightarrow> (Inl err, fs1 # sts)
          | (Inr fs2, sts) \<Rightarrow>
              if step_fails env fs1 d e WRename
              then (case clean_up env (tmp_path d hex) (WriteFailed WRename) fs2 of (err, fs3) \<Rightarrow> (Inl err, fs1 # sts @ [fs3]))
              else (Inr (), fs1 # sts @ [fs2(tmp_path d hex := None, d := fs2 (tmp_path d hex))])))"
  by (simp only: atomic_write_def assms Let_def sum.case option.case)

lemma atomic_write_safe:
  assumes "resolve fuel fs jail rel = Inr dest" and "kernel_path fuel fs dest = Some d"
    and "fs (tmp_path d hex) = None" and "tmp_path d hex \<noteq> d"
  shows "write_safe env d (tmp_path d hex) (written_node env content e) fs
    (atomic_write env hex fuel fs jail rel content e)"
proof (cases "if os_fail env WMkdir then None else mkdirs fs [] (butlast d)")
  case None
  then show ?thesis using assms by (simp add: atomic_write_unfold write_safe_def)
next
  case (Some fs1)
  let ?tmp = "tmp_path d hex"
  let ?run = "run_stages env e (step_fails env fs1 d e) ?tmp (write_stages env content e) fs1"
  from Some have mk: "mkdirs fs [] (butlast d) = Some fs1" by (simp split: if_splits)
  note fs1 = mkdirs_parent[OF mk]
  obtain r0 sts0 where run: "?run = (r0, sts0)" by (cases ?run)
  note out = atomic_write_unfold[OF assms(1,2), of env hex content e, unfolded Some option.case run prod.case]
  note fr = run_stages_frame[OF run]
  have same: "st d = fs d" "p \<noteq> ?tmp \<Longrightarrow> \<not> prefix p (butlast d) \<Longrightarrow> st p = fs p"
    if "st \<in> set (fs1 # sts0)" for st p
    using that fr fs1(1) fs1(3)[of p] assms(4) by auto
  show ?thesis
  proof (cases r0)
    case (Inl err)
    have "sts0 \<noteq> []" "last sts0 ?tmp = None \<or> os_unlink_fails env \<and> err = WriteCleanup" using fr Inl by auto
    with same[of "last sts0"] show ?thesis
      unfolding out Inl write_safe_def using same by auto
  next
    case (Inr fs2)
    then have fs2: "fs2 \<in> set (fs1 # sts0)" "fs2 ?tmp = Some (Regular (written_node env content e))"
      using fr write_stages_not_Nil[of env content e] by (auto simp: write_stages_last)
    note same2 = same[OF fs2(1)]
    show ?thesis
    proof (cases "step_fails env fs1 d e WRename")
      case True
      obtain err fs3 where cl: "clean_up env ?tmp (WriteFailed WRename) fs2 = (err, fs3)" by fastforce
      have "fs3 ?tmp = None \<or> os_unlink_fails env \<and> err = WriteCleanup" "\<And>p. p \<noteq> ?tmp \<Longrightarrow> fs3 p = fs2 p"
        using cl by (auto simp: clean_up_def split: if_splits)
      then show ?thesis unfolding out Inr write_safe_def
        using True same same2 assms(4) by (auto simp: cl)
    next
      case False
      then show ?thesis unfolding out Inr write_safe_def
        using same same2 fs2(2) assms(4) by auto
    qed
  qed
qed

text \<open>C14: a write is atomic, and leaves nothing behind unless the cleaning up itself fails.  Whatever system calls
  fail, the removal of the temporary file included, and wherever the process stops, the place the destination
  leads to holds its old node or, only when the write succeeds, the complete new file with the sanitised mode,
  the looked-up owner and the entry's modification time; no other path outside its parent
  directories changes but the temporary file; and when the call returns the temporary file is gone, except when its removal failed,
  which the call then reports.\<close>

theorem atomic_write_atomic:
  assumes "resolve fuel fs jail rel = Inr dest" and "kernel_path fuel fs dest = Some d"
    and "fs (tmp_path d hex) = None" and "tmp_path d hex \<noteq> d"
  shows "write_safe env d (tmp_path d hex) (written_node env content e) fs
    (atomic_write env hex fuel fs jail rel content e)"
  using assms by (rule atomic_write_safe)

definition demo_env :: os_env where
  "demo_env = \<lparr>os_fail = \<lambda>_. False, os_pwd = [''fm'' \<mapsto> 1000], os_grp = [''staff'' \<mapsto> 50],
     os_new = \<lparr>fn_content = [], fn_mode = 384, fn_uid = 0, fn_gid = 0, fn_mtime_ns = 0\<rparr>,
     os_unlink_fails = False, os_rename_fails = False, os_dir_empty = \<lambda>_. False\<rparr>"

definition demo_entry :: FileEntry where
  "demo_entry = \<lparr>fe_path = ''docs/a'', fe_rapidhash = 7, fe_size = 2, fe_mode = 0x9FF,
     fe_uid_name = ''fm'', fe_gid_name = ''staff'', fe_mtime_s = 3, fe_mtime_ns = 4,
     fe_is_symlink = False, fe_symlink_target = None, fe_is_full = True,
     fe_delta_base_rapidhash = None\<rparr>"

theorem atomic_write_atomic_witness:
  "write_safe (demo_env\<lparr>os_fail := \<lambda>s. s = WChmod, os_unlink_fails := True\<rparr>) [''silo'', ''docs'', ''a''] [''silo'', ''docs'', ''.chiralite_tmp_0f'']
     (written_node demo_env [1, 2] demo_entry) demo_fs
     (atomic_write (demo_env\<lparr>os_fail := \<lambda>s. s = WChmod, os_unlink_fails := True\<rparr>) ''0f'' 1 demo_fs demo_jail ''d/a'' [1, 2] demo_entry)"
proof -
  let ?env = "demo_env\<lparr>os_fail := \<lambda>s. s = WChmod, os_unlink_fails := True\<rparr>"
  have r: "resolve 1 demo_fs demo_jail ''d/a'' = Inr [''silo'', ''docs'', ''a'']"
    by (simp add: jail_eval)
  have k: "kernel_path 1 demo_fs [''silo'', ''docs'', ''a''] = Some [''silo'', ''docs'', ''a'']"
    by (simp add: kernel_path_def demo_fs_def)
  have t: "tmp_path [''silo'', ''docs'', ''a''] ''0f'' = [''silo'', ''docs'', ''.chiralite_tmp_0f'']"
    by (simp add: tmp_path_def)
  have n: "written_node ?env = written_node demo_env" by (simp add: written_node_def fun_eq_iff)
  show ?thesis
    using atomic_write_atomic[OF r k, of "''0f''" ?env "[1, 2]" demo_entry]
    unfolding t n by (simp add: demo_fs_def)
qed

text \<open>When no call fails, the owner names are known and the time fits, the write succeeds.\<close>

lemma run_stages_ok:
  assumes "\<And>s n. (s, n) \<in> set stages \<Longrightarrow> \<not> fails s"
  shows "\<exists>fs' sts. run_stages env e fails tmp stages fs = (Inr fs', sts)"
  using assms
proof (induction stages arbitrary: fs)
  case (Cons sn stages)
  obtain s n where sn: "sn = (s, n)" by fastforce
  obtain fs' sts where "run_stages env e fails tmp stages (fs(tmp \<mapsto> Regular n)) = (Inr fs', sts)"
    using Cons by fastforce
  then show ?case using Cons.prems[of s n] by (simp add: sn Let_def)
qed simp

lemma atomic_write_succeeds:
  assumes "resolve fuel fs jail rel = Inr dest" and "kernel_path fuel fs dest = Some d" and "\<And>s. \<not> os_fail env s"
    and "os_pwd env (fe_uid_name e) = Some u" and "os_grp env (fe_gid_name e) = Some g" and "\<not> utime_overflows e"
    and "mkdirs fs [] (butlast d) \<noteq> None" and "fs d \<noteq> Some Directory"
  shows "fst (atomic_write env hex fuel fs jail rel content e) = Inr ()"
proof -
  obtain fs1 where fs1: "mkdirs fs [] (butlast d) = Some fs1" using assms(7) by blast
  have nofail: "\<not> step_fails env fs1 d e s" for s
    using assms mkdirs_parent(1)[OF fs1]
    by (cases s) (auto simp: step_fails_def lookup_uid_def lookup_gid_def)
  obtain fs' sts where "run_stages env e (step_fails env fs1 d e) (tmp_path d hex)
      (write_stages env content e) fs1 = (Inr fs', sts)"
    using run_stages_ok[of _ "step_fails env fs1 d e"] nofail by blast
  then show ?thesis using assms(3) fs1 nofail by (simp add: atomic_write_unfold[OF assms(1,2)])
qed

lemma atomic_write_directory:
  assumes "resolve fuel fs jail rel = Inr dest" and "kernel_path fuel fs dest = Some d" and "fs d = Some Directory"
  shows "is_error (fst (atomic_write env hex fuel fs jail rel content e))"
proof (cases "if os_fail env WMkdir then None else mkdirs fs [] (butlast d)")
  case None
  then show ?thesis using assms by (simp add: atomic_write_unfold)
next
  case (Some fs1)
  then have "fs1 d = Some Directory" using assms(3) mkdirs_parent(1)[of fs d fs1] by (simp split: if_splits)
  then have "step_fails env fs1 d e WRename" by (simp add: step_fails_def)
  then show ?thesis using Some
    by (auto simp: atomic_write_unfold[OF assms(1,2)] split: prod.split sum.split)
qed

text \<open>The seconds of a message are not bounded, so \<^verbatim>\<open>os.utime\<close> may raise an \<^verbatim>\<open>OverflowError\<close>: then \<open>atomic_write\<close>
  raises that and not the \<^verbatim>\<open>WriteError\<close> it documents.\<close>

lemma utime_overflow_escapes:
  "fst (atomic_write demo_env ''0f'' 1 demo_fs demo_jail ''docs/a'' [1, 2] (demo_entry\<lparr>fe_mtime_s := 2 ^ 63\<rparr>)) = Inl WriteOverflow
   \<and> FileEntry_errors (demo_entry\<lparr>fe_mtime_s := 2 ^ 63\<rparr>) = []"
  by (simp add: atomic_write_def jail_eval kernel_path_def tmp_path_def write_stages_def step_fails_def step_error_def clean_up_def
      utime_overflows_def total_mtime_ns_def lookup_uid_def lookup_gid_def demo_env_def demo_entry_def valid_entry_simps safe_path_def UINT64_MAX_def)

end
