(* ===== verification/Policy.thy ===== *)
theory Policy
  imports Jail
begin

text \<open>
  \<^verbatim>\<open>trust/policy.py\<close>, \<^verbatim>\<open>silo/session.py\<close>, \<^verbatim>\<open>silo/registry.py\<close> and the policy part of
  \<^verbatim>\<open>silo/config.py\<close>: owner resolution, client policies, sessions and the registry of active
  sessions.  The passwd and group databases are parameters.  Users and groups are resolved by
  two copies of one routine; \<open>name_policy\<close> is their common contract.
\<close>

section \<open>Policies\<close>

definition DENIED_UID_NAMES :: "string list" where
  "DENIED_UID_NAMES = [''root'', ''daemon'', ''bin'', ''sys'', ''www-data'', ''sudo'', ''wheel'', ''shadow'', ''0'']"

definition DENIED_GID_NAMES :: "string list" where
  "DENIED_GID_NAMES = [''root'', ''daemon'', ''bin'', ''sys'', ''www-data'', ''sudo'', ''wheel'', ''shadow'', ''0'']"

datatype OpType = READ | WRITE | DELETE | RENAME

record UidPolicy =
  up_map :: "(string, string) dict"
  up_default :: string
  up_deny :: "string list"

record GidPolicy =
  gp_map :: "(string, string) dict"
  gp_default :: string
  gp_deny :: "string list"

record ClientPolicy =
  cp_cn :: string
  cp_silo_id :: uuid
  cp_allowed_ops :: "OpType list"
  cp_uid_policy :: UidPolicy
  cp_gid_policy :: GidPolicy

datatype policy_error =
    NotAuthorised string uuid
  | UidDenied string | UnknownUser string | UidZero string
  | GidDenied string | UnknownGroup string | GidZero string

record SiloPolicy =
  sp_map :: "(string \<times> uuid, ClientPolicy) dict"

definition SiloPolicy_new :: "ClientPolicy list \<Rightarrow> SiloPolicy" where
  "SiloPolicy_new entries =
     \<lparr>sp_map = fold (\<lambda>e. dict_set (cp_cn e, cp_silo_id e) e) entries []\<rparr>"

definition lookup :: "SiloPolicy \<Rightarrow> string \<Rightarrow> uuid \<Rightarrow> policy_error + ClientPolicy" where
  "lookup sp cn sid =
     (case dict_get (sp_map sp) (cn, sid) of None \<Rightarrow> Inl (NotAuthorised cn sid) | Some p \<Rightarrow> Inr p)"

definition has_op :: "SiloPolicy \<Rightarrow> string \<Rightarrow> uuid \<Rightarrow> OpType \<Rightarrow> bool" where
  "has_op sp cn sid op =
     (case lookup sp cn sid of Inl _ \<Rightarrow> False | Inr p \<Rightarrow> op \<in> set (cp_allowed_ops p))"

section \<open>Owner resolution\<close>

definition check_denied_uid :: "string \<Rightarrow> string list \<Rightarrow> policy_error option" where
  "check_denied_uid name extra =
     (if name \<in> set (DENIED_UID_NAMES @ extra) then Some (UidDenied name) else None)"

definition check_denied_gid :: "string \<Rightarrow> string list \<Rightarrow> policy_error option" where
  "check_denied_gid name extra =
     (if name \<in> set (DENIED_GID_NAMES @ extra) then Some (GidDenied name) else None)"

definition lookup_uid_safe :: "(string \<Rightarrow> int option) \<Rightarrow> string \<Rightarrow> policy_error + int" where
  "lookup_uid_safe pwd name =
     (case pwd name of
        None \<Rightarrow> Inl (UnknownUser name)
      | Some uid \<Rightarrow> if uid = 0 then Inl (UidZero name) else Inr uid)"

definition lookup_gid_safe :: "(string \<Rightarrow> int option) \<Rightarrow> string \<Rightarrow> policy_error + int" where
  "lookup_gid_safe grp name =
     (case grp name of
        None \<Rightarrow> Inl (UnknownGroup name)
      | Some gid \<Rightarrow> if gid = 0 then Inl (GidZero name) else Inr gid)"

definition resolve_uid :: "(string \<Rightarrow> int option) \<Rightarrow> string \<Rightarrow> UidPolicy \<Rightarrow> policy_error + int" where
  "resolve_uid pwd name pol =
     (case check_denied_uid name (up_deny pol) of
        Some e \<Rightarrow> Inl e
      | None \<Rightarrow>
          let local_name = (case dict_get (up_map pol) name of None \<Rightarrow> up_default pol | Some n \<Rightarrow> n)
          in lookup_uid_safe pwd local_name)"

definition resolve_gid :: "(string \<Rightarrow> int option) \<Rightarrow> string \<Rightarrow> GidPolicy \<Rightarrow> policy_error + int" where
  "resolve_gid grp name pol =
     (case check_denied_gid name (gp_deny pol) of
        Some e \<Rightarrow> Inl e
      | None \<Rightarrow>
          let local_name = (case dict_get (gp_map pol) name of None \<Rightarrow> gp_default pol | Some n \<Rightarrow> n)
          in lookup_gid_safe grp local_name)"

section \<open>Configuration\<close>

record UidPolicyConfig =
  uc_map :: "(string, string) dict"
  uc_default :: string
  uc_deny :: "string list"

record GidPolicyConfig =
  gc_map :: "(string, string) dict"
  gc_default :: string
  gc_deny :: "string list"

definition uid_to_policy :: "UidPolicyConfig \<Rightarrow> UidPolicy" where
  "uid_to_policy c = \<lparr>up_map = uc_map c, up_default = uc_default c, up_deny = uc_deny c\<rparr>"

definition gid_to_policy :: "GidPolicyConfig \<Rightarrow> GidPolicy" where
  "gid_to_policy c = \<lparr>gp_map = gc_map c, gp_default = gc_default c, gp_deny = gc_deny c\<rparr>"

section \<open>Sessions and their registry\<close>

record SiloSession =
  ss_silo_id :: uuid
  ss_client_cn :: string
  ss_jail :: PathJail
  ss_allowed_ops :: "OpType list"
  ss_uid_policy :: UidPolicy
  ss_gid_policy :: GidPolicy
  ss_blacklist :: "string list"

definition permits :: "SiloSession \<Rightarrow> OpType \<Rightarrow> bool" where
  "permits s op \<longleftrightarrow> op \<in> set (ss_allowed_ops s)"

datatype registry_error = AlreadyActive uuid | NoSession uuid

record SiloRegistry =
  sr_sessions :: "(uuid, SiloSession) dict"

definition SiloRegistry_new :: SiloRegistry where
  "SiloRegistry_new = \<lparr>sr_sessions = []\<rparr>"

definition register :: "SiloSession \<Rightarrow> SiloRegistry \<Rightarrow> registry_error + SiloRegistry" where
  "register s reg =
     (if dict_get (sr_sessions reg) (ss_silo_id s) \<noteq> None then Inl (AlreadyActive (ss_silo_id s))
      else Inr (reg\<lparr>sr_sessions := dict_set (ss_silo_id s) s (sr_sessions reg)\<rparr>))"

definition unregister :: "uuid \<Rightarrow> SiloRegistry \<Rightarrow> SiloSession option \<times> SiloRegistry" where
  "unregister sid reg =
     (dict_get (sr_sessions reg) sid, reg\<lparr>sr_sessions := dict_del sid (sr_sessions reg)\<rparr>)"

definition registry_get :: "uuid \<Rightarrow> SiloRegistry \<Rightarrow> SiloSession option" where
  "registry_get sid reg = dict_get (sr_sessions reg) sid"

definition registry_require :: "uuid \<Rightarrow> SiloRegistry \<Rightarrow> registry_error + SiloSession" where
  "registry_require sid reg =
     (case dict_get (sr_sessions reg) sid of None \<Rightarrow> Inl (NoSession sid) | Some s \<Rightarrow> Inr s)"

definition active_sessions :: "SiloRegistry \<Rightarrow> SiloSession list" where
  "active_sessions reg = map snd (sr_sessions reg)"

section \<open>The contract of owner resolution\<close>

locale name_policy =
  fixes resolve :: "string \<Rightarrow> 'p \<Rightarrow> policy_error + int"
    and look :: "string \<Rightarrow> policy_error + int"
    and denied :: "'p \<Rightarrow> string \<Rightarrow> bool"
    and local_name :: "'p \<Rightarrow> string \<Rightarrow> string"
  assumes denied_refused: "denied pol name \<Longrightarrow> is_error (resolve name pol)"
    and allowed_looked_up: "\<not> denied pol name \<Longrightarrow> resolve name pol = look (local_name pol name)"
    and look_nonzero: "look name \<noteq> Inr 0"
begin

lemma never_zero: "resolve name pol \<noteq> Inr 0"
  using denied_refused[of pol name] allowed_looked_up[of pol name] look_nonzero by (cases "denied pol name") auto

lemma resolve_Inr: "resolve name pol = Inr i \<longleftrightarrow> \<not> denied pol name \<and> look (local_name pol name) = Inr i"
  using denied_refused[of pol name] allowed_looked_up[of pol name] by (cases "denied pol name") auto

end

definition uid_denied :: "UidPolicy \<Rightarrow> string \<Rightarrow> bool" where
  "uid_denied pol name \<longleftrightarrow> name \<in> set DENIED_UID_NAMES \<or> name \<in> set (up_deny pol)"

definition gid_denied :: "GidPolicy \<Rightarrow> string \<Rightarrow> bool" where
  "gid_denied pol name \<longleftrightarrow> name \<in> set DENIED_GID_NAMES \<or> name \<in> set (gp_deny pol)"

definition uid_local :: "UidPolicy \<Rightarrow> string \<Rightarrow> string" where
  "uid_local pol name = (case dict_get (up_map pol) name of None \<Rightarrow> up_default pol | Some n \<Rightarrow> n)"

definition gid_local :: "GidPolicy \<Rightarrow> string \<Rightarrow> string" where
  "gid_local pol name = (case dict_get (gp_map pol) name of None \<Rightarrow> gp_default pol | Some n \<Rightarrow> n)"

interpretation uid: name_policy "resolve_uid pwd" "lookup_uid_safe pwd" uid_denied uid_local for pwd
  by unfold_locales
    (auto simp: resolve_uid_def check_denied_uid_def uid_denied_def uid_local_def lookup_uid_safe_def
      Let_def split: option.splits if_splits)

interpretation gid: name_policy "resolve_gid grp" "lookup_gid_safe grp" gid_denied gid_local for grp
  by unfold_locales
    (auto simp: resolve_gid_def check_denied_gid_def gid_denied_def gid_local_def lookup_gid_safe_def
      Let_def split: option.splits if_splits)

text \<open>No configuration and no database makes the resolution return number 0, and \<^verbatim>\<open>root\<close> is always refused.\<close>

lemma owner_never_zero:
  "resolve_uid pwd name up \<noteq> Inr 0" "resolve_gid grp name gp \<noteq> Inr 0"
  "is_error (resolve_uid pwd ''root'' up)" "is_error (resolve_gid grp ''root'' gp)"
  using uid.never_zero gid.never_zero uid.denied_refused[of up "''root''" pwd] gid.denied_refused[of gp "''root''" grp]
  by (simp_all add: uid_denied_def gid_denied_def DENIED_UID_NAMES_def DENIED_GID_NAMES_def)

text \<open>the deny list guards the incoming name only: a policy that maps a harmless name to
  \<^verbatim>\<open>www-data\<close> hands out that account.\<close>

theorem policy_map_bypasses_deny:
  "resolve_uid [''www-data'' \<mapsto> 33] ''fm''
     \<lparr>up_map = [(''fm'', ''www-data'')], up_default = ''nobody'', up_deny = [''www-data'']\<rparr> = Inr 33
   \<and> ''www-data'' \<in> set DENIED_UID_NAMES"
  by (simp add: resolve_uid_def check_denied_uid_def lookup_uid_safe_def DENIED_UID_NAMES_def)

section \<open>One session per silo\<close>

datatype registry_op = Register SiloSession | Unregister uuid

fun registry_step :: "registry_op \<Rightarrow> SiloRegistry \<Rightarrow> SiloRegistry" where
  "registry_step (Register s) reg = (case register s reg of Inl _ \<Rightarrow> reg | Inr reg' \<Rightarrow> reg')"
| "registry_step (Unregister sid) reg = snd (unregister sid reg)"

definition registry_inv :: "SiloRegistry \<Rightarrow> bool" where
  "registry_inv reg \<longleftrightarrow>
     dict_ok (sr_sessions reg) \<and> (\<forall>x \<in> set (sr_sessions reg). ss_silo_id (snd x) = fst x)"

lemma set_dict_set: "set (dict_set k v d) \<subseteq> insert (k, v) (set d)"
  by (induction d) auto

lemma set_dict_del: "set (dict_del k d) \<subseteq> set d"
  by (auto simp: AList.delete_eq)

interpretation registry: invariant_machine registry_step registry_inv
proof
  show "registry_inv (registry_step x reg)" if "registry_inv reg" for x reg
    using that set_dict_set set_dict_del
    by (cases x) (fastforce simp: registry_inv_def register_def unregister_def)+
qed

text \<open>at most one session per silo is ever active, under its own silo id, whatever sequence of
  connections registers and unregisters; a second registration is refused and keeps the first.\<close>

theorem registry_single_session:
  "distinct (map ss_silo_id (active_sessions (fold registry_step ops SiloRegistry_new)))
   \<and> (registry_get (ss_silo_id s) reg \<noteq> None \<longrightarrow> register s reg = Inl (AlreadyActive (ss_silo_id s)))
   \<and> (\<forall>reg'. register s reg = Inr reg' \<longrightarrow> registry_get (ss_silo_id s) reg' = Some s
        \<and> registry_get (ss_silo_id s) (snd (unregister (ss_silo_id s) reg')) = None)"
proof -
  have "registry_inv (fold registry_step ops SiloRegistry_new)"
    by (rule registry.run_inv) (simp add: registry_inv_def SiloRegistry_new_def)
  then have "map ss_silo_id (active_sessions (fold registry_step ops SiloRegistry_new))
      = map fst (sr_sessions (fold registry_step ops SiloRegistry_new))"
    and "distinct (map fst (sr_sessions (fold registry_step ops SiloRegistry_new)))"
    by (simp_all add: registry_inv_def active_sessions_def dict_ok_def)
  then show ?thesis
    by (auto simp: registry_get_def register_def unregister_def split: if_splits)
qed

definition demo_session :: SiloSession where
  "demo_session = \<lparr>ss_silo_id = 1, ss_client_cn = ''fm'', ss_jail = demo_jail, ss_allowed_ops = [READ, WRITE],
     ss_uid_policy = \<lparr>up_map = [], up_default = ''fm'', up_deny = []\<rparr>,
     ss_gid_policy = \<lparr>gp_map = [], gp_default = ''staff'', gp_deny = []\<rparr>, ss_blacklist = []\<rparr>"

theorem registry_single_session_witness:
  "register demo_session \<lparr>sr_sessions = [(1, demo_session)]\<rparr> = Inl (AlreadyActive 1)"
  using registry_single_session[of "[]" demo_session "\<lparr>sr_sessions = [(1, demo_session)]\<rparr>"]
  by (simp add: registry_get_def demo_session_def)

end
