(* ===== verification/Payload_Codec.thy ===== *)
theory Payload_Codec
  imports Prelude "HOL-Library.Sublist"
begin

text \<open>
  \<^verbatim>\<open>crypto/payload.py\<close> and \<^verbatim>\<open>crypto/http_payload.py\<close>: the two frame codecs and the
  bounded set of seen nonces.  The AES-GCM object of the \<^verbatim>\<open>cryptography\<close> package is a
  field of the codec, as in the code; what the codecs rely on of it is \<open>aesgcm_ok\<close>.
  \<open>frame_codec\<close> is the duck type \<^verbatim>\<open>_CodecProtocol\<close> with its laws: what one end
  encrypts the other end, in step with it, decrypts, and a refused frame changes nothing.
\<close>

section \<open>AES-GCM\<close>

text \<open>\<^verbatim>\<open>AESGCM.encrypt(nonce, data, aad)\<close> raises for data that is too long (\<open>None\<close>);
  \<^verbatim>\<open>AESGCM.decrypt\<close> raises \<^verbatim>\<open>InvalidTag\<close> (\<open>None\<close>).\<close>

record aesgcm =
  gcm_encrypt :: "bytes \<Rightarrow> bytes \<Rightarrow> bytes \<Rightarrow> bytes option"
  gcm_decrypt :: "bytes \<Rightarrow> bytes \<Rightarrow> bytes \<Rightarrow> bytes option"

abbreviation GCM_TAG_SIZE :: nat where "GCM_TAG_SIZE \<equiv> 16"

text \<open>GCM is deterministic in nonce, data and associated data, and decryption
  recomputes the tag: a ciphertext is accepted exactly when it is the encryption of the
  plaintext returned.  The ciphertext is the plaintext's length plus the tag.\<close>

definition aesgcm_ok :: "aesgcm \<Rightarrow> bool" where
  "aesgcm_ok g \<longleftrightarrow>
     (\<forall>n c a p. gcm_decrypt g n c a = Some p \<longleftrightarrow> gcm_encrypt g n p a = Some c)
     \<and> (\<forall>n c a p. gcm_encrypt g n p a = Some c \<longrightarrow> length c = length p + GCM_TAG_SIZE)"

lemma aesgcm_dec_enc: "aesgcm_ok g \<Longrightarrow> gcm_encrypt g n p a = Some c \<Longrightarrow> gcm_decrypt g n c a = Some p"
  by (simp add: aesgcm_ok_def)

lemma aesgcm_len: "aesgcm_ok g \<Longrightarrow> gcm_encrypt g n p a = Some c \<Longrightarrow> length c = length p + GCM_TAG_SIZE"
  unfolding aesgcm_ok_def by blast

section \<open>PayloadCodec\<close>

datatype frame_error =
    FrameTooShort nat
  | ReplayError nat nat
  | NonceMismatch nat
  | GcmAuthFailed
  | ReplayedNonce
  | AlreadyActivated
  | NotActivated
  | SeqOverflow
  | GcmOverflow
  | BadKeyLength nat
  | ConnClosed
  | BadMessage
  | EmptyPopitem

abbreviation SEQ_SIZE :: nat where "SEQ_SIZE \<equiv> 8"
abbreviation NONCE_SIZE :: nat where "NONCE_SIZE \<equiv> 12"
abbreviation MIN_FRAME_SIZE :: nat where "MIN_FRAME_SIZE \<equiv> SEQ_SIZE + NONCE_SIZE + GCM_TAG_SIZE"

record PayloadCodec =
  pc_aesgcm :: aesgcm
  pc_session_token :: bytes
  pc_send_seq :: nat
  pc_recv_seq :: nat

definition PayloadCodec_new :: "(bytes \<Rightarrow> aesgcm) \<Rightarrow> bytes \<Rightarrow> bytes \<Rightarrow> frame_error + PayloadCodec" where
  "PayloadCodec_new AESGCM key token =
     (if length key \<noteq> 32 then Inl (BadKeyLength (length key))
      else Inr \<lparr>pc_aesgcm = AESGCM key, pc_session_token = token, pc_send_seq = 0, pc_recv_seq = 0\<rparr>)"

text \<open>The counter is advanced before \<^verbatim>\<open>struct.pack(">Q", seq)\<close>, which raises for a
  sequence number that does not fit 64 bits.\<close>

definition PayloadCodec_encrypt :: "PayloadCodec \<Rightarrow> bytes \<Rightarrow> (frame_error + bytes) \<times> PayloadCodec" where
  "PayloadCodec_encrypt c plaintext =
     (let seq = pc_send_seq c; c' = c\<lparr>pc_send_seq := seq + 1\<rparr> in
      if seq \<ge> 256 ^ SEQ_SIZE then (Inl SeqOverflow, c')
      else
        let seq_bytes = be_bytes SEQ_SIZE seq;
            nonce = be_bytes NONCE_SIZE seq;
            aad = pc_session_token c @ seq_bytes
        in case gcm_encrypt (pc_aesgcm c) nonce plaintext aad of
             None \<Rightarrow> (Inl GcmOverflow, c')
           | Some ciphertext \<Rightarrow> (Inr (seq_bytes @ nonce @ ciphertext), c'))"

definition PayloadCodec_decrypt :: "PayloadCodec \<Rightarrow> bytes \<Rightarrow> (frame_error + bytes) \<times> PayloadCodec" where
  "PayloadCodec_decrypt c frame =
     (if length frame < MIN_FRAME_SIZE then (Inl (FrameTooShort (length frame)), c)
      else
        let seq_bytes = take SEQ_SIZE frame;
            nonce = take NONCE_SIZE (drop SEQ_SIZE frame);
            ciphertext = drop (SEQ_SIZE + NONCE_SIZE) frame;
            seq = be_nat seq_bytes
        in if seq \<noteq> pc_recv_seq c then (Inl (ReplayError (pc_recv_seq c) seq), c)
           else if nonce \<noteq> be_bytes NONCE_SIZE seq then (Inl (NonceMismatch seq), c)
           else case gcm_decrypt (pc_aesgcm c) nonce ciphertext (pc_session_token c @ seq_bytes) of
                  None \<Rightarrow> (Inl GcmAuthFailed, c)
                | Some plaintext \<Rightarrow> (Inr plaintext, c\<lparr>pc_recv_seq := pc_recv_seq c + 1\<rparr>))"

section \<open>HttpPayloadCodec\<close>

record HttpPayloadCodec =
  hc_aesgcm :: aesgcm
  hc_session_token :: bytes

definition HttpPayloadCodec_new ::
  "(bytes \<Rightarrow> aesgcm) \<Rightarrow> bytes \<Rightarrow> bytes \<Rightarrow> frame_error + HttpPayloadCodec" where
  "HttpPayloadCodec_new AESGCM key token =
     (if length key \<noteq> 32 then Inl (BadKeyLength (length key))
      else Inr \<lparr>hc_aesgcm = AESGCM key, hc_session_token = token\<rparr>)"

text \<open>The nonce is the result of \<^verbatim>\<open>os.urandom(12)\<close>, an argument here.\<close>

definition HttpPayloadCodec_encrypt :: "HttpPayloadCodec \<Rightarrow> bytes \<Rightarrow> bytes \<Rightarrow> frame_error + bytes" where
  "HttpPayloadCodec_encrypt c nonce plaintext =
     (let aad = hc_session_token c @ nonce in
      case gcm_encrypt (hc_aesgcm c) nonce plaintext aad of
        None \<Rightarrow> Inl GcmOverflow
      | Some ciphertext \<Rightarrow> Inr (nonce @ ciphertext))"

definition HttpPayloadCodec_decrypt :: "HttpPayloadCodec \<Rightarrow> bytes \<Rightarrow> frame_error + bytes" where
  "HttpPayloadCodec_decrypt c frame =
     (if length frame < NONCE_SIZE + GCM_TAG_SIZE then Inl (FrameTooShort (length frame))
      else
        let nonce = take NONCE_SIZE frame;
            ciphertext = drop NONCE_SIZE frame;
            aad = hc_session_token c @ nonce
        in case gcm_decrypt (hc_aesgcm c) nonce ciphertext aad of
             None \<Rightarrow> Inl GcmAuthFailed
           | Some plaintext \<Rightarrow> Inr plaintext)"

section \<open>SeenNonces\<close>

text \<open>Times are readings of \<^verbatim>\<open>time.monotonic()\<close>, as integers of one unit.\<close>

record SeenNonces =
  sn_ttl :: int
  sn_max_size :: nat
  sn_store :: "(bytes, int) dict"

definition SeenNonces_new :: "int \<Rightarrow> nat \<Rightarrow> SeenNonces" where
  "SeenNonces_new ttl max_size = \<lparr>sn_ttl = ttl, sn_max_size = max_size, sn_store = []\<rparr>"

text \<open>\<^verbatim>\<open>popitem(last=False)\<close> removes the oldest entry and raises \<^verbatim>\<open>KeyError\<close> on an empty
  dictionary, which \<^verbatim>\<open>max_size = 0\<close> reaches.\<close>

definition check_and_record :: "int \<Rightarrow> bytes \<Rightarrow> SeenNonces \<Rightarrow> (frame_error + unit) \<times> SeenNonces" where
  "check_and_record now nonce sn =
     (let expired = map fst (filter (\<lambda>(k, e). e \<le> now) (sn_store sn));
          store1 = fold dict_del expired (sn_store sn)
      in if dict_get store1 nonce \<noteq> None then (Inl ReplayedNonce, sn\<lparr>sn_store := store1\<rparr>)
         else if length store1 \<ge> sn_max_size sn \<and> store1 = [] then
           (Inl EmptyPopitem, sn\<lparr>sn_store := store1\<rparr>)
         else
           let store2 = (if length store1 \<ge> sn_max_size sn then tl store1 else store1)
           in (Inr (), sn\<lparr>sn_store := dict_set nonce (now + sn_ttl sn) store2\<rparr>))"

section \<open>The codec interface\<close>

text \<open>Both codecs seen through \<^verbatim>\<open>_CodecProtocol\<close>; the random nonce is an argument the
  sequence codec ignores.\<close>

fun enc_all :: "('c \<Rightarrow> bytes \<Rightarrow> bytes \<Rightarrow> (frame_error + bytes) \<times> 'c) \<Rightarrow> 'c \<Rightarrow> (bytes \<times> bytes) list
    \<Rightarrow> (frame_error + bytes list) \<times> 'c" where
  "enc_all enc s [] = (Inr [], s)"
| "enc_all enc s ((rnd, p) # ps) =
     (case enc s rnd p of
        (Inl e, s1) \<Rightarrow> (Inl e, s1)
      | (Inr f, s1) \<Rightarrow>
          (case enc_all enc s1 ps of (Inl e, s2) \<Rightarrow> (Inl e, s2) | (Inr fs, s2) \<Rightarrow> (Inr (f # fs), s2)))"

text \<open>A receiver that drops the frames it refuses.\<close>

fun accepted :: "('c \<Rightarrow> bytes \<Rightarrow> (frame_error + bytes) \<times> 'c) \<Rightarrow> 'c \<Rightarrow> bytes list \<Rightarrow> bytes list \<times> 'c" where
  "accepted dec r [] = ([], r)"
| "accepted dec r (f # fs) =
     (case dec r f of
        (Inl e, r1) \<Rightarrow> accepted dec r1 fs
      | (Inr p, r1) \<Rightarrow> (case accepted dec r1 fs of (ps, r2) \<Rightarrow> (p # ps, r2)))"

locale frame_codec =
  fixes enc :: "'c \<Rightarrow> bytes \<Rightarrow> bytes \<Rightarrow> (frame_error + bytes) \<times> 'c"
    and dec :: "'c \<Rightarrow> bytes \<Rightarrow> (frame_error + bytes) \<times> 'c"
    and in_step :: "'c \<Rightarrow> 'c \<Rightarrow> bool"
  assumes dec_enc: "in_step s r \<Longrightarrow> length rnd = NONCE_SIZE \<Longrightarrow> enc s rnd p = (Inr f, s') \<Longrightarrow>
      \<exists>r'. dec r f = (Inr p, r') \<and> in_step s' r'"
    and dec_refuse: "dec r f = (Inl e, r') \<Longrightarrow> r' = r"
begin

lemma stream_roundtrip:
  assumes "in_step s r" and "\<And>x. x \<in> set ps \<Longrightarrow> length (fst x) = NONCE_SIZE"
    and "enc_all enc s ps = (Inr fs, s')"
  shows "\<exists>r'. accepted dec r fs = (map snd ps, r') \<and> in_step s' r'"
  using assms
proof (induction ps arbitrary: s r fs)
  case (Cons x ps)
  obtain rnd p where x: "x = (rnd, p)" by fastforce
  from Cons.prems(3) obtain f s1 fs1 where e: "enc s rnd p = (Inr f, s1)"
      "enc_all enc s1 ps = (Inr fs1, s')" "fs = f # fs1"
    by (auto simp: x split: prod.splits sum.splits)
  from Cons.prems(2)[of x] have "length rnd = NONCE_SIZE" by (simp add: x)
  from dec_enc[OF Cons.prems(1) this e(1)] obtain r1 where
    r1: "dec r f = (Inr p, r1)" "in_step s1 r1" by blast
  from Cons.IH[OF r1(2) Cons.prems(2) e(2)] obtain r' where
    "accepted dec r1 fs1 = (map snd ps, r')" "in_step s' r'" by auto
  with r1 e(3) x show ?case by simp
qed simp

lemma refused_frames_skipped:
  assumes "\<And>f. f \<in> set bad \<Longrightarrow> is_error (fst (dec r f))"
  shows "accepted dec r (bad @ fs) = accepted dec r fs"
  using assms
proof (induction bad)
  case (Cons f bad)
  then obtain e r1 where "dec r f = (Inl e, r1)"
    by (cases "dec r f"; cases "fst (dec r f)") force+
  with dec_refuse[OF this] Cons show ?case by simp
qed simp

end

section \<open>The sequence codec implements the interface\<close>

definition frame_of :: "aesgcm \<Rightarrow> bytes \<Rightarrow> nat \<Rightarrow> bytes \<Rightarrow> bytes option" where
  "frame_of g token seq p =
     map_option (\<lambda>c. be_bytes SEQ_SIZE seq @ be_bytes NONCE_SIZE seq @ c)
       (gcm_encrypt g (be_bytes NONCE_SIZE seq) p (token @ be_bytes SEQ_SIZE seq))"

lemma frame_of_nonce:
  "frame_of g t n p = Some f \<Longrightarrow> take NONCE_SIZE (drop SEQ_SIZE f) = be_bytes NONCE_SIZE n"
  by (auto simp: frame_of_def simp del: be_bytes.simps)

lemma frame_of_inj:
  assumes "aesgcm_ok g" and "frame_of g t n p = Some f" and "frame_of g t m q = Some f"
    and "n < 256 ^ SEQ_SIZE" and "m < 256 ^ SEQ_SIZE"
  shows "n = m \<and> p = q"
proof
  have "take SEQ_SIZE f = be_bytes SEQ_SIZE n" if "frame_of g t n p = Some f" for n p
    using that by (auto simp: frame_of_def simp del: be_bytes.simps)
  from this[OF assms(2)] this[OF assms(3)] have "be_bytes SEQ_SIZE n = be_bytes SEQ_SIZE m"
    by (simp only:)
  with assms(4,5) show nm: "n = m" by (rule be_bytes_inj)
  from assms(2) obtain c where
    c: "gcm_encrypt g (be_bytes NONCE_SIZE n) p (t @ be_bytes SEQ_SIZE n) = Some c"
      "f = be_bytes SEQ_SIZE n @ be_bytes NONCE_SIZE n @ c"
    by (auto simp: frame_of_def simp del: be_bytes.simps)
  from assms(3) have "gcm_encrypt g (be_bytes NONCE_SIZE n) q (t @ be_bytes SEQ_SIZE n) = Some c"
    by (auto simp: frame_of_def nm c(2) simp del: be_bytes.simps)
  from aesgcm_dec_enc[OF assms(1) c(1)] aesgcm_dec_enc[OF assms(1) this] show "p = q" by simp
qed

lemma PayloadCodec_encrypt_iff:
  "PayloadCodec_encrypt c p = (Inr f, c') \<longleftrightarrow>
     pc_send_seq c < 256 ^ SEQ_SIZE
     \<and> frame_of (pc_aesgcm c) (pc_session_token c) (pc_send_seq c) p = Some f
     \<and> c' = c\<lparr>pc_send_seq := pc_send_seq c + 1\<rparr>"
  by (auto simp: PayloadCodec_encrypt_def frame_of_def Let_def simp del: be_bytes.simps
      split: option.splits)

lemma frame_split:
  assumes "length f \<ge> MIN_FRAME_SIZE"
  shows "f = take SEQ_SIZE f @ take NONCE_SIZE (drop SEQ_SIZE f) @ drop (SEQ_SIZE + NONCE_SIZE) f"
  by (metis add.commute append_take_drop_id drop_drop)

lemma PayloadCodec_decrypt_iff:
  assumes "aesgcm_ok (pc_aesgcm c)"
  shows "PayloadCodec_decrypt c f = (Inr p, c') \<longleftrightarrow>
     pc_recv_seq c < 256 ^ SEQ_SIZE
     \<and> frame_of (pc_aesgcm c) (pc_session_token c) (pc_recv_seq c) p = Some f
     \<and> c' = c\<lparr>pc_recv_seq := pc_recv_seq c + 1\<rparr>" (is "?L \<longleftrightarrow> ?R")
proof
  assume L: ?L
  let ?s = "take SEQ_SIZE f" and ?n = "take NONCE_SIZE (drop SEQ_SIZE f)"
    and ?c = "drop (SEQ_SIZE + NONCE_SIZE) f"
  from L have len: "MIN_FRAME_SIZE \<le> length f" and seq: "be_nat ?s = pc_recv_seq c"
    and n: "?n = be_bytes NONCE_SIZE (pc_recv_seq c)"
    and dec: "gcm_decrypt (pc_aesgcm c) ?n ?c (pc_session_token c @ ?s) = Some p"
    and c': "c' = c\<lparr>pc_recv_seq := pc_recv_seq c + 1\<rparr>"
    by (auto simp: PayloadCodec_decrypt_def Let_def simp del: be_bytes.simps
        split: option.splits if_splits)
  have ls: "length ?s = SEQ_SIZE" using len by simp
  have s: "?s = be_bytes SEQ_SIZE (pc_recv_seq c)"
    using be_bytes_nat[of ?s] unfolding ls seq by simp
  have "pc_recv_seq c < 256 ^ SEQ_SIZE" using be_nat_bound[of ?s] unfolding ls seq .
  moreover have "gcm_encrypt (pc_aesgcm c) ?n p (pc_session_token c @ ?s) = Some ?c"
    using dec assms by (simp add: aesgcm_ok_def)
  then have "frame_of (pc_aesgcm c) (pc_session_token c) (pc_recv_seq c) p = Some f"
    using frame_split[OF len] unfolding frame_of_def s n by simp
  ultimately show ?R using c' by simp
next
  assume R: ?R
  let ?q = "pc_recv_seq c"
  from R obtain ct where ct:
      "gcm_encrypt (pc_aesgcm c) (be_bytes NONCE_SIZE ?q) p (pc_session_token c @ be_bytes SEQ_SIZE ?q) = Some ct"
      "f = be_bytes SEQ_SIZE ?q @ be_bytes NONCE_SIZE ?q @ ct"
    by (auto simp: frame_of_def simp del: be_bytes.simps)
  from aesgcm_len[OF assms ct(1)] have len: "\<not> length f < MIN_FRAME_SIZE" by (simp add: ct(2) del: be_bytes.simps)
  have "be_nat (take SEQ_SIZE f) = ?q"
    using R be_nat_bytes[of SEQ_SIZE ?q] by (simp add: ct(2) del: be_bytes.simps)
  with len R aesgcm_dec_enc[OF assms ct(1)] show ?L
    by (simp add: PayloadCodec_decrypt_def ct(2) Let_def del: be_bytes.simps)
qed

lemma PayloadCodec_decrypt_refuse: "PayloadCodec_decrypt c f = (Inl e, c') \<Longrightarrow> c' = c"
  by (auto simp: PayloadCodec_decrypt_def Let_def split: option.splits if_splits)

definition pc_in_step :: "PayloadCodec \<Rightarrow> PayloadCodec \<Rightarrow> bool" where
  "pc_in_step s r \<longleftrightarrow>
     aesgcm_ok (pc_aesgcm s) \<and> pc_aesgcm r = pc_aesgcm s
     \<and> pc_session_token r = pc_session_token s \<and> pc_recv_seq r = pc_send_seq s"

interpretation seq_codec: frame_codec "\<lambda>c _. PayloadCodec_encrypt c" PayloadCodec_decrypt pc_in_step
proof
  show "\<exists>r'. PayloadCodec_decrypt r f = (Inr p, r') \<and> pc_in_step s' r'"
    if "pc_in_step s r" and "PayloadCodec_encrypt s p = (Inr f, s')" for s r p f s'
    using that by (auto simp: pc_in_step_def PayloadCodec_encrypt_iff PayloadCodec_decrypt_iff)
qed (rule PayloadCodec_decrypt_refuse)

section \<open>The random-nonce codec implements the interface\<close>

definition hc_enc :: "HttpPayloadCodec \<Rightarrow> bytes \<Rightarrow> bytes \<Rightarrow> (frame_error + bytes) \<times> HttpPayloadCodec" where
  "hc_enc c rnd p = (HttpPayloadCodec_encrypt c rnd p, c)"

definition hc_dec :: "HttpPayloadCodec \<Rightarrow> bytes \<Rightarrow> (frame_error + bytes) \<times> HttpPayloadCodec" where
  "hc_dec c f = (HttpPayloadCodec_decrypt c f, c)"

definition hc_in_step :: "HttpPayloadCodec \<Rightarrow> HttpPayloadCodec \<Rightarrow> bool" where
  "hc_in_step s r \<longleftrightarrow> aesgcm_ok (hc_aesgcm s) \<and> r = s"

lemma HttpPayloadCodec_decrypt_iff:
  assumes "aesgcm_ok (hc_aesgcm c)"
  shows "HttpPayloadCodec_decrypt c f = Inr p \<longleftrightarrow>
     NONCE_SIZE \<le> length f \<and> HttpPayloadCodec_encrypt c (take NONCE_SIZE f) p = Inr f" (is "?L \<longleftrightarrow> ?R")
proof -
  let ?n = "take NONCE_SIZE f" and ?c = "drop NONCE_SIZE f"
  have "HttpPayloadCodec_encrypt c ?n p = Inr f \<longleftrightarrow>
      gcm_encrypt (hc_aesgcm c) ?n p (hc_session_token c @ ?n) = Some ?c"
  proof -
    have "?n @ x = f \<longleftrightarrow> x = ?c" for x
      using same_append_eq[of ?n x ?c] by simp
    then show ?thesis
      by (simp add: HttpPayloadCodec_encrypt_def Let_def split: option.split)
  qed
  moreover have "gcm_encrypt (hc_aesgcm c) ?n p (hc_session_token c @ ?n) = Some ?c
      \<Longrightarrow> NONCE_SIZE \<le> length f \<Longrightarrow> NONCE_SIZE + GCM_TAG_SIZE \<le> length f"
    using aesgcm_len[OF assms, of ?n p "hc_session_token c @ ?n" ?c] by simp
  moreover have "gcm_decrypt (hc_aesgcm c) ?n ?c (hc_session_token c @ ?n) = Some p
      \<longleftrightarrow> gcm_encrypt (hc_aesgcm c) ?n p (hc_session_token c @ ?n) = Some ?c"
    using assms by (simp add: aesgcm_ok_def)
  ultimately show ?thesis
    by (auto simp: HttpPayloadCodec_decrypt_def Let_def split: option.splits)
qed

interpretation http_codec: frame_codec hc_enc hc_dec hc_in_step
proof
  show "\<exists>r'. hc_dec r f = (Inr p, r') \<and> hc_in_step s' r'"
    if "hc_in_step s r" "length rnd = NONCE_SIZE" and "hc_enc s rnd p = (Inr f, s')" for s r rnd p f s'
  proof -
    from that have enc: "HttpPayloadCodec_encrypt s' rnd p = Inr f" and s': "s' = s"
      by (auto simp: hc_enc_def)
    then obtain ct where "f = rnd @ ct"
      by (auto simp: HttpPayloadCodec_encrypt_def Let_def split: option.splits)
    with that(1,2) enc s' show ?thesis
      by (auto simp: hc_dec_def hc_in_step_def HttpPayloadCodec_decrypt_iff)
  qed
qed (simp add: hc_dec_def)

section \<open>What a receiver accepts\<close>

text \<open>A cipher with the laws of \<open>aesgcm_ok\<close> that computes: the identity with a tag made
  of the nonce and the associated data.\<close>

definition demo_tag :: "bytes \<Rightarrow> bytes \<Rightarrow> bytes" where
  "demo_tag n a = take GCM_TAG_SIZE (n @ a @ replicate GCM_TAG_SIZE 0)"

definition demo_gcm :: aesgcm where
  "demo_gcm =
     \<lparr>gcm_encrypt = \<lambda>n p a. Some (p @ demo_tag n a),
      gcm_decrypt = \<lambda>n c a.
        if length c \<ge> GCM_TAG_SIZE \<and> drop (length c - GCM_TAG_SIZE) c = demo_tag n a
        then Some (take (length c - GCM_TAG_SIZE) c) else None\<rparr>"

lemma length_demo_tag [simp]: "length (demo_tag n a) = GCM_TAG_SIZE"
  by (simp add: demo_tag_def)

lemma demo_gcm_ok: "aesgcm_ok demo_gcm"
proof -
  have "(p @ demo_tag n a = c) \<longleftrightarrow> length c \<ge> GCM_TAG_SIZE
      \<and> drop (length c - GCM_TAG_SIZE) c = demo_tag n a \<and> take (length c - GCM_TAG_SIZE) c = p"
    for n p a c
    by (metis add_diff_cancel_right' append_eq_conv_conj append_take_drop_id le_add2
        length_append length_demo_tag)
  then show ?thesis by (auto simp: aesgcm_ok_def demo_gcm_def)
qed

definition demo_codec :: PayloadCodec where
  "demo_codec = \<lparr>pc_aesgcm = demo_gcm, pc_session_token = [1, 2], pc_send_seq = 0, pc_recv_seq = 0\<rparr>"

lemma demo_in_step: "pc_in_step demo_codec demo_codec"
  by (simp add: pc_in_step_def demo_codec_def demo_gcm_ok)

text \<open>C11: a frame is accepted, with plaintext \<open>p\<close>, exactly when it is byte for byte the
  frame the sender in step with the receiver produces for \<open>p\<close>: no other sequence number,
  nonce, length, token or ciphertext passes.\<close>

theorem PayloadCodec_accepts_exactly:
  assumes "pc_in_step s r"
  shows "(\<exists>r'. PayloadCodec_decrypt r f = (Inr p, r')) \<longleftrightarrow> fst (PayloadCodec_encrypt s p) = Inr f"
proof -
  have "(\<exists>r'. PayloadCodec_decrypt r f = (Inr p, r')) \<longleftrightarrow>
      (\<exists>s'. PayloadCodec_encrypt s p = (Inr f, s'))"
    using assms by (auto simp: pc_in_step_def PayloadCodec_decrypt_iff PayloadCodec_encrypt_iff)
  also have "\<dots> \<longleftrightarrow> fst (PayloadCodec_encrypt s p) = Inr f"
    by (cases "PayloadCodec_encrypt s p") auto
  finally show ?thesis .
qed

theorem PayloadCodec_accepts_exactly_witness:
  "\<exists>f. fst (PayloadCodec_encrypt demo_codec [7, 8]) = Inr f
     \<and> (\<exists>r'. PayloadCodec_decrypt demo_codec f = (Inr [7, 8], r'))"
proof -
  obtain f where "fst (PayloadCodec_encrypt demo_codec [7, 8]) = Inr f"
    by (simp add: PayloadCodec_encrypt_def demo_codec_def demo_gcm_def Let_def)
  with PayloadCodec_accepts_exactly[OF demo_in_step, of f "[7, 8]"] show ?thesis by blast
qed

lemma enc_all_frames:
  assumes "enc_all (\<lambda>c _. PayloadCodec_encrypt c) s ps = (Inr fs, s')"
  shows "length fs = length ps
    \<and> (\<forall>i < length ps. pc_send_seq s + i < 256 ^ SEQ_SIZE
        \<and> frame_of (pc_aesgcm s) (pc_session_token s) (pc_send_seq s + i) (snd (ps ! i)) = Some (fs ! i))"
  using assms
proof (induction ps arbitrary: s fs)
  case (Cons x ps)
  obtain rnd p where x: "x = (rnd, p)" by fastforce
  from Cons.prems obtain f s1 fs1 where e: "PayloadCodec_encrypt s p = (Inr f, s1)"
      "enc_all (\<lambda>c _. PayloadCodec_encrypt c) s1 ps = (Inr fs1, s')" "fs = f # fs1"
    by (auto simp: x split: prod.splits sum.splits)
  from Cons.IH[OF e(2)] e(1) have IH: "length fs1 = length ps"
      "\<And>i. i < length ps \<Longrightarrow> pc_send_seq s + Suc i < 256 ^ SEQ_SIZE
        \<and> frame_of (pc_aesgcm s) (pc_session_token s) (pc_send_seq s + Suc i) (snd (ps ! i)) = Some (fs1 ! i)"
    by (auto simp: PayloadCodec_encrypt_iff)
  from e(1) have "pc_send_seq s < 256 ^ SEQ_SIZE"
      "frame_of (pc_aesgcm s) (pc_session_token s) (pc_send_seq s) p = Some f"
    by (auto simp: PayloadCodec_encrypt_iff)
  with IH show ?case by (auto simp: x e(3) nth_Cons split: nat.split)
qed simp

lemma accepted_in_order:
  assumes ok: "aesgcm_ok (pc_aesgcm r)"
    and frames: "\<And>i. i < length ps \<Longrightarrow> b + i < 256 ^ SEQ_SIZE
      \<and> frame_of (pc_aesgcm r) (pc_session_token r) (b + i) (ps ! i) = Some (fs ! i)"
    and "length fs = length ps" and "set gs \<subseteq> set fs"
    and "pc_recv_seq r = b + k" and "k \<le> length ps"
  shows "prefix (fst (accepted PayloadCodec_decrypt r gs)) (drop k ps)"
  using assms
proof (induction gs arbitrary: r k)
  case (Cons g gs)
  show ?case
  proof (cases "PayloadCodec_decrypt r g")
    case (Pair res r1)
    show ?thesis
    proof (cases res)
      case (Inl e)
      with Pair PayloadCodec_decrypt_refuse[of r g e r1] have "r1 = r" by simp
      with Inl Pair Cons.IH[of r k] Cons.prems show ?thesis by simp
    next
      case (Inr p)
      with Pair Cons.prems(1) have fr: "frame_of (pc_aesgcm r) (pc_session_token r) (b + k) p = Some g"
          "b + k < 256 ^ SEQ_SIZE" "r1 = r\<lparr>pc_recv_seq := b + Suc k\<rparr>"
        using Cons.prems(5) by (auto simp: PayloadCodec_decrypt_iff)
      from Cons.prems(3,4) obtain i where i: "i < length ps" "g = fs ! i"
        by (auto simp: in_set_conv_nth)
      from frame_of_inj[OF Cons.prems(1) fr(1), of "b + i" "ps ! i"] fr(2) i Cons.prems(2)[OF i(1)]
      have ik: "i = k" "p = ps ! k" by auto
      have "prefix (fst (accepted PayloadCodec_decrypt r1 gs)) (drop (Suc k) ps)"
        using Cons.prems i(1) ik(1) by (intro Cons.IH) (auto simp: fr(3))
      moreover have "drop k ps = p # drop (Suc k) ps"
        using i(1) ik by (simp add: Cons_nth_drop_Suc)
      ultimately show ?thesis using Inr Pair
        by (cases "accepted PayloadCodec_decrypt r1 gs") simp
    qed
  qed
qed simp

text \<open>C25: a network that drops, repeats and reorders frames cannot make the receiver
  accept anything but a prefix of what was sent: whatever sequence of the sender's frames
  arrives, the accepted plaintexts are the first plaintexts in order.\<close>

theorem PayloadCodec_accepts_prefix:
  assumes "pc_in_step s r" and "enc_all (\<lambda>c _. PayloadCodec_encrypt c) s ps = (Inr fs, s')"
    and "set gs \<subseteq> set fs"
  shows "prefix (fst (accepted PayloadCodec_decrypt r gs)) (map snd ps)"
  using accepted_in_order[of r "map snd ps" "pc_send_seq s" fs gs 0] assms enc_all_frames[OF assms(2)]
  by (simp add: pc_in_step_def)

theorem PayloadCodec_accepts_prefix_witness:
  "\<exists>f0 f1 s'. enc_all (\<lambda>c _. PayloadCodec_encrypt c) demo_codec [([], [7]), ([], [8])] = (Inr [f0, f1], s')
     \<and> prefix (fst (accepted PayloadCodec_decrypt demo_codec [f1, f0, f0])) [[7], [8]]"
proof -
  obtain f0 f1 s' where e: "enc_all (\<lambda>c _. PayloadCodec_encrypt c) demo_codec [([], [7]), ([], [8])]
      = (Inr [f0, f1], s')"
    by (simp add: PayloadCodec_encrypt_def demo_codec_def demo_gcm_def Let_def)
  from PayloadCodec_accepts_prefix[OF demo_in_step e, of "[f1, f0, f0]"] e show ?thesis by auto
qed

text \<open>no two frames of one codec carry the same nonce, whatever is sent and however
  much: the counter never wraps, since the frame number $2^{64}$ is refused.\<close>

theorem PayloadCodec_nonces_distinct:
  assumes "enc_all (\<lambda>c _. PayloadCodec_encrypt c) s ps = (Inr fs, s')"
  shows "distinct (map (\<lambda>f. take NONCE_SIZE (drop SEQ_SIZE f)) fs)"
proof -
  note fr = enc_all_frames[OF assms]
  have nonce: "take NONCE_SIZE (drop SEQ_SIZE (fs ! i)) = be_bytes NONCE_SIZE (pc_send_seq s + i)"
    if "i < length fs" for i
    using that fr by (intro frame_of_nonce) auto
  show ?thesis
  proof (simp add: distinct_conv_nth del: be_bytes.simps, intro allI impI)
    fix i j assume ij: "i < length fs" "j < length fs" "i \<noteq> j"
    have small: "pc_send_seq s + i < 256 ^ NONCE_SIZE" "pc_send_seq s + j < 256 ^ NONCE_SIZE"
      using fr ij by fastforce+
    show "take NONCE_SIZE (drop SEQ_SIZE (fs ! i)) \<noteq> take NONCE_SIZE (drop SEQ_SIZE (fs ! j))"
      using be_bytes_inj[OF small] ij nonce by fastforce
  qed
qed

theorem PayloadCodec_nonces_distinct_witness:
  "\<exists>f0 f1 s'. enc_all (\<lambda>c _. PayloadCodec_encrypt c) demo_codec [([], [7]), ([], [7])] = (Inr [f0, f1], s')
     \<and> distinct (map (\<lambda>f. take NONCE_SIZE (drop SEQ_SIZE f)) [f0, f1])"
proof -
  obtain f0 f1 s' where e: "enc_all (\<lambda>c _. PayloadCodec_encrypt c) demo_codec [([], [7]), ([], [7])]
      = (Inr [f0, f1], s')"
    by (simp add: PayloadCodec_encrypt_def demo_codec_def demo_gcm_def Let_def)
  from PayloadCodec_nonces_distinct[OF e] e show ?thesis by blast
qed

text \<open>at the last sequence number the codec stops instead of wrapping: encryption
  raises, and every later call raises too.\<close>

theorem PayloadCodec_seq_exhausted:
  assumes "pc_send_seq c \<ge> 2 ^ 64"
  shows "fst (PayloadCodec_encrypt c p) = Inl SeqOverflow
    \<and> pc_send_seq (snd (PayloadCodec_encrypt c p)) \<ge> 2 ^ 64"
  using assms by (simp add: PayloadCodec_encrypt_def Let_def)

theorem PayloadCodec_seq_exhausted_witness:
  "fst (PayloadCodec_encrypt (demo_codec\<lparr>pc_send_seq := 2 ^ 64\<rparr>) [7]) = Inl SeqOverflow"
  using PayloadCodec_seq_exhausted[of "demo_codec\<lparr>pc_send_seq := 2 ^ 64\<rparr>" "[7]"] by simp

section \<open>The set of seen nonces\<close>

definition sn_inv :: "SeenNonces \<Rightarrow> bool" where
  "sn_inv sn \<longleftrightarrow> dict_ok (sn_store sn) \<and> length (sn_store sn) \<le> sn_max_size sn"

text \<open>The entries that survive the pruning, and the removal of the oldest entry of a
  full set.\<close>

definition unexpired :: "int \<Rightarrow> (bytes, int) dict \<Rightarrow> (bytes, int) dict" where
  "unexpired now st = filter (\<lambda>x. \<not> (\<lambda>(k, e). e \<le> now) x) st"

definition evict :: "nat \<Rightarrow> (bytes, int) dict \<Rightarrow> (bytes, int) dict" where
  "evict n st = (if n \<le> length st then tl st else st)"

lemma unexpired_append: "unexpired now (xs @ ys) = unexpired now xs @ unexpired now ys"
  and unexpired_Cons: "now < e \<Longrightarrow> unexpired now ((n, e) # ys) = (n, e) # unexpired now ys"
  and unexpired_ok: "dict_ok st \<Longrightarrow> dict_ok (unexpired now st)"
  and unexpired_le: "length (unexpired now st) \<le> length st"
  by (simp_all add: unexpired_def dict_ok_filter)

lemma evict_notin: "k \<notin> fst ` set st \<Longrightarrow> k \<notin> fst ` set (evict n st)"
  by (cases st) (auto simp: evict_def)

lemma evict_ok: "dict_ok st \<Longrightarrow> dict_ok (evict n st)"
  by (simp add: evict_def dict_ok_tl)

lemma evict_room: "length st \<le> n \<Longrightarrow> st \<noteq> [] \<or> 0 < n \<Longrightarrow> length (evict n st) < n"
  by (cases st) (auto simp: evict_def)

lemma evict_young:
  assumes "Suc (length ys) < n"
  shows "\<exists>xs'. evict n (xs @ y # ys) = xs' @ y # ys"
  using assms by (cases xs) (auto simp: evict_def)

lemma check_and_record_eq:
  assumes "dict_ok (sn_store sn)" and "unexpired now (sn_store sn) = st"
  shows "check_and_record now nonce sn =
     (if nonce \<in> fst ` set st then (Inl ReplayedNonce, sn\<lparr>sn_store := st\<rparr>)
      else if sn_max_size sn = 0 \<and> st = [] then (Inl EmptyPopitem, sn\<lparr>sn_store := st\<rparr>)
      else (Inr (), sn\<lparr>sn_store := evict (sn_max_size sn) st @ [(nonce, now + sn_ttl sn)]\<rparr>))"
proof -
  have prune: "fold dict_del (map fst (filter (\<lambda>(k, e). e \<le> now) (sn_store sn))) (sn_store sn) = st"
    using dict_prune[OF assms(1)] assms(2) by (simp add: unexpired_def)
  have new: "dict_set nonce v (evict n st) = evict n st @ [(nonce, v)]"
    if "nonce \<notin> fst ` set st" for v n
    using evict_notin[OF that] by (rule dict_set_new)
  show ?thesis
    unfolding check_and_record_def prune Let_def
    using new[of "now + sn_ttl sn" "sn_max_size sn"] unfolding evict_def
    by (auto simp: dict_get_None)
qed

abbreviation sn_step :: "int \<times> bytes \<Rightarrow> SeenNonces \<Rightarrow> SeenNonces" where
  "sn_step x sn \<equiv> snd (check_and_record (fst x) (snd x) sn)"

lemma sn_step_frame [simp]: "sn_ttl (sn_step x sn) = sn_ttl sn" "sn_max_size (sn_step x sn) = sn_max_size sn"
  by (simp_all add: check_and_record_def Let_def)

lemma sn_inv_step: "sn_inv sn \<Longrightarrow> sn_inv (sn_step x sn)"
proof -
  assume inv: "sn_inv sn"
  define st where "st = unexpired (fst x) (sn_store sn)"
  have ok: "dict_ok st" and len: "length st \<le> sn_max_size sn"
    using inv le_trans[OF unexpired_le] by (auto simp: sn_inv_def st_def unexpired_ok)
  have "check_and_record (fst x) (snd x) sn = (if snd x \<in> fst ` set st then (Inl ReplayedNonce, sn\<lparr>sn_store := st\<rparr>)
      else if sn_max_size sn = 0 \<and> st = [] then (Inl EmptyPopitem, sn\<lparr>sn_store := st\<rparr>)
      else (Inr (), sn\<lparr>sn_store := evict (sn_max_size sn) st @ [(snd x, fst x + sn_ttl sn)]\<rparr>))"
    using inv by (intro check_and_record_eq) (auto simp: sn_inv_def st_def)
  then show ?thesis
    using ok len evict_ok[OF ok] evict_notin[of "snd x" st "sn_max_size sn"] evict_room[OF len]
    by (auto simp: sn_inv_def dict_ok_snoc Suc_le_eq)
qed

interpretation sn_machine: invariant_machine sn_step sn_inv
  by unfold_locales (rule sn_inv_step)

text \<open>the set never holds more than \<open>max_size\<close> nonces and never one nonce twice,
  whatever calls were made at whatever times.\<close>

theorem SeenNonces_bounded:
  "length (sn_store (fold sn_step xs (SeenNonces_new ttl n))) \<le> n
   \<and> distinct (map fst (sn_store (fold sn_step xs (SeenNonces_new ttl n))))"
proof -
  have "sn_inv (fold sn_step xs (SeenNonces_new ttl n))"
    by (rule sn_machine.run_inv) (simp add: sn_inv_def SeenNonces_new_def)
  moreover have "sn_max_size (fold sn_step xs sn) = sn_max_size sn" for sn
    by (induction xs arbitrary: sn) simp_all
  ultimately show ?thesis by (simp add: sn_inv_def dict_ok_def SeenNonces_new_def)
qed

text \<open>A nonce recorded with expiry \<open>e\<close> and at most \<open>m\<close> younger entries.\<close>

definition sn_holds :: "bytes \<Rightarrow> int \<Rightarrow> nat \<Rightarrow> SeenNonces \<Rightarrow> bool" where
  "sn_holds n e m sn \<longleftrightarrow>
     dict_ok (sn_store sn) \<and> (\<exists>xs ys. sn_store sn = xs @ (n, e) # ys \<and> length ys \<le> m)"

lemma sn_holdsI:
  "sn_store sn = xs @ (n, e) # ys \<Longrightarrow> dict_ok (xs @ (n, e) # ys) \<Longrightarrow> length ys \<le> m \<Longrightarrow> sn_holds n e m sn"
  by (simp add: sn_holds_def) blast

lemma sn_holds_step:
  assumes "sn_holds n e m sn" and "now < e" and "Suc m < sn_max_size sn"
  shows "sn_holds n e (Suc m) (sn_step (now, n') sn)"
proof -
  obtain xs ys where st: "sn_store sn = xs @ (n, e) # ys" "length ys \<le> m" "dict_ok (sn_store sn)"
    using assms(1) by (auto simp: sn_holds_def)
  let ?xs = "unexpired now xs" and ?ys = "unexpired now ys"
  have F: "unexpired now (sn_store sn) = ?xs @ (n, e) # ?ys"
    using st(1) assms(2) by (simp add: unexpired_append unexpired_Cons)
  have ok: "dict_ok (?xs @ (n, e) # ?ys)" using unexpired_ok[OF st(3), of now] F by simp
  have ly: "length ?ys \<le> m" using st(2) le_trans[OF unexpired_le] by blast
  then obtain xs' where ev: "evict (sn_max_size sn) (?xs @ (n, e) # ?ys) = xs' @ (n, e) # ?ys"
    using evict_young[of ?ys "sn_max_size sn"] assms(3) by fastforce
  note eq = check_and_record_eq[OF st(3) F, of n']
  show ?thesis
  proof (cases "n' \<in> fst ` set (?xs @ (n, e) # ?ys)")
    case True
    with ok ly show ?thesis by (intro sn_holdsI[of _ ?xs n e ?ys]) (simp_all add: eq)
  next
    case False
    with eq ev have new: "sn_store (sn_step (now, n') sn) = xs' @ (n, e) # ?ys @ [(n', now + sn_ttl sn)]"
      by simp
    have "dict_ok (xs' @ (n, e) # ?ys @ [(n', now + sn_ttl sn)])"
      using evict_ok[OF ok, of "sn_max_size sn"] evict_notin[OF False, of "sn_max_size sn"]
        dict_ok_snoc[of "xs' @ (n, e) # ?ys" n'] unfolding ev by simp
    with new ly show ?thesis by (intro sn_holdsI[OF new]) simp_all
  qed
qed

lemma sn_holds_run:
  assumes "sn_holds n e m sn" and "\<And>x. x \<in> set xs \<Longrightarrow> fst x < e" and "m + length xs < sn_max_size sn"
  shows "sn_holds n e (m + length xs) (fold sn_step xs sn)"
  using assms
proof (induction xs arbitrary: m sn)
  case (Cons x xs)
  obtain now n' where x: "x = (now, n')" by fastforce
  have "sn_holds n e (Suc m) (sn_step x sn)"
    using sn_holds_step[OF Cons.prems(1), of now n'] Cons.prems(2)[of x] Cons.prems(3) by (simp add: x)
  from Cons.IH[OF this] Cons.prems(2,3) show ?case by simp
qed simp

lemma sn_holds_refuse:
  assumes "sn_holds n e m sn" and "now < e"
  shows "fst (check_and_record now n sn) = Inl ReplayedNonce"
proof -
  obtain xs ys where st: "sn_store sn = xs @ (n, e) # ys" "dict_ok (sn_store sn)"
    using assms(1) by (auto simp: sn_holds_def)
  have "unexpired now (sn_store sn) = unexpired now xs @ (n, e) # unexpired now ys"
    using st(1) assms(2) by (simp add: unexpired_append unexpired_Cons)
  from check_and_record_eq[OF st(2) this, of n] show ?thesis by simp
qed

text \<open>C24: a recorded nonce is refused for the whole time to live, as long as fewer than
  \<open>max_size\<close> other calls were made in between; beyond that bound the oldest entry is evicted
  and the guarantee ends.\<close>

theorem SeenNonces_refuses_replay:
  assumes "sn_inv sn" and "check_and_record t n sn = (Inr (), sn1)"
    and "\<And>x. x \<in> set xs \<Longrightarrow> fst x < t + sn_ttl sn" and "length xs < sn_max_size sn"
    and "now < t + sn_ttl sn"
  shows "fst (check_and_record now n (fold sn_step xs sn1)) = Inl ReplayedNonce"
proof -
  have ok: "dict_ok (sn_store sn)" using assms(1) by (simp add: sn_inv_def)
  have inv: "sn_inv sn1" using sn_inv_step[OF assms(1), of "(t, n)"] assms(2) by simp
  from check_and_record_eq[OF ok refl, of t n] assms(2)
  have "sn_store sn1 = evict (sn_max_size sn) (unexpired t (sn_store sn)) @ [(n, t + sn_ttl sn)]"
      "sn_max_size sn1 = sn_max_size sn"
    by (auto split: if_splits)
  with inv have "sn_holds n (t + sn_ttl sn) 0 sn1" by (auto simp: sn_holds_def sn_inv_def)
  from sn_holds_run[OF this assms(3)] assms(4) \<open>sn_max_size sn1 = _\<close>
  have "sn_holds n (t + sn_ttl sn) (0 + length xs) (fold sn_step xs sn1)" by simp
  then show ?thesis using assms(5) by (rule sn_holds_refuse)
qed

theorem SeenNonces_refuses_replay_witness:
  "fst (check_and_record 20 [1] (fold sn_step [(11, [2]), (12, [3])]
     (snd (check_and_record 10 [1] (SeenNonces_new 300 3))))) = Inl ReplayedNonce"
proof -
  have inv: "sn_inv (SeenNonces_new 300 3)" by (simp add: sn_inv_def SeenNonces_new_def)
  have r: "check_and_record 10 [1] (SeenNonces_new 300 3)
      = (Inr (), snd (check_and_record 10 [1] (SeenNonces_new 300 3)))"
    by (simp add: check_and_record_def SeenNonces_new_def)
  show ?thesis
    by (rule SeenNonces_refuses_replay[OF inv r]) (auto simp: SeenNonces_new_def)
qed

text \<open>the bound of the previous statement is sharp: with \<open>max_size\<close> other nonces in
  between, a replayed nonce is accepted again long before it expires.\<close>

theorem SeenNonces_flood_forgets:
  "fst (check_and_record 20 [1] (fold sn_step [(11, [2]), (12, [3]), (13, [4])]
     (snd (check_and_record 10 [1] (SeenNonces_new 300 3))))) = Inr ()"
  by (simp add: check_and_record_def SeenNonces_new_def)

end
