(* ===== verification/Framing.thy ===== *)
theory Framing
  imports Messages Payload_Codec
begin

text \<open>
  \<^verbatim>\<open>protocol/framing.py\<close>: \<open>FramedConnection\<close>, a message channel over a transport, plain
  during the handshake and encrypted once a codec is activated.  A transport is a queue
  of frames to read and the frames written; reading an empty queue is a closed connection.
  The JSON reader and printer of pydantic are the parameter \<open>wire\<close>: text to field values
  and back.  The checks pydantic then runs on the fields are those of theory \<open>Messages\<close>.
\<close>

section \<open>The channel\<close>

record wire =
  wr_dump :: "AnyMsg \<Rightarrow> bytes"
  wr_decode :: "bytes \<Rightarrow> AnyMsg option"

definition parse_json :: "wire \<Rightarrow> bytes \<Rightarrow> frame_error + AnyMsg" where
  "parse_json w raw =
     (case wr_decode w raw of
        None \<Rightarrow> Inl BadMessage
      | Some m \<Rightarrow> (case validate_msg m of Inl _ \<Rightarrow> Inl BadMessage | Inr m' \<Rightarrow> Inr m'))"

datatype codec = SeqCodec PayloadCodec | HttpCodec HttpPayloadCodec

fun codec_encrypt :: "codec \<Rightarrow> bytes \<Rightarrow> bytes \<Rightarrow> (frame_error + bytes) \<times> codec" where
  "codec_encrypt (SeqCodec c) rnd p = map_prod id SeqCodec (PayloadCodec_encrypt c p)"
| "codec_encrypt (HttpCodec c) rnd p = (HttpPayloadCodec_encrypt c rnd p, HttpCodec c)"

fun codec_decrypt :: "codec \<Rightarrow> bytes \<Rightarrow> (frame_error + bytes) \<times> codec" where
  "codec_decrypt (SeqCodec c) f = map_prod id SeqCodec (PayloadCodec_decrypt c f)"
| "codec_decrypt (HttpCodec c) f = (HttpPayloadCodec_decrypt c f, HttpCodec c)"

record conn =
  cn_inbox :: "bytes list"
  cn_sent :: "bytes list"

record FramedConnection =
  fc_conn :: conn
  fc_codec :: "codec option"

definition FramedConnection_new :: "conn \<Rightarrow> FramedConnection" where
  "FramedConnection_new cn = \<lparr>fc_conn = cn, fc_codec = None\<rparr>"

definition activate :: "codec \<Rightarrow> FramedConnection \<Rightarrow> frame_error + FramedConnection" where
  "activate c fc =
     (if fc_codec fc \<noteq> None then Inl AlreadyActivated else Inr (fc\<lparr>fc_codec := Some c\<rparr>))"

definition is_encrypted :: "FramedConnection \<Rightarrow> bool" where
  "is_encrypted fc \<longleftrightarrow> fc_codec fc \<noteq> None"

abbreviation conn_send :: "bytes \<Rightarrow> FramedConnection \<Rightarrow> FramedConnection" where
  "conn_send f fc \<equiv> fc\<lparr>fc_conn := (fc_conn fc)\<lparr>cn_sent := cn_sent (fc_conn fc) @ [f]\<rparr>\<rparr>"

definition conn_recv :: "FramedConnection \<Rightarrow> (frame_error + bytes) \<times> FramedConnection" where
  "conn_recv fc =
     (case cn_inbox (fc_conn fc) of
        [] \<Rightarrow> (Inl ConnClosed, fc)
      | f # fs \<Rightarrow> (Inr f, fc\<lparr>fc_conn := (fc_conn fc)\<lparr>cn_inbox := fs\<rparr>\<rparr>))"

definition send_plain :: "wire \<Rightarrow> AnyMsg \<Rightarrow> FramedConnection \<Rightarrow> FramedConnection" where
  "send_plain w m fc = conn_send (wr_dump w m) fc"

definition recv_plain :: "wire \<Rightarrow> FramedConnection \<Rightarrow> (frame_error + AnyMsg) \<times> FramedConnection" where
  "recv_plain w fc =
     (case conn_recv fc of
        (Inl e, fc1) \<Rightarrow> (Inl e, fc1)
      | (Inr f, fc1) \<Rightarrow> (parse_json w f, fc1))"

definition framed_send :: "wire \<Rightarrow> bytes \<Rightarrow> AnyMsg \<Rightarrow> FramedConnection \<Rightarrow> (frame_error + unit) \<times> FramedConnection" where
  "framed_send w rnd m fc =
     (case fc_codec fc of
        None \<Rightarrow> (Inl NotActivated, fc)
      | Some c \<Rightarrow>
          (case codec_encrypt c rnd (wr_dump w m) of
             (Inl e, c') \<Rightarrow> (Inl e, fc\<lparr>fc_codec := Some c'\<rparr>)
           | (Inr f, c') \<Rightarrow> (Inr (), conn_send f (fc\<lparr>fc_codec := Some c'\<rparr>))))"

definition framed_recv :: "wire \<Rightarrow> FramedConnection \<Rightarrow> (frame_error + AnyMsg) \<times> FramedConnection" where
  "framed_recv w fc =
     (case fc_codec fc of
        None \<Rightarrow> (Inl NotActivated, fc)
      | Some c \<Rightarrow>
          (case conn_recv fc of
             (Inl e, fc1) \<Rightarrow> (Inl e, fc1)
           | (Inr f, fc1) \<Rightarrow>
               (case codec_decrypt c f of
                  (Inl e, c') \<Rightarrow> (Inl e, fc1\<lparr>fc_codec := Some c'\<rparr>)
                | (Inr p, c') \<Rightarrow> (parse_json w p, fc1\<lparr>fc_codec := Some c'\<rparr>))))"

section \<open>Either codec keeps the interface\<close>

fun codec_in_step :: "codec \<Rightarrow> codec \<Rightarrow> bool" where
  "codec_in_step (SeqCodec s) (SeqCodec r) = pc_in_step s r"
| "codec_in_step (HttpCodec s) (HttpCodec r) = hc_in_step s r"
| "codec_in_step _ _ = False"

interpretation any_codec: frame_codec codec_encrypt codec_decrypt codec_in_step
proof
  show "\<exists>r'. codec_decrypt r f = (Inr p, r') \<and> codec_in_step s' r'"
    if "codec_in_step s r" "length rnd = NONCE_SIZE" "codec_encrypt s rnd p = (Inr f, s')"
    for s r rnd p f s'
  proof (cases s)
    case (SeqCodec a)
    with that obtain b a' where "r = SeqCodec b" "pc_in_step a b"
        "PayloadCodec_encrypt a p = (Inr f, a')" "s' = SeqCodec a'"
      by (cases r; cases "PayloadCodec_encrypt a p") auto
    with that(2) seq_codec.dec_enc show ?thesis by fastforce
  next
    case (HttpCodec a)
    with that obtain b where "r = HttpCodec b" "hc_in_step a b"
        "hc_enc a rnd p = (Inr f, a)" "s' = HttpCodec a"
      by (cases r) (auto simp: hc_enc_def)
    with that(2) http_codec.dec_enc show ?thesis by (fastforce simp: hc_dec_def)
  qed
  show "r' = r" if "codec_decrypt r f = (Inl e, r')" for r f e r'
  proof (cases r)
    case (SeqCodec c)
    with that PayloadCodec_decrypt_refuse[of c f e] show ?thesis
      by (cases "PayloadCodec_decrypt c f") auto
  qed (use that in simp)
qed

section \<open>Messages over the channel\<close>

fun send_all :: "wire \<Rightarrow> (bytes \<times> AnyMsg) list \<Rightarrow> FramedConnection \<Rightarrow> (frame_error + unit) \<times> FramedConnection" where
  "send_all w [] fc = (Inr (), fc)"
| "send_all w ((rnd, m) # ms) fc =
     (case framed_send w rnd m fc of
        (Inl e, fc1) \<Rightarrow> (Inl e, fc1)
      | (Inr _, fc1) \<Rightarrow> send_all w ms fc1)"

fun recv_n :: "wire \<Rightarrow> nat \<Rightarrow> FramedConnection \<Rightarrow> (frame_error + AnyMsg) list \<times> FramedConnection" where
  "recv_n w 0 fc = ([], fc)"
| "recv_n w (Suc n) fc =
     (case framed_recv w fc of (r, fc1) \<Rightarrow> (case recv_n w n fc1 of (rs, fc2) \<Rightarrow> (r # rs, fc2)))"

lemma parse_json_Inr: "parse_json w raw = Inr m \<Longrightarrow> valid_msg m"
  by (auto simp: parse_json_def validate_msg_Inr split: option.splits sum.splits)

lemma parse_json_dump:
  "wr_decode w (wr_dump w m) = Some m \<Longrightarrow> valid_msg m \<Longrightarrow> parse_json w (wr_dump w m) = Inr m"
  by (simp add: parse_json_def validate_msg_def)

text \<open>The frames a channel has in flight: what one end has sent and the other has not read.\<close>

definition channel_ok :: "codec \<Rightarrow> FramedConnection \<Rightarrow> bool" where
  "channel_ok c b \<longleftrightarrow> (\<exists>d. fc_codec b = Some d \<and> codec_in_step c d)"

lemma framed_send_Inr:
  assumes "framed_send w rnd m a = (Inr u, a')"
  obtains c c' f where "fc_codec a = Some c" "codec_encrypt c rnd (wr_dump w m) = (Inr f, c')"
    "fc_codec a' = Some c'" "cn_sent (fc_conn a') = cn_sent (fc_conn a) @ [f]"
  using assms by (auto simp: framed_send_def split: option.splits prod.splits sum.splits)

lemma send_recv_all:
  assumes "send_all w ms a = (Inr u, a')" and "fc_codec a = Some c" and "channel_ok c b"
    and "cn_sent (fc_conn a') = cn_sent (fc_conn a) @ cn_inbox (fc_conn b)"
    and "\<And>x. x \<in> set ms \<Longrightarrow> length (fst x) = NONCE_SIZE \<and> valid_msg (snd x)
       \<and> wr_decode w (wr_dump w (snd x)) = Some (snd x)"
  shows "fst (recv_n w (length ms) b) = map (Inr \<circ> snd) ms"
  using assms
proof (induction ms arbitrary: a b c)
  case (Cons x ms)
  obtain rnd m where x: "x = (rnd, m)" by fastforce
  from Cons.prems(1) obtain a1 where a1: "framed_send w rnd m a = (Inr (), a1)" "send_all w ms a1 = (Inr u, a')"
    by (auto simp: x split: prod.splits sum.splits)
  from a1(1) obtain c' f where f: "codec_encrypt c rnd (wr_dump w m) = (Inr f, c')"
      "fc_codec a1 = Some c'" "cn_sent (fc_conn a1) = cn_sent (fc_conn a) @ [f]"
    using Cons.prems(2) by (auto elim: framed_send_Inr)
  have grow: "\<exists>fs. cn_sent (fc_conn a') = cn_sent (fc_conn a1) @ fs"
    using a1(2)
  proof (induction ms arbitrary: a1)
    case (Cons y ms)
    then show ?case
      by (cases y) (force split: prod.splits sum.splits elim: framed_send_Inr)
  qed simp
  then obtain fs where fs: "cn_sent (fc_conn a') = cn_sent (fc_conn a1) @ fs" ..
  with Cons.prems(4) f(3) have inbox: "cn_inbox (fc_conn b) = f # fs" by simp
  from Cons.prems(3) obtain d where d: "fc_codec b = Some d" "codec_in_step c d"
    by (auto simp: channel_ok_def)
  from Cons.prems(5)[of x] x have m: "length rnd = NONCE_SIZE" "valid_msg m"
      "wr_decode w (wr_dump w m) = Some m" by auto
  from any_codec.dec_enc[OF d(2) m(1) f(1)] obtain d' where
    d': "codec_decrypt d f = (Inr (wr_dump w m), d')" "codec_in_step c' d'" by blast
  define b1 where "b1 = b\<lparr>fc_conn := (fc_conn b)\<lparr>cn_inbox := fs\<rparr>, fc_codec := Some d'\<rparr>"
  have r: "framed_recv w b = (Inr m, b1)"
    using d(1) d'(1) m by (simp add: framed_recv_def conn_recv_def inbox b1_def parse_json_dump)
  have "fst (recv_n w (length ms) b1) = map (Inr \<circ> snd) ms"
    using Cons.IH[OF a1(2) f(2)] Cons.prems(5) d'(2) fs by (simp add: channel_ok_def b1_def)
  then show ?case using r by (cases "recv_n w (length ms) b1") (simp add: x)
qed simp

text \<open>C12: with either codec, messages arrive as they were sent: if every send succeeds and
  the receiver, in step with the sender, reads what the sender's transport carried, it
  receives exactly those messages in order.\<close>

theorem framed_roundtrip:
  assumes "send_all w ms a = (Inr u, a')" and "fc_codec a = Some c" and "channel_ok c b"
    and "cn_sent (fc_conn a') = cn_sent (fc_conn a) @ cn_inbox (fc_conn b)"
    and "\<And>x. x \<in> set ms \<Longrightarrow> length (fst x) = NONCE_SIZE \<and> valid_msg (snd x)
       \<and> wr_decode w (wr_dump w (snd x)) = Some (snd x)"
  shows "fst (recv_n w (length ms) b) = map (Inr \<circ> snd) ms"
  using assms by (rule send_recv_all)

text \<open>A reader and printer for pings, to exercise the channel.\<close>

definition ping_wire :: wire where
  "ping_wire =
     \<lparr>wr_dump = \<lambda>m. case m of PingMsg t \<Rightarrow> be_bytes 8 (nat t) | _ \<Rightarrow> [],
      wr_decode = \<lambda>b. if b = [] then None else Some (PingMsg (int (be_nat b)))\<rparr>"

definition demo_sender :: FramedConnection where
  "demo_sender = \<lparr>fc_conn = \<lparr>cn_inbox = [], cn_sent = []\<rparr>, fc_codec = Some (SeqCodec demo_codec)\<rparr>"

definition demo_pings :: "(bytes \<times> AnyMsg) list" where
  "demo_pings = [(replicate 12 0, PingMsg 5), (replicate 12 0, PingMsg 9)]"

definition demo_receiver :: FramedConnection where
  "demo_receiver =
     \<lparr>fc_conn = \<lparr>cn_inbox = cn_sent (fc_conn (snd (send_all ping_wire demo_pings demo_sender))), cn_sent = []\<rparr>,
      fc_codec = Some (SeqCodec demo_codec)\<rparr>"

theorem framed_roundtrip_witness:
  "fst (recv_n ping_wire 2 demo_receiver) = [Inr (PingMsg 5), Inr (PingMsg 9)]"
proof -
  have sent: "send_all ping_wire demo_pings demo_sender
      = (Inr (), snd (send_all ping_wire demo_pings demo_sender))"
    by (simp add: demo_pings_def demo_sender_def framed_send_def PayloadCodec_encrypt_def
        demo_codec_def demo_gcm_def Let_def)
  have c: "fc_codec demo_sender = Some (SeqCodec demo_codec)" by (simp add: demo_sender_def)
  have ok: "channel_ok (SeqCodec demo_codec) demo_receiver"
    by (simp add: channel_ok_def demo_receiver_def demo_in_step)
  have q: "cn_sent (fc_conn (snd (send_all ping_wire demo_pings demo_sender)))
      = cn_sent (fc_conn demo_sender) @ cn_inbox (fc_conn demo_receiver)"
    by (simp add: demo_receiver_def) (simp add: demo_sender_def)
  have m: "length (fst x) = NONCE_SIZE \<and> valid_msg (snd x)
       \<and> wr_decode ping_wire (wr_dump ping_wire (snd x)) = Some (snd x)"
    if "x \<in> set demo_pings" for x
    using that by (auto simp: demo_pings_def ping_wire_def be_nat_bytes)
      (auto dest: arg_cong[of _ _ length])
  show ?thesis
    using framed_roundtrip[OF sent c ok q m] by (simp add: demo_pings_def eval_nat_numeral)
qed


text \<open>Those keys are paths too, and are not checked: any string passes as the path of a record.\<close>

lemma sync_state_keys_unchecked:
  "FileEntrySnapshot_errors s = [] \<Longrightarrow> valid_msg (SyncStateMsg sid node [(p, s)])"
  by simp

definition delete_wire :: wire where
  "delete_wire = \<lparr>wr_dump = \<lambda>_. [], wr_decode = \<lambda>b. Some (FileDeleteMsg (map (char_of \<circ> unat) b) 0)\<rparr>"


text \<open>before \<open>activate\<close> nothing can be sent or received encrypted and nothing reaches the
  transport; \<open>activate\<close> succeeds exactly once.\<close>

theorem encrypted_mode_guarded:
  "(fc_codec fc = None \<longrightarrow> framed_send w rnd m fc = (Inl NotActivated, fc)
      \<and> framed_recv w fc = (Inl NotActivated, fc))
   \<and> (case activate c fc of
        Inl e \<Rightarrow> e = AlreadyActivated \<and> is_encrypted fc
      | Inr fc' \<Rightarrow> \<not> is_encrypted fc \<and> is_encrypted fc' \<and> activate c2 fc' = Inl AlreadyActivated)"
  by (auto simp: framed_send_def framed_recv_def activate_def is_encrypted_def)

theorem encrypted_mode_guarded_witness:
  "framed_send ping_wire [] (PingMsg 1) (FramedConnection_new \<lparr>cn_inbox = [], cn_sent = []\<rparr>)
     = (Inl NotActivated, FramedConnection_new \<lparr>cn_inbox = [], cn_sent = []\<rparr>)"
  using encrypted_mode_guarded[of "FramedConnection_new \<lparr>cn_inbox = [], cn_sent = []\<rparr>" ping_wire "[]" "PingMsg 1"]
  by (simp add: FramedConnection_new_def)

end
