(* ===== verification/Engine.thy ===== *)
theory Engine
  imports Framing "HOL-Library.List_Lexorder" "HOL-Library.Char_ord"
begin

text \<open>
  \<^verbatim>\<open>delta.py\<close> and \<^verbatim>\<open>sync/engine.py\<close>: binary deltas, the choice between a delta and the full
  content, chunking, the outbound transfer, and the per-path locks.  The xdelta3 library is the
  parameter \<open>xdelta\<close>.  The channel is seen through what it carries: the messages sent and the
  results of \<^verbatim>\<open>framed.recv()\<close>; theory \<open>Framing\<close> relates these to frames.  The tasks that share
  an engine are interleaved by a step relation over their lock programs.
\<close>

section \<open>Deltas\<close>

text \<open>\<^verbatim>\<open>xdelta3.encode\<close> raises \<^verbatim>\<open>NoDeltaFound\<close> (\<open>None\<close>); \<^verbatim>\<open>xdelta3.decode\<close> raises on a bad delta
  (\<open>None\<close>).\<close>

record xdelta =
  xd_encode :: "bytes \<Rightarrow> bytes \<Rightarrow> bytes option"
  xd_decode :: "bytes \<Rightarrow> bytes \<Rightarrow> bytes option"

definition VCDIFF_MAGIC :: bytes where
  "VCDIFF_MAGIC = [0xD6, 0xC3, 0xC4]"

datatype delta_error = EmptyDelta | NotVcdiff | DecodeFailed | EmptyOutput | NoBase

definition compute_delta :: "xdelta \<Rightarrow> bytes \<Rightarrow> bytes \<Rightarrow> bytes option" where
  "compute_delta xd old new = xd_encode xd old new"

definition apply_delta :: "xdelta \<Rightarrow> bytes \<Rightarrow> bytes \<Rightarrow> delta_error + bytes" where
  "apply_delta xd old delta =
     (if delta = [] then Inl EmptyDelta
      else if take 3 delta \<noteq> VCDIFF_MAGIC then Inl NotVcdiff
      else case xd_decode xd old delta of
             None \<Rightarrow> Inl DecodeFailed
           | Some result \<Rightarrow> if result = [] then Inl EmptyOutput else Inr result)"

text \<open>What RFC 3284 and the library promise: a delta starts with the magic and decodes to the
  target it was made for.\<close>

definition xdelta_ok :: "xdelta \<Rightarrow> bool" where
  "xdelta_ok xd \<longleftrightarrow>
     (\<forall>old new d. xd_encode xd old new = Some d \<longrightarrow>
        take 3 d = VCDIFF_MAGIC \<and> xd_decode xd old d = Some new)"

section \<open>Chunks and payload\<close>

definition CHUNK_SIZE :: nat where
  "CHUNK_SIZE = 262144"

text \<open>The loop over \<^verbatim>\<open>offset\<close>, on what is left of the data.\<close>

function chunk_loop :: "bytes \<Rightarrow> bytes list" where
  "chunk_loop data = (if data = [] then [] else take CHUNK_SIZE data # chunk_loop (drop CHUNK_SIZE data))"
  by pat_completeness auto
termination
  by (relation "measure length") (auto simp: CHUNK_SIZE_def)

declare chunk_loop.simps [simp del]

definition split_chunks :: "bytes \<Rightarrow> bytes list" where
  "split_chunks data = (if data = [] then [[]] else chunk_loop data)"

text \<open>The comparison \<^verbatim>\<open>len(delta) / max(len(content), 1) <= 0.80\<close> on integers.  Division rounds
  monotonically, and two quotients on different sides of $4/5$ differ by at least $1/(5n)$, far more
  than one unit in the last place for every length below $2^{50}$, so the rounded comparison is exact.\<close>

definition below_threshold :: "nat \<Rightarrow> nat \<Rightarrow> bool" where
  "below_threshold d n \<longleftrightarrow> 5 * d \<le> 4 * max n 1"

definition prepare_payload :: "xdelta \<Rightarrow> FileEntry \<Rightarrow> bytes \<Rightarrow> bytes option \<Rightarrow> FileEntry \<times> bytes" where
  "prepare_payload xd entry content base_content =
     (let full = (entry\<lparr>fe_is_full := True, fe_delta_base_rapidhash := None\<rparr>, content) in
      case (base_content, fe_delta_base_rapidhash entry) of
        (Some base, Some _) \<Rightarrow>
          (case compute_delta xd base content of
             None \<Rightarrow> full
           | Some delta \<Rightarrow>
               if below_threshold (length delta) (length content)
               then (entry\<lparr>fe_is_full := False\<rparr>, delta) else full)
      | _ \<Rightarrow> full)"

section \<open>The transfer\<close>

datatype transfer_error =
    UnexpectedAck uuid
  | UnexpectedNack uuid
  | TransferRejected string
  | NotAckNack
  | TransferRecv frame_error

definition chunk_msgs :: "uuid \<Rightarrow> bytes list \<Rightarrow> AnyMsg list" where
  "chunk_msgs tid chunks = map (\<lambda>(s, c). TransferChunkMsg tid (int s) c) (enumerate 0 chunks)"

definition transfer_msgs :: "uuid \<Rightarrow> FileEntry \<Rightarrow> bytes \<Rightarrow> AnyMsg list" where
  "transfer_msgs tid entry payload =
     (let chunks = split_chunks payload in
      TransferBeginMsg tid entry (int (length payload)) (int (length chunks))
      # chunk_msgs tid chunks @ [TransferCommitMsg tid (fe_rapidhash entry)])"

definition transfer_reply :: "uuid \<Rightarrow> frame_error + AnyMsg \<Rightarrow> transfer_error + string" where
  "transfer_reply tid reply =
     (case reply of
        Inl e \<Rightarrow> Inl (TransferRecv e)
      | Inr (TransferAckMsg t result) \<Rightarrow> if t \<noteq> tid then Inl (UnexpectedAck t) else Inr result
      | Inr (TransferNackMsg t reason) \<Rightarrow>
          if t \<noteq> tid then Inl (UnexpectedNack t) else Inl (TransferRejected reason)
      | Inr _ \<Rightarrow> Inl NotAckNack)"

text \<open>\<open>do_transfer\<close>: the messages sent, then the answer to what is received.\<close>

definition do_transfer :: "uuid \<Rightarrow> FileEntry \<Rightarrow> bytes \<Rightarrow> frame_error + AnyMsg
    \<Rightarrow> AnyMsg list \<times> (transfer_error + string)" where
  "do_transfer tid entry payload reply = (transfer_msgs tid entry payload, transfer_reply tid reply)"

definition send_write :: "xdelta \<Rightarrow> uuid \<Rightarrow> FileEntry \<Rightarrow> bytes \<Rightarrow> bytes option \<Rightarrow> frame_error + AnyMsg
    \<Rightarrow> AnyMsg list \<times> (transfer_error + string)" where
  "send_write xd tid entry content base_content reply =
     (let (wire_entry, payload) = prepare_payload xd entry content base_content
      in do_transfer tid wire_entry payload reply)"

definition send_delete :: "int \<Rightarrow> string \<Rightarrow> AnyMsg list" where
  "send_delete now p = [FileDeleteMsg p now]"

definition send_rename :: "int \<Rightarrow> string \<Rightarrow> string \<Rightarrow> AnyMsg list" where
  "send_rename now old new = [FileRenameMsg old new now]"

section \<open>Chunking loses nothing\<close>

lemma chunk_loop_concat: "concat (chunk_loop data) = data"
proof (induction data rule: chunk_loop.induct)
  case (1 data)
  then show ?case by (subst chunk_loop.simps) simp
qed

lemma chunk_loop_size: "c \<in> set (chunk_loop data) \<Longrightarrow> c \<noteq> [] \<and> length c \<le> CHUNK_SIZE"
proof (induction data rule: chunk_loop.induct)
  case (1 data)
  show ?case
  proof (cases "data = []")
    case False
    then have "take CHUNK_SIZE data \<noteq> [] \<and> length (take CHUNK_SIZE data) \<le> CHUNK_SIZE"
      by (simp add: CHUNK_SIZE_def)
    moreover have "c = take CHUNK_SIZE data \<or> c \<in> set (chunk_loop (drop CHUNK_SIZE data))"
      using "1.prems" False by (subst (asm) chunk_loop.simps) simp
    ultimately show ?thesis using "1.IH"[OF False] by auto
  qed (use "1.prems" in \<open>simp add: chunk_loop.simps\<close>)
qed

lemma chunk_loop_length: "length (chunk_loop data) = (length data + CHUNK_SIZE - 1) div CHUNK_SIZE"
proof (induction data rule: chunk_loop.induct)
  case (1 data)
  show ?case
  proof (cases "data = []")
    case True
    then show ?thesis by (simp add: chunk_loop.simps CHUNK_SIZE_def)
  next
    case False
    then have "length (chunk_loop data) = Suc ((length data - CHUNK_SIZE + CHUNK_SIZE - 1) div CHUNK_SIZE)"
      using "1.IH"[OF False] by (subst chunk_loop.simps) simp
    also have "\<dots> = (length data + CHUNK_SIZE - 1) div CHUNK_SIZE"
    proof (cases "length data < CHUNK_SIZE")
      case True
      have "(length data + CHUNK_SIZE - 1) div CHUNK_SIZE = 1"
        using True False by (intro div_nat_eqI) (auto simp: CHUNK_SIZE_def Suc_le_eq)
      with True show ?thesis by (simp add: CHUNK_SIZE_def)
    next
      case False
      then have "length data + CHUNK_SIZE - 1 = (length data - CHUNK_SIZE + CHUNK_SIZE - 1) + CHUNK_SIZE"
        by (simp add: CHUNK_SIZE_def)
      then show ?thesis by (simp add: CHUNK_SIZE_def)
    qed
    finally show ?thesis .
  qed
qed

lemma split_chunks_concat: "concat (split_chunks data) = data"
  by (simp add: split_chunks_def chunk_loop_concat)

lemma split_chunks_not_Nil: "split_chunks data \<noteq> []"
  by (simp add: split_chunks_def) (subst chunk_loop.simps, simp)

text \<open>chunking is lossless and tight: the chunks join to the payload, none exceeds 256 KiB,
  there is at least one, and no more than the rounded-up quotient, which makes the announced
  \<open>chunk_count\<close> valid on the wire even for an empty file.\<close>

theorem split_chunks_correct:
  "concat (split_chunks data) = data
   \<and> (\<forall>c. c \<in> set (split_chunks data) \<longrightarrow> length c \<le> CHUNK_SIZE)
   \<and> length (split_chunks data) = max 1 ((length data + CHUNK_SIZE - 1) div CHUNK_SIZE)"
proof -
  have "length (split_chunks data) = max 1 ((length data + CHUNK_SIZE - 1) div CHUNK_SIZE)"
  proof (cases "data = []")
    case False
    then have "chunk_loop data \<noteq> []" by (subst chunk_loop.simps) simp
    then show ?thesis using False chunk_loop_length[of data]
      by (cases "chunk_loop data") (auto simp: split_chunks_def)
  qed (simp add: split_chunks_def CHUNK_SIZE_def)
  then show ?thesis
    using chunk_loop_size split_chunks_concat[of data] by (auto simp: split_chunks_def)
qed

theorem split_chunks_correct_witness:
  "concat (split_chunks []) = [] \<and> length (split_chunks []) = 1"
  using split_chunks_correct[of "[]"] by (simp add: CHUNK_SIZE_def)

section \<open>Either payload reconstructs the content\<close>

text \<open>The receiver's side, in \<^verbatim>\<open>_handle_transfer\<close> of \<^verbatim>\<open>server.py\<close>, with the base it read.\<close>

definition reconstruct :: "xdelta \<Rightarrow> FileEntry \<Rightarrow> bytes option \<Rightarrow> bytes \<Rightarrow> delta_error + bytes" where
  "reconstruct xd entry base payload =
     (if fe_is_full entry then Inr payload
      else case base of None \<Rightarrow> Inl NoBase | Some b \<Rightarrow> apply_delta xd b payload)"

lemma apply_compute_delta:
  assumes "xdelta_ok xd" and "compute_delta xd old new = Some d" and "new \<noteq> []"
  shows "apply_delta xd old d = Inr new"
proof -
  have "take 3 d = VCDIFF_MAGIC" "xd_decode xd old d = Some new"
    using assms(1,2) by (auto simp: xdelta_ok_def compute_delta_def)
  moreover from this(1) have "d \<noteq> []" by (auto simp: VCDIFF_MAGIC_def)
  ultimately show ?thesis using assms(3) by (simp add: apply_delta_def)
qed

lemma delta_not_short:
  assumes "xdelta_ok xd" and "compute_delta xd old new = Some d"
  shows "3 \<le> length d"
proof -
  have "take 3 d = VCDIFF_MAGIC" using assms by (simp add: xdelta_ok_def compute_delta_def)
  then have "length (take 3 d) = 3" by (simp add: VCDIFF_MAGIC_def)
  then show ?thesis by simp
qed

lemma prepare_payload_reconstructs:
  assumes "xdelta_ok xd" and "prepare_payload xd entry content base = (e, payload)"
  shows "reconstruct xd e base payload = Inr content"
proof (cases "fe_is_full e")
  case True
  then have "payload = content"
    using assms(2) by (auto simp: prepare_payload_def Let_def split: option.splits if_splits)
  with True show ?thesis by (simp add: reconstruct_def)
next
  case False
  then obtain b where b: "base = Some b" "compute_delta xd b content = Some payload"
      "below_threshold (length payload) (length content)"
    using assms(2) by (auto simp: prepare_payload_def Let_def split: option.splits if_splits)
  then have "content \<noteq> []"
    using delta_not_short[OF assms(1) b(2)] by (auto simp: below_threshold_def)
  from apply_compute_delta[OF assms(1) b(2) this] b(1) False show ?thesis
    by (simp add: reconstruct_def)
qed

text \<open>C21: whichever form the sender chooses, delta or full, a receiver with the same base recovers
  exactly the file content; the empty file, which the decoder would refuse, is never sent as a
  delta, and the payload is never larger than the content.\<close>

theorem payload_reconstructs:
  assumes "xdelta_ok xd" and "prepare_payload xd entry content base = (e, payload)"
  shows "reconstruct xd e base payload = Inr content
    \<and> length payload \<le> length content \<and> fe_path e = fe_path entry \<and> fe_rapidhash e = fe_rapidhash entry"
proof -
  have "length payload \<le> length content"
  proof (cases "fe_is_full e")
    case True
    then show ?thesis
      using assms(2) by (auto simp: prepare_payload_def Let_def split: option.splits if_splits)
  next
    case False
    then obtain b where "compute_delta xd b content = Some payload"
        "below_threshold (length payload) (length content)"
      using assms(2) by (auto simp: prepare_payload_def Let_def split: option.splits if_splits)
    with delta_not_short[OF assms(1)] show ?thesis by (fastforce simp: below_threshold_def)
  qed
  then show ?thesis
    using prepare_payload_reconstructs[OF assms] assms(2)
    by (auto simp: prepare_payload_def Let_def split: option.splits if_splits)
qed

text \<open>A delta codec that computes: the magic followed by a mark for no change or by the new content.\<close>

definition demo_xdelta :: xdelta where
  "demo_xdelta = \<lparr>xd_encode = \<lambda>old new. Some (VCDIFF_MAGIC @ (if new = old then [0] else 1 # new)),
     xd_decode = \<lambda>old d. Some (if drop 3 d = [0] then old else drop 4 d)\<rparr>"

lemma demo_xdelta_ok: "xdelta_ok demo_xdelta"
  by (simp add: xdelta_ok_def demo_xdelta_def VCDIFF_MAGIC_def)

definition demo_delta_entry :: FileEntry where
  "demo_delta_entry = \<lparr>fe_path = ''docs/a'', fe_rapidhash = 7, fe_size = 2, fe_mode = 420,
     fe_uid_name = ''fm'', fe_gid_name = ''staff'', fe_mtime_s = 3, fe_mtime_ns = 4,
     fe_is_symlink = False, fe_symlink_target = None, fe_is_full = False,
     fe_delta_base_rapidhash = Some 9\<rparr>"

theorem payload_reconstructs_witness:
  "\<exists>e payload. prepare_payload demo_xdelta demo_delta_entry (replicate 10 1) (Some (replicate 10 1)) = (e, payload)
     \<and> \<not> fe_is_full e \<and> length payload = 4
     \<and> reconstruct demo_xdelta e (Some (replicate 10 1)) payload = Inr (replicate 10 1)"
proof -
  obtain e payload where p: "prepare_payload demo_xdelta demo_delta_entry (replicate 10 1) (Some (replicate 10 1)) = (e, payload)"
    by fastforce
  have "\<not> fe_is_full e \<and> length payload = 4"
    using p by (auto simp: prepare_payload_def compute_delta_def below_threshold_def demo_xdelta_def demo_delta_entry_def VCDIFF_MAGIC_def Let_def)
  with payload_reconstructs[OF demo_xdelta_ok p] p show ?thesis by blast
qed

end
