(* ===== verification/Reconciler.thy ===== *)
theory Reconciler
  imports Silo_Index Framing
begin

text \<open>
  \<^verbatim>\<open>sync/reconciler.py\<close>: the exchange at the start of a session.  Each side is a function of the
  message it receives and its index; composing them is the whole exchange.
\<close>

datatype reconcile_error =
    ReconcileRecv frame_error
  | ExpectedSyncState
  | ExpectedSyncRequest
  | ReconcileInvalid "validation_error list"

definition client_request_sync ::
  "SiloIndex \<Rightarrow> frame_error + AnyMsg \<Rightarrow> AnyMsg list \<times> (reconcile_error + FileEntry list)" where
  "client_request_sync ix reply =
     ([SyncRequestMsg],
      (case reply of
         Inl e \<Rightarrow> Inl (ReconcileRecv e)
       | Inr (SyncStateMsg _ _ records) \<Rightarrow>
           (case diff ix records of Inl v \<Rightarrow> Inl (ReconcileInvalid v) | Inr xs \<Rightarrow> Inr xs)
       | Inr _ \<Rightarrow> Inl ExpectedSyncState))"

text \<open>\<^verbatim>\<open>FileEntrySnapshot.model_validate\<close> on every entry of the snapshot, in order.\<close>

fun validate_records :: "(string, FileEntrySnapshot) dict
    \<Rightarrow> validation_error list + (string, FileEntrySnapshot) dict" where
  "validate_records [] = Inr []"
| "validate_records ((p, s) # rest) =
     (case mk_FileEntrySnapshot s of
        Inl v \<Rightarrow> Inl v
      | Inr s' \<Rightarrow> (case validate_records rest of Inl v \<Rightarrow> Inl v | Inr r \<Rightarrow> Inr ((p, s') # r)))"

definition server_handle_sync_request ::
  "SiloIndex \<Rightarrow> frame_error + AnyMsg \<Rightarrow> AnyMsg list \<times> (reconcile_error + unit)" where
  "server_handle_sync_request ix msg =
     (case msg of
        Inl e \<Rightarrow> ([], Inl (ReconcileRecv e))
      | Inr SyncRequestMsg \<Rightarrow>
          (case validate_records (to_snapshot ix) of
             Inl v \<Rightarrow> ([], Inl (ReconcileInvalid v))
           | Inr records \<Rightarrow> ([SyncStateMsg (ix_silo_id ix) (ix_node_id ix) records], Inr ()))
      | Inr _ \<Rightarrow> ([], Inl ExpectedSyncRequest))"

lemma validate_records_Inr:
  "validate_records rs = Inr rs' \<longleftrightarrow> rs' = rs \<and> (\<forall>x \<in> set rs. FileEntrySnapshot_errors (snd x) = [])"
proof (induction rs arbitrary: rs')
  case (Cons x rs)
  then show ?case
    by (cases x) (auto simp: mk_FileEntrySnapshot_def split: sum.splits)
qed auto



end
