(* ===== verification/Rate_Limit.thy ===== *)
theory Rate_Limit
  imports Prelude
begin

text \<open>
  \<^verbatim>\<open>security/ratelimit.py\<close>: the sliding-window limiter.  Times are readings of
  \<^verbatim>\<open>time.monotonic()\<close>, as integers of one unit.  The theorems compare the limiter with the
  history of the calls it allowed, which the code does not keep.
\<close>

datatype rate_error = BadLimit int | BadWindow int | RateLimitExceeded string

record RateLimiter =
  rl_limit :: nat
  rl_window :: int
  rl_hits :: "(string, int list) dict"

definition RateLimiter_new :: "int \<Rightarrow> int \<Rightarrow> rate_error + RateLimiter" where
  "RateLimiter_new limit window =
     (if limit < 1 then Inl (BadLimit limit)
      else if window \<le> 0 then Inl (BadWindow window)
      else Inr \<lparr>rl_limit = nat limit, rl_window = window, rl_hits = []\<rparr>)"

definition evict_hits :: "string \<Rightarrow> int \<Rightarrow> RateLimiter \<Rightarrow> RateLimiter" where
  "evict_hits key now rl =
     (let cutoff = now - rl_window rl in
      case dict_get (rl_hits rl) key of
        None \<Rightarrow> rl
      | Some hits \<Rightarrow>
          let hits' = dropWhile (\<lambda>t. t \<le> cutoff) hits in
          if hits' = [] then rl\<lparr>rl_hits := dict_del key (rl_hits rl)\<rparr>
          else rl\<lparr>rl_hits := dict_set key hits' (rl_hits rl)\<rparr>)"

definition hits_of :: "string \<Rightarrow> RateLimiter \<Rightarrow> int list" where
  "hits_of key rl = (case dict_get (rl_hits rl) key of None \<Rightarrow> [] | Some h \<Rightarrow> h)"

text \<open>\<^verbatim>\<open>setdefault\<close> stores the empty queue also when the call is then refused.\<close>

definition rate_check :: "int \<Rightarrow> string \<Rightarrow> RateLimiter \<Rightarrow> bool \<times> RateLimiter" where
  "rate_check now key rl =
     (let rl1 = evict_hits key now rl;
          hits = hits_of key rl1;
          rl2 = rl1\<lparr>rl_hits := dict_set key hits (rl_hits rl1)\<rparr>
      in if length hits \<ge> rl_limit rl then (False, rl2)
         else (True, rl2\<lparr>rl_hits := dict_set key (hits @ [now]) (rl_hits rl2)\<rparr>))"

definition rate_require :: "int \<Rightarrow> string \<Rightarrow> RateLimiter \<Rightarrow> (rate_error + unit) \<times> RateLimiter" where
  "rate_require now key rl =
     (case rate_check now key rl of
        (ok, rl') \<Rightarrow> (if ok then Inr () else Inl (RateLimitExceeded key), rl'))"

definition rate_reset :: "string \<Rightarrow> RateLimiter \<Rightarrow> RateLimiter" where
  "rate_reset key rl = rl\<lparr>rl_hits := dict_del key (rl_hits rl)\<rparr>"

definition rate_remaining :: "int \<Rightarrow> string \<Rightarrow> RateLimiter \<Rightarrow> int \<times> RateLimiter" where
  "rate_remaining now key rl =
     (let rl1 = evict_hits key now rl
      in (max 0 (int (rl_limit rl) - int (length (hits_of key rl1))), rl1))"

section \<open>The limiter against the history of allowed calls\<close>

lemma evict_frame [simp]: "rl_limit (evict_hits k now rl) = rl_limit rl" "rl_window (evict_hits k now rl) = rl_window rl"
  by (simp_all add: evict_hits_def Let_def split: option.split)

lemma hits_evict: "hits_of k (evict_hits key now rl) =
  (if k = key then dropWhile (\<lambda>t. t \<le> now - rl_window rl) (hits_of k rl) else hits_of k rl)"
  by (auto simp: hits_of_def evict_hits_def Let_def dropWhile_eq_Nil_conv[THEN iffD2] split: option.split)

lemma hits_set: "hits_of k (rl\<lparr>rl_hits := dict_set key v (rl_hits rl)\<rparr>) = (if k = key then v else hits_of k rl)"
  and hits_set2: "hits_of k (rl\<lparr>rl_hits := dict_set key v (dict_set key u (rl_hits rl))\<rparr>)
    = (if k = key then v else hits_of k rl)"
  by (simp_all add: hits_of_def)

lemma rate_check_eq:
  assumes "h = dropWhile (\<lambda>t. t \<le> now - rl_window rl) (hits_of key rl)"
  shows "fst (rate_check now key rl) \<longleftrightarrow> length h < rl_limit rl"
    and "hits_of k (snd (rate_check now key rl)) =
      (if k \<noteq> key then hits_of k rl else if length h < rl_limit rl then h @ [now] else h)"
    and "rl_limit (snd (rate_check now key rl)) = rl_limit rl"
    and "rl_window (snd (rate_check now key rl)) = rl_window rl"
proof -
  have h: "hits_of key (evict_hits key now rl) = h" by (simp add: hits_evict assms)
  show "fst (rate_check now key rl) \<longleftrightarrow> length h < rl_limit rl"
    by (auto simp: rate_check_def Let_def h)
  show "hits_of k (snd (rate_check now key rl)) =
      (if k \<noteq> key then hits_of k rl else if length h < rl_limit rl then h @ [now] else h)"
    using hits_evict[of k key now rl]
    by (auto simp: rate_check_def Let_def h hits_set hits_set2)
qed (simp_all add: rate_check_def Let_def)

text \<open>Running a list of calls and collecting the times at which \<open>key\<close> was allowed.\<close>

fun run_calls :: "string \<Rightarrow> (int \<times> string) list \<Rightarrow> RateLimiter \<Rightarrow> int list \<times> RateLimiter" where
  "run_calls key [] rl = ([], rl)"
| "run_calls key ((now, k) # cs) rl =
     (case rate_check now k rl of
        (ok, rl1) \<Rightarrow> (case run_calls key cs rl1 of
           (ts, rl2) \<Rightarrow> (if ok \<and> k = key then now # ts else ts, rl2)))"

definition window_count :: "int \<Rightarrow> int \<Rightarrow> int list \<Rightarrow> nat" where
  "window_count w t ts = length (filter (\<lambda>a. t - w < a \<and> a \<le> t) ts)"

text \<open>The queue of \<open>key\<close> holds the allowed calls since some cutoff no later than the start of
  the current window.\<close>

definition limiter_inv :: "string \<Rightarrow> int list \<Rightarrow> int \<Rightarrow> RateLimiter \<Rightarrow> bool" where
  "limiter_inv key past now rl \<longleftrightarrow>
     0 < rl_window rl \<and> sorted past \<and> (\<forall>a \<in> set past. a \<le> now)
     \<and> (\<exists>c \<le> now - rl_window rl. hits_of key rl = filter (\<lambda>a. c < a) past)
     \<and> (\<forall>t. window_count (rl_window rl) t past \<le> rl_limit rl)"

lemma dropWhile_sorted: "sorted xs \<Longrightarrow> dropWhile (\<lambda>a. a \<le> c) xs = filter (\<lambda>a. c < (a :: int)) xs"
proof (induction xs)
  case (Cons x xs)
  then show ?case by (cases "x \<le> c") (auto simp: filter_id_conv intro!: sym[OF filter_True])
qed simp

lemma limiter_window:
  assumes "limiter_inv key past last_now rl" and "last_now \<le> now"
  shows "dropWhile (\<lambda>t. t \<le> now - rl_window rl) (hits_of key rl) = filter (\<lambda>a. now - rl_window rl < a) past"
proof -
  obtain c where c: "c \<le> last_now - rl_window rl" "hits_of key rl = filter (\<lambda>a. c < a) past"
    using assms(1) by (auto simp: limiter_inv_def)
  have "sorted (filter (\<lambda>a. c < a) past)"
    using assms(1) by (simp add: limiter_inv_def sorted_wrt_filter)
  then show ?thesis
    using c assms(2) by (simp add: dropWhile_sorted) (auto intro!: filter_cong)
qed

lemma limiter_step:
  assumes "limiter_inv key past last_now rl" and "last_now \<le> now"
  shows "limiter_inv key (if fst (rate_check now k rl) \<and> k = key then past @ [now] else past) now
    (snd (rate_check now k rl))"
proof (cases "k = key")
  case False
  note eq = rate_check_eq(2-4)[OF refl, where now = now and rl = rl and key = k]
  obtain c where "c \<le> last_now - rl_window rl" "hits_of key rl = filter (\<lambda>a. c < a) past"
    using assms(1) by (auto simp: limiter_inv_def)
  with assms(2) False eq(1)[of key]
  have "\<exists>c \<le> now - rl_window rl. hits_of key (snd (rate_check now k rl)) = filter (\<lambda>a. c < a) past"
    by (intro exI[of _ c]) simp
  then show ?thesis
    using assms False eq(2,3) by (auto simp: limiter_inv_def)
next
  case True
  let ?w = "rl_window rl"
  let ?h = "filter (\<lambda>a. now - ?w < a) past"
  note eq = rate_check_eq[OF limiter_window[OF assms, symmetric]]
  note inv = assms(1)[unfolded limiter_inv_def]
  show ?thesis
  proof (cases "length ?h < rl_limit rl")
    case False
    with True inv assms(2) eq show ?thesis
      by (auto simp: limiter_inv_def intro!: exI[of _ "now - ?w"] intro: order_trans)
  next
    case ok: True
    have "window_count ?w t (past @ [now]) \<le> rl_limit rl" for t
    proof (cases "t < now")
      case True
      then show ?thesis using inv by (simp add: window_count_def)
    next
      case False
      have "length (filter (\<lambda>a. t - ?w < a \<and> a \<le> t) past) \<le> length ?h"
        using False by (induction past) auto
      then show ?thesis using ok by (simp add: window_count_def)
    qed
    with True ok inv assms(2) eq show ?thesis
      by (auto simp: limiter_inv_def sorted_append intro!: exI[of _ "now - ?w"] intro: order_trans)
  qed
qed

lemma run_calls_inv:
  assumes "limiter_inv key past last_now rl" and "sorted (last_now # map fst cs)"
    and "run_calls key cs rl = (ts, rl')"
  shows "limiter_inv key (past @ ts) (last (last_now # map fst cs)) rl'
    \<and> rl_limit rl' = rl_limit rl \<and> rl_window rl' = rl_window rl"
  using assms
proof (induction cs arbitrary: past last_now rl ts)
  case (Cons c cs)
  obtain now k where c: "c = (now, k)" by fastforce
  obtain ok rl1 where ck: "rate_check now k rl = (ok, rl1)" by fastforce
  obtain ts1 where run: "run_calls key cs rl1 = (ts1, rl')" "ts = (if ok \<and> k = key then now # ts1 else ts1)"
    using Cons.prems(3) by (auto simp: c ck split: prod.splits)
  have le: "last_now \<le> now" and so: "sorted (now # map fst cs)"
    using Cons.prems(2) by (auto simp: c)
  have "limiter_inv key (if ok \<and> k = key then past @ [now] else past) now rl1"
    using limiter_step[OF Cons.prems(1) le, of k] by (simp add: ck)
  note IH = Cons.IH[OF this so run(1)]
  have "rl_limit rl1 = rl_limit rl" "rl_window rl1 = rl_window rl"
    using rate_check_eq(3,4)[OF refl, where now = now and rl = rl and key = k] by (simp_all add: ck)
  with IH run(2) show ?case by (cases "ok \<and> k = key") (simp_all add: c)
qed simp

lemma fresh_inv: "RateLimiter_new limit window = Inr rl \<Longrightarrow> limiter_inv key [] now rl"
  by (auto simp: RateLimiter_new_def limiter_inv_def hits_of_def window_count_def split: if_splits
      intro!: exI[of _ "now - window"])

text \<open>C26: the limiter is exact.  For calls at non-decreasing times, by any clients: in no window of
  the configured length, wherever it ends, is one key allowed more than \<open>limit\<close> calls; and the
  next call of that key is allowed exactly when fewer than \<open>limit\<close> were allowed in the window that
  ends with it, so refused calls cost nothing.\<close>

theorem rate_limit_exact:
  assumes "RateLimiter_new limit window = Inr rl" and "sorted (map fst cs)"
    and "run_calls key cs rl = (ts, rl')" and "\<And>c. c \<in> set cs \<Longrightarrow> fst c \<le> now"
  shows "(\<forall>t. window_count window t ts \<le> nat limit)
    \<and> (fst (rate_check now key rl') \<longleftrightarrow> window_count window now ts < nat limit)"
proof -
  have rl: "rl_limit rl = nat limit" "rl_window rl = window"
    using assms(1) by (auto simp: RateLimiter_new_def split: if_splits)
  define t0 where "t0 = (case cs of [] \<Rightarrow> now | c # _ \<Rightarrow> fst c)"
  have so: "sorted (t0 # map fst cs)" using assms(2) by (cases cs) (auto simp: t0_def)
  from run_calls_inv[OF fresh_inv[OF assms(1)] so assms(3)]
  have inv: "limiter_inv key ts (last (t0 # map fst cs)) rl'"
    and rl': "rl_limit rl' = nat limit" "rl_window rl' = window" by (simp_all add: rl)
  have le: "last (t0 # map fst cs) \<le> now"
    using assms(4) last_in_set[of cs] by (auto simp: t0_def last_map split: list.splits)
  have "filter (\<lambda>a. now - window < a \<and> a \<le> now) ts = filter (\<lambda>a. now - window < a) ts"
    using inv le by (intro filter_cong) (auto simp: limiter_inv_def)
  then have "fst (rate_check now key rl') \<longleftrightarrow> window_count window now ts < nat limit"
    using rate_check_eq(1)[OF limiter_window[OF inv le, symmetric]] by (simp add: window_count_def rl')
  then show ?thesis using inv by (auto simp: limiter_inv_def rl')
qed

theorem rate_limit_exact_witness:
  "\<exists>rl ts rl'. RateLimiter_new 2 10 = Inr rl
     \<and> run_calls ''fm'' [(0, ''fm''), (1, ''x''), (2, ''fm''), (3, ''fm'')] rl = (ts, rl')
     \<and> ts = [0, 2] \<and> \<not> fst (rate_check 9 ''fm'' rl') \<and> fst (rate_check 10 ''fm'' rl')"
proof -
  let ?rl = "\<lparr>rl_limit = 2, rl_window = 10, rl_hits = []\<rparr>"
  let ?cs = "[(0 :: int, ''fm''), (1, ''x''), (2, ''fm''), (3, ''fm'')]"
  have new: "RateLimiter_new 2 10 = Inr ?rl" by (simp add: RateLimiter_new_def)
  obtain rl' where run: "run_calls ''fm'' ?cs ?rl = ([0, 2], rl')"
    by (simp add: rate_check_def evict_hits_def hits_of_def Let_def)
  have "fst (rate_check now ''fm'' rl') \<longleftrightarrow> window_count 10 now [0, 2] < 2" if "3 \<le> now" for now
  proof -
    have s: "sorted (map fst ?cs)" by simp
    have m: "fst c \<le> now" if "c \<in> set ?cs" for c using that \<open>3 \<le> now\<close> by auto
    show ?thesis using rate_limit_exact[OF new s run m] by simp
  qed
  from this[of 9] this[of 10] new run show ?thesis by (auto simp: window_count_def)
qed

end
