(* ===== verification/Clamav.thy ===== *)
theory Clamav
  imports Prelude
begin

text \<open>
  \<^verbatim>\<open>sandbox/clamav.py\<close>: the INSTREAM request, the parser of the daemon's answer and the scan.
  The daemon is a parameter: a function from the bytes of the request to what the exchange gives, the line it
  answers or one of three failures.
\<close>

record ScanResult =
  sc_is_clean :: bool
  sc_virus_name :: "string option"
  sc_error :: "string option"

definition make_clean :: ScanResult where
  "make_clean = \<lparr>sc_is_clean = True, sc_virus_name = None, sc_error = None\<rparr>"

definition make_infected :: "string \<Rightarrow> ScanResult" where
  "make_infected v = \<lparr>sc_is_clean = False, sc_virus_name = Some v, sc_error = None\<rparr>"

definition make_error :: "string \<Rightarrow> ScanResult" where
  "make_error r = \<lparr>sc_is_clean = False, sc_virus_name = None, sc_error = Some r\<rparr>"

text \<open>\<^verbatim>\<open>str(result)\<close>; an empty virus name counts as absent, a missing error prints as \<^verbatim>\<open>None\<close>.\<close>

definition scan_str :: "ScanResult \<Rightarrow> string" where
  "scan_str r =
     (if sc_is_clean r then ''CLEAN''
      else case sc_virus_name r of
             Some v \<Rightarrow> if v \<noteq> [] then ''INFECTED:'' @ v
                       else ''ERROR:'' @ (case sc_error r of None \<Rightarrow> ''None'' | Some e \<Rightarrow> e)
           | None \<Rightarrow> ''ERROR:'' @ (case sc_error r of None \<Rightarrow> ''None'' | Some e \<Rightarrow> e))"

datatype sandbox_error = ClamdUnreachable | ScanTimedOut | EmptyResponse | UnexpectedResponse string

text \<open>What leaves \<open>scan\<close> as an exception: a \<^verbatim>\<open>SandboxError\<close>, or the error of \<^verbatim>\<open>drain\<close> or \<^verbatim>\<open>readline\<close> as it is.\<close>

datatype scan_exc = Sandbox sandbox_error | ScanIOError

datatype clamd_io = ConnectFailed | TimedOut | IOFailed | Answer string

fun answer :: "clamd_io \<Rightarrow> string option" where
  "answer (Answer line) = Some line"
| "answer io = None"

text \<open>\<^verbatim>\<open>line.split(":", 1)[-1]\<close>: what follows the first colon, or the whole line.\<close>

definition after_colon :: "string \<Rightarrow> string" where
  "after_colon s = (case dropWhile (\<lambda>c. c \<noteq> CHR '':'') s of [] \<Rightarrow> s | _ # r \<Rightarrow> r)"

definition parse_response :: "string \<Rightarrow> sandbox_error + ScanResult" where
  "parse_response line =
     (if line = [] then Inl EmptyResponse
      else if line = ''stream: OK'' then Inr make_clean
      else if ends_with '' FOUND'' line then
        Inr (make_infected (remove_suffix '' FOUND'' (remove_prefix ''stream: '' line)))
      else if starts_with ''ERROR:'' line \<or> starts_with ''stream: ERROR'' line then
        Inr (make_error (strip (after_colon line)))
      else Inl (UnexpectedResponse line))"

definition CLAMD_CHUNK :: nat where
  "CLAMD_CHUNK = 65536"

function instream_chunks :: "bytes \<Rightarrow> bytes" where
  "instream_chunks data =
     (if data = [] then []
      else let chunk = take CLAMD_CHUNK data
           in be_bytes 4 (length chunk) @ chunk @ instream_chunks (drop (length chunk) data))"
  by pat_completeness auto
termination
  by (relation "measure length") (auto simp: CLAMD_CHUNK_def)

declare instream_chunks.simps [simp del]

definition ascii_bytes :: "string \<Rightarrow> bytes" where
  "ascii_bytes s = map (\<lambda>c. word_of_nat (of_char c)) s"

definition instream_request :: "bytes \<Rightarrow> bytes" where
  "instream_request data = ascii_bytes ''zINSTREAM'' @ [0] @ instream_chunks data @ [0, 0, 0, 0]"

definition clamd_scan :: "(bytes \<Rightarrow> clamd_io) \<Rightarrow> bytes \<Rightarrow> scan_exc + ScanResult" where
  "clamd_scan clamd data =
     (case clamd (instream_request data) of
        ConnectFailed \<Rightarrow> Inl (Sandbox ClamdUnreachable)
      | TimedOut \<Rightarrow> Inl (Sandbox ScanTimedOut)
      | IOFailed \<Rightarrow> Inl ScanIOError
      | Answer line \<Rightarrow> map_sum Sandbox id (parse_response (strip line)))"

text \<open>\<^verbatim>\<open>ping\<close>: any failure counts as no answer.  \<^verbatim>\<open>bytes.strip\<close> removes ASCII white space only.\<close>

definition is_ascii_space :: "char \<Rightarrow> bool" where
  "is_ascii_space c \<longleftrightarrow> c \<in> set [CHR '' '', CHR 0x09, CHR 0x0A, CHR 0x0B, CHR 0x0C, CHR 0x0D]"

definition clamd_ping :: "(bytes \<Rightarrow> clamd_io) \<Rightarrow> bool" where
  "clamd_ping clamd =
     (case answer (clamd (ascii_bytes ''zPING'' @ [0])) of
        None \<Rightarrow> False
      | Some resp \<Rightarrow> rev (dropWhile is_ascii_space (rev (dropWhile is_ascii_space resp))) = ''PONG'')"

section \<open>The daemon sees the data\<close>

text \<open>What a daemon that follows the protocol reads: length-prefixed pieces up to the zero length.\<close>

function read_instream :: "bytes \<Rightarrow> bytes option" where
  "read_instream s =
     (if length s < 4 then None
      else let n = be_nat (take 4 s) in
        if n = 0 then (if drop 4 s = [] then Some [] else None)
        else if length s < 4 + n then None
        else map_option (\<lambda>r. take n (drop 4 s) @ r) (read_instream (drop (4 + n) s)))"
  by pat_completeness auto
termination
  by (relation "measure length") auto

declare read_instream.simps [simp del]

lemma read_instream_chunks: "read_instream (instream_chunks data @ [0, 0, 0, 0]) = Some data"
proof (induction data rule: instream_chunks.induct)
  case (1 data)
  show ?case
  proof (cases "data = []")
    case True
    have "be_nat [0, 0, 0, 0] = 0" by (simp add: be_nat_def)
    with True show ?thesis by (simp add: instream_chunks.simps read_instream.simps)
  next
    case False
    define c where "c = take CLAMD_CHUNK data"
    have n: "0 < length c" "length c < 256 ^ 4" using False by (auto simp: c_def CLAMD_CHUNK_def)
    have len: "be_nat (be_bytes 4 (length c)) = length c" using n(2) by (simp only: be_nat_bytes mod_less)
    have "read_instream (be_bytes 4 (length c) @ c @ instream_chunks (drop (length c) data) @ [0, 0, 0, 0])
        = map_option (\<lambda>r. c @ r) (read_instream (instream_chunks (drop (length c) data) @ [0, 0, 0, 0]))"
      using n(1) by (subst read_instream.simps) (simp add: len Let_def del: be_bytes.simps)
    also have "\<dots> = Some (c @ drop (length c) data)" using "1.IH"[OF False refl] by (simp add: c_def)
    also have "c @ drop (length c) data = data" by (simp add: c_def min_def)
    finally show ?thesis
      using False by (subst instream_chunks.simps) (simp add: Let_def c_def del: be_bytes.simps)
  qed
qed

lemma map_sum_Inr: "map_sum f id x = Inr y \<longleftrightarrow> x = Inr y"
  by (cases x) auto

lemma parse_response_clean:
  "parse_response line = Inr r \<and> sc_is_clean r \<longleftrightarrow> line = ''stream: OK'' \<and> r = make_clean"
  by (auto simp: parse_response_def make_clean_def make_infected_def make_error_def split: if_splits)

text \<open>C34: the scan fails closed and scans everything: the request carries exactly the content, piece
  by piece, to a daemon that follows the protocol, and the result is clean only when the answer is
  the line \<^verbatim>\<open>stream: OK\<close> for that content.\<close>

theorem clamd_scan_sound:
  "read_instream (drop 10 (instream_request data)) = Some data
   \<and> (clamd_scan clamd data = Inr r \<and> sc_is_clean r \<longleftrightarrow>
      r = make_clean \<and> map_option strip (answer (clamd (instream_request data))) = Some ''stream: OK'')"
proof
  show "read_instream (drop 10 (instream_request data)) = Some data"
    by (simp add: instream_request_def ascii_bytes_def read_instream_chunks)
  show "clamd_scan clamd data = Inr r \<and> sc_is_clean r \<longleftrightarrow>
      r = make_clean \<and> map_option strip (answer (clamd (instream_request data))) = Some ''stream: OK''"
    using parse_response_clean
    by (cases "clamd (instream_request data)") (auto simp: clamd_scan_def map_sum_Inr)
qed

text \<open>a daemon that ends its answers with a NUL byte, as the \<^verbatim>\<open>z\<close> form of the command asks for, never
  passes: stripping white space keeps the NUL, and the clean answer is refused as unexpected.\<close>

theorem nul_terminated_answer_refused:
  "clamd_scan (\<lambda>_. Answer (''stream: OK'' @ [CHR 0x00])) data
     = Inl (Sandbox (UnexpectedResponse (''stream: OK'' @ [CHR 0x00])))"
  by (simp add: clamd_scan_def strip_def is_py_space_def is_linebreak_def parse_response_def
      ends_with_def starts_with_def)

text \<open>Nor does such a daemon ever answer a ping.\<close>

lemma nul_terminated_ping_refused: "\<forall>req. \<exists>s. clamd req = Answer (s @ [CHR 0x00]) \<Longrightarrow> \<not> clamd_ping clamd"
proof -
  assume "\<forall>req. \<exists>s. clamd req = Answer (s @ [CHR 0x00])"
  then obtain s where s: "clamd (ascii_bytes ''zPING'' @ [0]) = Answer (s @ [CHR 0x00])" by blast
  have n: "\<not> is_ascii_space (CHR 0x00)" by (simp add: is_ascii_space_def)
  then have "dropWhile is_ascii_space (s @ [CHR 0x00]) = dropWhile is_ascii_space s @ [CHR 0x00]"
    by (simp add: dropWhile_append3)
  then show ?thesis using s n by (simp add: clamd_ping_def)
qed

end
