(* ===== verification/Server.thy ===== *)
theory Server
  imports Writer Policy Engine Reconciler Rate_Limit Clamav
begin

text \<open>
  \<^verbatim>\<open>server.py\<close>: what the server does with a session.  The handlers are functions of the results of
  successive \<^verbatim>\<open>framed.recv()\<close> calls (the inbox) and the server state; they return the messages sent,
  what is left of the inbox, the new state, and either normal completion or the exception that ends
  the connection.  The file system, the audit log, the indexes and the registry are
  the state; the certificate store, the policies, the scanner, the hash, the delta library, the
  operating system and the sends that fail are the configuration.  The operating system, the scanner and the random part of
  temporary names may be others at every message.  \<open>authenticate\<close> starts from the outcome of the handshake.
\<close>

section \<open>State and configuration\<close>

datatype audit_event =
    AuthFail string
  | AuthOk string uuid
  | SessionStart string uuid
  | SessionEnd string uuid
  | PathTraversal string uuid string
  | Quarantine string uuid string
  | UidDeniedEvent string uuid
  | FileWritten string uuid string
  | FileDeleted string uuid string
  | FileRenamed string uuid string string

text \<open>The exceptions that reach \<^verbatim>\<open>_handle_connection\<close>.\<close>

datatype server_exc =
    ExcRecv frame_error
  | ExcReconcile reconcile_error
  | ExcSymlinkLoop
  | ExcJailbreak jail_error
  | ExcOSError
  | ExcOverflow
  | ExcScan scan_exc
  | ExcSend

text \<open>The reasons whose text is \<^verbatim>\<open>str(exc)\<close>.\<close>

datatype exc_text = TextJail jail_error | TextDelta delta_error | TextRead | TextWrite write_error

text \<open>What the environment does while one message is handled, and \<open>cf_send_fails n\<close>: the send after \<open>n\<close> sends raises.\<close>

record moment =
  mo_env :: os_env
  mo_tmp_hex :: string
  mo_clamd :: "(bytes \<Rightarrow> clamd_io) option"

record config =
  cf_policy :: SiloPolicy
  cf_roots :: "(uuid, path) dict"
  cf_env :: os_env
  cf_clamd :: "(bytes \<Rightarrow> clamd_io) option"
  cf_rapidhash :: "bytes \<Rightarrow> int"
  cf_xdelta :: xdelta
  cf_fuel :: nat
  cf_tmp_hex :: string
  cf_text :: "exc_text \<Rightarrow> string"
  cf_later :: "nat \<Rightarrow> moment"
  cf_send_fails :: "nat \<Rightarrow> bool"

text \<open>The configuration while the message that \<open>n\<close> others follow is handled.\<close>

definition at_message :: "config \<Rightarrow> nat \<Rightarrow> config" where
  "at_message cf n = cf\<lparr>cf_env := mo_env (cf_later cf n), cf_tmp_hex := mo_tmp_hex (cf_later cf n), cf_clamd := mo_clamd (cf_later cf n)\<rparr>"

record server =
  sv_fs :: file_system
  sv_indexes :: "(uuid, SiloIndex) dict"
  sv_registry :: SiloRegistry
  sv_limiter :: "RateLimiter option"
  sv_audit :: "audit_event list"

type_synonym inbox = "(frame_error + AnyMsg) list"

record outcome =
  oc_result :: "server_exc + unit"
  oc_inbox :: inbox
  oc_sent :: "AnyMsg list"
  oc_server :: server

abbreviation log_audit :: "audit_event \<Rightarrow> server \<Rightarrow> server" where
  "log_audit ev sv \<equiv> sv\<lparr>sv_audit := sv_audit sv @ [ev]\<rparr>"

abbreviation finish :: "server_exc + unit \<Rightarrow> inbox \<Rightarrow> AnyMsg list \<Rightarrow> server \<Rightarrow> outcome" where
  "finish r i s sv \<equiv> \<lparr>oc_result = r, oc_inbox = i, oc_sent = s, oc_server = sv\<rparr>"

definition next_msg :: "inbox \<Rightarrow> (server_exc + AnyMsg) \<times> inbox" where
  "next_msg i =
     (case i of
        [] \<Rightarrow> (Inl (ExcRecv ConnClosed), [])
      | Inl e # i' \<Rightarrow> (Inl (ExcRecv e), i')
      | Inr m # i' \<Rightarrow> (Inr m, i'))"

section \<open>Transfers\<close>

text \<open>\<open>drain_and_nack\<close>: read and discard; an exception ends the reading, not the handler.\<close>

fun drain :: "nat \<Rightarrow> inbox \<Rightarrow> inbox" where
  "drain 0 i = i"
| "drain (Suc n) i = (case next_msg i of (Inl _, i') \<Rightarrow> i' | (Inr _, i') \<Rightarrow> drain n i')"

definition drain_and_nack :: "uuid \<Rightarrow> int \<Rightarrow> string \<Rightarrow> inbox \<Rightarrow> server \<Rightarrow> outcome" where
  "drain_and_nack tid nchunks reason i sv =
     finish (Inr ()) (drain (Suc (nat nchunks)) i) [TransferNackMsg tid reason] sv"

datatype collected = Chunks "(int, bytes) dict" | ProtocolError | CollectExc server_exc

fun collect_chunks :: "uuid \<Rightarrow> nat \<Rightarrow> (int, bytes) dict \<Rightarrow> inbox \<Rightarrow> collected \<times> inbox" where
  "collect_chunks tid 0 chunks i = (Chunks chunks, i)"
| "collect_chunks tid (Suc n) chunks i =
     (case next_msg i of
        (Inl e, i') \<Rightarrow> (CollectExc e, i')
      | (Inr (TransferChunkMsg t s d), i') \<Rightarrow>
          if t = tid then collect_chunks tid n (dict_set s d chunks) i' else (ProtocolError, i')
      | (Inr _, i') \<Rightarrow> (ProtocolError, i'))"

definition join_chunks :: "(int, bytes) dict \<Rightarrow> bytes" where
  "join_chunks chunks = concat (map (\<lambda>k. the (dict_get chunks k)) (sort (map fst chunks)))"

text \<open>\<open>read_base\<close>: the first live record with the base hash; a base that cannot be read is an
  \<^verbatim>\<open>OSError\<close>, one that does not resolve a \<^verbatim>\<open>JailbreakError\<close>, which the caller does not catch.  Reading
  follows every link.\<close>

datatype base_error = BaseDelta delta_error | BaseOSError | BaseExc server_exc

fun find_base :: "int \<Rightarrow> (string, FileRecord) dict \<Rightarrow> string option" where
  "find_base h [] = None"
| "find_base h ((p, r) # rs) = (if fr_rapidhash r = h \<and> \<not> fr_deleted r then Some p else find_base h rs)"

definition jail_exc :: "jail_error \<Rightarrow> server_exc" where
  "jail_exc e = (if e = SymlinkLoop then ExcSymlinkLoop else ExcJailbreak e)"

definition read_base :: "config \<Rightarrow> server \<Rightarrow> SiloSession \<Rightarrow> SiloIndex \<Rightarrow> int option \<Rightarrow> base_error + bytes" where
  "read_base cf sv ss ix base =
     (case base of
        None \<Rightarrow> Inl (BaseDelta NoBase)
      | Some h \<Rightarrow>
          (case find_base h (ix_records ix) of
             None \<Rightarrow> Inl (BaseDelta NoBase)
           | Some p \<Rightarrow>
               (case resolve (cf_fuel cf) (sv_fs sv) (ss_jail ss) p of
                  Inl e \<Rightarrow> Inl (BaseExc (jail_exc e))
                | Inr ap \<Rightarrow>
                    (case Option.bind (realpath (cf_fuel cf) (sv_fs sv) [] ap) (sv_fs sv) of
                       Some (Regular n) \<Rightarrow> Inr (fn_content n)
                     | _ \<Rightarrow> Inl BaseOSError))))"

definition server_scan :: "config \<Rightarrow> bytes \<Rightarrow> scan_exc + ScanResult" where
  "server_scan cf content =
     (case cf_clamd cf of None \<Rightarrow> Inr make_clean | Some clamd \<Rightarrow> clamd_scan clamd content)"

text \<open>The content a transfer carries: the payload itself, or the delta applied to the base.\<close>

definition rebuild :: "config \<Rightarrow> server \<Rightarrow> SiloSession \<Rightarrow> SiloIndex \<Rightarrow> FileEntry \<Rightarrow> bytes \<Rightarrow> base_error + bytes" where
  "rebuild cf sv ss ix entry payload =
     (case (if fe_is_full entry then Inr None
            else map_sum id Some (read_base cf sv ss ix (fe_delta_base_rapidhash entry))) of
        Inl e \<Rightarrow> Inl e
      | Inr base \<Rightarrow> map_sum BaseDelta id (reconstruct (cf_xdelta cf) entry base payload))"

text \<open>From the verified content on: owner check, write, audit, acknowledgement.  The caller of \<open>atomic_write\<close>
  answers a \<^verbatim>\<open>WriteError\<close> or a \<^verbatim>\<open>JailbreakError\<close>; any other exception ends the connection.\<close>

definition store_content ::
  "config \<Rightarrow> SiloSession \<Rightarrow> uuid \<Rightarrow> FileEntry \<Rightarrow> bytes \<Rightarrow> ScanResult \<Rightarrow> inbox \<Rightarrow> server \<Rightarrow> outcome" where
  "store_content cf ss tid entry content scan i sv =
     (if is_error (resolve_uid (os_pwd (cf_env cf)) (fe_uid_name entry) (ss_uid_policy ss))
         \<or> is_error (resolve_gid (os_grp (cf_env cf)) (fe_gid_name entry) (ss_gid_policy ss))
      then finish (Inr ()) i [TransferNackMsg tid ''uid_denied'']
             (log_audit (UidDeniedEvent (ss_client_cn ss) (ss_silo_id ss)) sv)
      else
        case atomic_write (cf_env cf) (cf_tmp_hex cf) (cf_fuel cf) (sv_fs sv) (ss_jail ss)
               (fe_path entry) content entry of
          (Inl (WriteJail SymlinkLoop), _) \<Rightarrow> finish (Inl ExcSymlinkLoop) i [] sv
        | (Inl WriteMkdir, states) \<Rightarrow> finish (Inl ExcOSError) i [] (sv\<lparr>sv_fs := last states\<rparr>)
        | (Inl WriteCleanup, states) \<Rightarrow> finish (Inl ExcOSError) i [] (sv\<lparr>sv_fs := last states\<rparr>)
        | (Inl WriteOverflow, states) \<Rightarrow> finish (Inl ExcOverflow) i [] (sv\<lparr>sv_fs := last states\<rparr>)
        | (Inl e, states) \<Rightarrow>
            finish (Inr ()) i [TransferNackMsg tid (cf_text cf (TextWrite e))] (sv\<lparr>sv_fs := last states\<rparr>)
        | (Inr _, states) \<Rightarrow>
            finish (Inr ()) i [TransferAckMsg tid (scan_str scan)]
              (log_audit (FileWritten (ss_client_cn ss) (ss_silo_id ss) (fe_path entry))
                (sv\<lparr>sv_fs := last states\<rparr>)))"

definition check_content ::
  "config \<Rightarrow> SiloSession \<Rightarrow> uuid \<Rightarrow> FileEntry \<Rightarrow> int \<Rightarrow> bytes \<Rightarrow> inbox \<Rightarrow> server \<Rightarrow> outcome" where
  "check_content cf ss tid entry commit_hash content i sv =
     (if cf_rapidhash cf content \<noteq> commit_hash
      then finish (Inr ()) i [TransferNackMsg tid ''rapidhash_mismatch''] sv
      else
        case server_scan cf content of
          Inl e \<Rightarrow> finish (Inl (ExcScan e)) i [] sv
        | Inr scan \<Rightarrow>
            if \<not> sc_is_clean scan
            then finish (Inr ()) i [TransferNackMsg tid ''quarantine'']
                   (log_audit (Quarantine (ss_client_cn ss) (ss_silo_id ss) (fe_path entry)) sv)
            else store_content cf ss tid entry content scan i sv)"

definition handle_transfer ::
  "config \<Rightarrow> SiloSession \<Rightarrow> SiloIndex \<Rightarrow> uuid \<Rightarrow> FileEntry \<Rightarrow> int \<Rightarrow> inbox \<Rightarrow> server \<Rightarrow> outcome" where
  "handle_transfer cf ss ix tid entry nchunks i sv =
     (case resolve (cf_fuel cf) (sv_fs sv) (ss_jail ss) (fe_path entry) of
        Inl SymlinkLoop \<Rightarrow> finish (Inl ExcSymlinkLoop) i [] sv
      | Inl e \<Rightarrow>
          drain_and_nack tid nchunks (cf_text cf (TextJail e)) i
            (log_audit (PathTraversal (ss_client_cn ss) (ss_silo_id ss) (fe_path entry)) sv)
      | Inr _ \<Rightarrow>
          (case collect_chunks tid (nat nchunks) [] i of
             (CollectExc e, i1) \<Rightarrow> finish (Inl e) i1 [] sv
           | (ProtocolError, i1) \<Rightarrow> finish (Inr ()) i1 [TransferNackMsg tid ''protocol_error''] sv
           | (Chunks chunks, i1) \<Rightarrow>
               (case next_msg i1 of
                  (Inl e, i2) \<Rightarrow> finish (Inl e) i2 [] sv
                | (Inr (TransferCommitMsg t h), i2) \<Rightarrow>
                    if t \<noteq> tid then finish (Inr ()) i2 [TransferNackMsg tid ''protocol_error''] sv
                    else
                      (case rebuild cf sv ss ix entry (join_chunks chunks) of
                         Inl (BaseExc e) \<Rightarrow> finish (Inl e) i2 [] sv
                       | Inl (BaseDelta e) \<Rightarrow>
                           finish (Inr ()) i2 [TransferNackMsg tid (''delta_error: '' @ cf_text cf (TextDelta e))] sv
                       | Inl BaseOSError \<Rightarrow>
                           finish (Inr ()) i2 [TransferNackMsg tid (''delta_error: '' @ cf_text cf TextRead)] sv
                       | Inr content \<Rightarrow> check_content cf ss tid entry h content i2 sv)
                | (Inr _, i2) \<Rightarrow> finish (Inr ()) i2 [TransferNackMsg tid ''protocol_error''] sv)))"

section \<open>Deletion and renaming\<close>

text \<open>\<^verbatim>\<open>unlink(missing_ok=True)\<close> ignores a missing file; a directory, and a path through a regular file, are errors.\<close>

definition under_file :: "file_system \<Rightarrow> path \<Rightarrow> bool" where
  "under_file fs p \<longleftrightarrow> list_ex (\<lambda>n. case fs (take n p) of Some (Regular _) \<Rightarrow> True | _ \<Rightarrow> False) [0..<length p]"

definition unlink :: "os_env \<Rightarrow> file_system \<Rightarrow> path \<Rightarrow> file_system option" where
  "unlink env fs p =
     (if os_unlink_fails env \<or> fs p = Some Directory \<or> under_file fs p then None else Some (fs(p := None)))"

definition handle_delete :: "config \<Rightarrow> SiloSession \<Rightarrow> string \<Rightarrow> server \<Rightarrow> (server_exc + unit) \<times> server" where
  "handle_delete cf ss p sv =
     (case resolve (cf_fuel cf) (sv_fs sv) (ss_jail ss) p of
        Inl SymlinkLoop \<Rightarrow> (Inl ExcSymlinkLoop, sv)
      | Inl _ \<Rightarrow> (Inr (), log_audit (PathTraversal (ss_client_cn ss) (ss_silo_id ss) p) sv)
      | Inr ap \<Rightarrow>
          (case Option.bind (kernel_path (cf_fuel cf) (sv_fs sv) ap) (unlink (cf_env cf) (sv_fs sv)) of
             None \<Rightarrow> (Inr (), sv)
           | Some fs' \<Rightarrow>
               (Inr (), log_audit (FileDeleted (ss_client_cn ss) (ss_silo_id ss) p) (sv\<lparr>sv_fs := fs'\<rparr>))))"

text \<open>\<^verbatim>\<open>os.rename\<close>: moves a file or a whole directory; the cases POSIX refuses are \<open>None\<close>.  Whether a
  directory that would be replaced is empty is a parameter.\<close>

definition move_tree :: "file_system \<Rightarrow> path \<Rightarrow> path \<Rightarrow> file_system" where
  "move_tree fs src dst p =
     (if prefix dst p then fs (src @ drop (length dst) p)
      else if prefix src p then None else fs p)"

definition os_rename :: "os_env \<Rightarrow> file_system \<Rightarrow> path \<Rightarrow> path \<Rightarrow> file_system option" where
  "os_rename env fs src dst =
     (if os_rename_fails env then None
      else if src = dst then (if fs src = None then None else Some fs)
      else case fs src of
             None \<Rightarrow> None
           | Some Directory \<Rightarrow>
               if strict_prefix src dst \<or> strict_prefix dst src then None
               else (case fs dst of
                       None \<Rightarrow> Some (move_tree fs src dst)
                     | Some Directory \<Rightarrow> if os_dir_empty env dst then Some (move_tree fs src dst) else None
                     | Some _ \<Rightarrow> None)
           | Some n \<Rightarrow> if fs dst = Some Directory then None
                        else Some (fs(src := None, dst \<mapsto> n)))"

definition handle_rename :: "config \<Rightarrow> SiloSession \<Rightarrow> string \<Rightarrow> string \<Rightarrow> server \<Rightarrow> (server_exc + unit) \<times> server" where
  "handle_rename cf ss old new sv =
     (case (resolve (cf_fuel cf) (sv_fs sv) (ss_jail ss) old, resolve (cf_fuel cf) (sv_fs sv) (ss_jail ss) new) of
        (Inl SymlinkLoop, _) \<Rightarrow> (Inl ExcSymlinkLoop, sv)
      | (Inl _, _) \<Rightarrow> (Inr (), log_audit (PathTraversal (ss_client_cn ss) (ss_silo_id ss) old) sv)
      | (Inr _, Inl SymlinkLoop) \<Rightarrow> (Inl ExcSymlinkLoop, sv)
      | (Inr _, Inl _) \<Rightarrow> (Inr (), log_audit (PathTraversal (ss_client_cn ss) (ss_silo_id ss) old) sv)
      | (Inr src, Inr dst) \<Rightarrow>
          (case kernel_path (cf_fuel cf) (sv_fs sv) dst of
             None \<Rightarrow> (Inr (), sv)
           | Some d \<Rightarrow>
               (case (if os_fail (cf_env cf) WMkdir then None else mkdirs (sv_fs sv) [] (butlast d)) of
                  None \<Rightarrow> (Inr (), sv)
                | Some fs1 \<Rightarrow>
                    (case Option.bind (kernel_path (cf_fuel cf) fs1 src) (\<lambda>s. os_rename (cf_env cf) fs1 s d) of
                       None \<Rightarrow> (Inr (), sv\<lparr>sv_fs := fs1\<rparr>)
                     | Some fs2 \<Rightarrow>
                         (Inr (), log_audit (FileRenamed (ss_client_cn ss) (ss_silo_id ss) old new)
                            (sv\<lparr>sv_fs := fs2\<rparr>))))))"

section \<open>The session loop\<close>

lemma next_msg_shorter: "length (snd (next_msg i)) \<le> length i"
  and next_msg_Inr: "next_msg i = (Inr m, i') \<longleftrightarrow> i = Inr m # i'"
  by (auto simp: next_msg_def split: list.splits sum.splits)

lemma drain_shorter: "length (drain n i) \<le> length i"
proof (induction n arbitrary: i)
  case (Suc n)
  show ?case
    using next_msg_shorter[of i] le_trans[OF Suc] by (auto split: prod.splits sum.splits)
qed simp

lemma collect_shorter: "length (snd (collect_chunks tid n chunks i)) \<le> length i"
proof (induction n arbitrary: chunks i)
  case (Suc n)
  obtain r i' where nm: "next_msg i = (r, i')" by fastforce
  have "length i' \<le> length i" using next_msg_shorter[of i] by (simp add: nm)
  then show ?case
    using Suc[of _ i'] by (cases r) (auto simp: nm intro: le_trans split: AnyMsg.split)
qed simp

lemma store_content_inbox [simp]: "oc_inbox (store_content cf ss tid entry content scan i sv) = i"
  by (auto simp: store_content_def split: prod.split sum.split write_error.split jail_error.split)

lemma check_content_inbox [simp]: "oc_inbox (check_content cf ss tid entry h content i sv) = i"
  by (simp add: check_content_def split: sum.split)

lemma handle_transfer_shorter: "length (oc_inbox (handle_transfer cf ss ix tid entry n i sv)) \<le> length i"
proof -
  obtain r i1 where c: "collect_chunks tid (nat n) [] i = (r, i1)" by fastforce
  obtain m i2 where nm: "next_msg i1 = (m, i2)" by fastforce
  have l: "length i1 \<le> length i" "length i2 \<le> length i"
    using collect_shorter[of tid "nat n" "[]" i] next_msg_shorter[of i1] by (simp_all add: c nm)
  show ?thesis
    using l drain_shorter[of "Suc (nat n)" i]
    by (auto simp: handle_transfer_def c nm drain_and_nack_def simp del: drain.simps
        split: sum.split jail_error.split collected.split AnyMsg.split base_error.split)
qed

text \<open>A transfer that ends normally has exactly one message to send, and sending it is the last thing it does; a deletion and a
  renaming send nothing.\<close>

function serve_loop :: "config \<Rightarrow> SiloSession \<Rightarrow> SiloIndex \<Rightarrow> inbox \<Rightarrow> AnyMsg list \<Rightarrow> server
    \<Rightarrow> server_exc \<times> AnyMsg list \<times> server" where
  "serve_loop cf ss ix [] sent sv = (ExcRecv ConnClosed, sent, sv)"
| "serve_loop cf ss ix (Inl e # i) sent sv = (ExcRecv e, sent, sv)"
| "serve_loop cf ss ix (Inr m # i) sent sv =
     (case m of
        TransferBeginMsg tid entry sz n \<Rightarrow>
          (let oc = handle_transfer (at_message cf (length i)) ss ix tid entry n i sv in
           case oc_result oc of
             Inl e \<Rightarrow> (e, sent, oc_server oc)
           | Inr _ \<Rightarrow>
               if cf_send_fails cf (length sent) then (ExcSend, sent, oc_server oc)
               else serve_loop cf ss ix (oc_inbox oc) (sent @ oc_sent oc) (oc_server oc))
      | FileDeleteMsg p t \<Rightarrow>
          (case handle_delete (at_message cf (length i)) ss p sv of
             (Inl e, sv') \<Rightarrow> (e, sent, sv')
           | (Inr _, sv') \<Rightarrow> serve_loop cf ss ix i sent sv')
      | FileRenameMsg old new t \<Rightarrow>
          (case handle_rename (at_message cf (length i)) ss old new sv of
             (Inl e, sv') \<Rightarrow> (e, sent, sv')
           | (Inr _, sv') \<Rightarrow> serve_loop cf ss ix i sent sv')
      | _ \<Rightarrow> serve_loop cf ss ix i sent sv)"
  by pat_completeness auto
termination
  by (relation "measure (\<lambda>(_, _, _, i, _, _). length i)")
    (auto simp: le_imp_less_Suc handle_transfer_shorter)

definition serve_session :: "config \<Rightarrow> SiloSession \<Rightarrow> inbox \<Rightarrow> server \<Rightarrow> server_exc \<times> AnyMsg list \<times> server" where
  "serve_session cf ss i sv =
     (let (ix, sv1) =
        (case dict_get (sv_indexes sv) (ss_silo_id ss) of
           Some ix \<Rightarrow> (ix, sv)
         | None \<Rightarrow>
             (let ix = new_SiloIndex (ss_silo_id ss) ''server''
              in (ix, sv\<lparr>sv_indexes := dict_set (ss_silo_id ss) ix (sv_indexes sv)\<rparr>)))
      in case server_handle_sync_request ix (case i of [] \<Rightarrow> Inl ConnClosed | r # _ \<Rightarrow> r) of
           (msgs, Inl e) \<Rightarrow> (ExcReconcile e, msgs, sv1)
         | (msgs, Inr _) \<Rightarrow> if cf_send_fails cf 0 then (ExcSend, [], sv1) else serve_loop cf ss ix (tl i) msgs sv1)"

section \<open>Connections\<close>

text \<open>\<open>authenticate\<close> after the handshake, whose outcome is \<open>None\<close> for a \<^verbatim>\<open>HandshakeError\<close> and the
  client's common name and silo otherwise.\<close>

definition authenticate :: "config \<Rightarrow> int \<Rightarrow> (string \<times> uuid) option \<Rightarrow> server
    \<Rightarrow> (server_exc + SiloSession option) \<times> server" where
  "authenticate cf now handshake sv =
     (case handshake of
        None \<Rightarrow> (Inr None, log_audit (AuthFail ''(unknown)'') sv)
      | Some (cn, sid) \<Rightarrow>
          (let (limited, sv1) =
             (case sv_limiter sv of
                None \<Rightarrow> (False, sv)
              | Some rl \<Rightarrow> (case rate_require now cn rl of (r, rl') \<Rightarrow> (is_error r, sv\<lparr>sv_limiter := Some rl'\<rparr>)))
           in if limited then (Inr None, log_audit (AuthFail cn) sv1)
              else case lookup (cf_policy cf) cn sid of
                     Inl _ \<Rightarrow> (Inr None, log_audit (AuthFail cn) sv1)
                   | Inr pol \<Rightarrow>
                       (case dict_get (cf_roots cf) sid of
                          None \<Rightarrow> (Inr None, log_audit (AuthFail cn) sv1)
                        | Some root \<Rightarrow>
                            (case PathJail_new (cf_fuel cf) (sv_fs sv1) root of
                               Inl _ \<Rightarrow> (Inl ExcSymlinkLoop, sv1)
                             | Inr jail \<Rightarrow>
                                 (let ss = \<lparr>ss_silo_id = sid, ss_client_cn = cn, ss_jail = jail,
                                            ss_allowed_ops = cp_allowed_ops pol,
                                            ss_uid_policy = cp_uid_policy pol,
                                            ss_gid_policy = cp_gid_policy pol, ss_blacklist = []\<rparr>
                                  in case register ss (sv_registry sv1) of
                                       Inl _ \<Rightarrow> (Inr None, log_audit (AuthFail cn) sv1)
                                     | Inr reg \<Rightarrow>
                                         (Inr (Some ss),
                                          log_audit (SessionStart cn sid) (log_audit (AuthOk cn sid)
                                            (sv1\<lparr>sv_registry := reg\<rparr>))))))))"

definition handle_connection :: "config \<Rightarrow> int \<Rightarrow> (string \<times> uuid) option \<Rightarrow> inbox \<Rightarrow> server
    \<Rightarrow> AnyMsg list \<times> server" where
  "handle_connection cf now handshake i sv =
     (case authenticate cf now handshake sv of
        (Inr (Some ss), sv1) \<Rightarrow>
          (case serve_session cf ss i sv1 of
             (e, msgs, sv2) \<Rightarrow>
               (msgs, log_audit (SessionEnd (ss_client_cn ss) (ss_silo_id ss))
                        (sv2\<lparr>sv_registry := snd (unregister (ss_silo_id ss) (sv_registry sv2))\<rparr>)))
      | (_, sv1) \<Rightarrow> ([], sv1))"

end
