(* ===== verification/Server_Safety.thy ===== *)
theory Server_Safety
  imports Server
begin

text \<open>
  What a client can and cannot do to the server: every handler keeps the file system outside the silo
  root as it was, accepts only verified content, and a transfer sent by the engine arrives.
\<close>

section \<open>Confinement\<close>

text \<open>The silo root exists as a directory, reached without symbolic links, and is not named like a temporary file.  Below it
  anything may be, links to anywhere included.\<close>

definition is_temp :: "string \<Rightarrow> bool" where
  "is_temp name \<longleftrightarrow> starts_with ''.chiralite_tmp_'' name"

definition silo_ok :: "path \<Rightarrow> file_system \<Rightarrow> bool" where
  "silo_ok root fs \<longleftrightarrow> root \<noteq> [] \<and> clean_path root \<and> \<not> is_temp (last root) \<and> (\<forall>q. prefix q root \<longrightarrow> fs q = Some Directory)"

text \<open>Outside the root nothing changed, but that a temporary file beside the root, of one of the moments \<open>M\<close>, is gone, or is there
  because its removal failed.\<close>

definition confined :: "path \<Rightarrow> moment set \<Rightarrow> file_system \<Rightarrow> file_system \<Rightarrow> bool" where
  "confined root M fs fs' \<longleftrightarrow> silo_ok root fs'
     \<and> (\<forall>p. \<not> prefix root p \<longrightarrow> fs' p = fs p
           \<or> (\<exists>m \<in> M. p = tmp_path root (mo_tmp_hex m) \<and> (fs' p = None \<or> os_unlink_fails (mo_env m))))"

lemma confined_refl: "silo_ok root fs \<Longrightarrow> confined root M fs fs"
  by (simp add: confined_def)

lemma confined_silo_ok: "confined root M fs fs' \<Longrightarrow> silo_ok root fs'"
  by (simp add: confined_def)

lemma confined_trans: "confined root M fs fs1 \<Longrightarrow> confined root M fs1 fs2 \<Longrightarrow> confined root M fs fs2"
  unfolding confined_def by metis

lemma tmp_path_is_temp: "is_temp (last (tmp_path d hex))"
  by (simp add: tmp_path_def is_temp_def starts_with_def)

lemma strict_prefix_tmp:
  assumes "strict_prefix root dest"
  shows "strict_prefix root (tmp_path dest hex)"
proof -
  obtain ys where ys: "dest = root @ ys" "ys \<noteq> []"
    using assms by (auto simp: strict_prefix_def prefix_def)
  then show ?thesis by (simp add: tmp_path_def butlast_append strict_prefix_def)
qed

lemma silo_ok_root: "silo_ok root fs \<Longrightarrow> fs root = Some Directory"
  by (simp add: silo_ok_def)

lemma silo_ok_tmp: "silo_ok root fs \<Longrightarrow> tmp_path root hex \<noteq> root"
  using tmp_path_is_temp[of root hex] by (auto simp: silo_ok_def)

lemma silo_ok_keep: "silo_ok root fs \<Longrightarrow> (\<And>q. prefix q root \<Longrightarrow> fs' q = fs q) \<Longrightarrow> silo_ok root fs'"
  by (simp add: silo_ok_def)

text \<open>Changes strictly below the root are confined.\<close>

lemma confinedI:
  assumes "silo_ok root fs" and "\<And>p. fs' p \<noteq> fs p \<Longrightarrow> strict_prefix root p"
  shows "confined root M fs fs'"
proof -
  have same: "fs' p = fs p" if "\<not> strict_prefix root p" for p using assms(2) that by blast
  have "silo_ok root fs'"
    using same by (intro silo_ok_keep[OF assms(1)]) (auto simp: strict_prefix_def prefix_order.antisym)
  moreover have "fs' p = fs p" if "\<not> prefix root p" for p
    using same[of p] that by (auto simp: strict_prefix_def)
  ultimately show ?thesis by (simp add: confined_def)
qed

lemma silo_ok_physical: "silo_ok root fs \<Longrightarrow> physical fs root \<and> \<not> is_link fs []"
  by (auto simp: silo_ok_def physical_def is_link_def)

text \<open>What the jail returns lies below the root and has no link on the way: the system calls act on that very path.\<close>

lemma resolve_lands:
  assumes "silo_ok root fs" and "safe_path rel" and "resolve fuel fs jail rel = Inr p"
    and "pj_root jail = root"
  shows "prefix root p" "physical fs p" "clean_path p"
proof -
  have "\<not> starts_with [slash] rel" using assms(2) by (simp add: safe_path_def starts_with_singleton)
  note parts = path_parts_relative[OF this]
  have loop: "resolve_loop fuel fs root rel root (path_parts rel) = Inr p" using assms(3,4) by (simp add: resolve_def)
  have "physical fs p \<and> prefix root p"
    using resolve_loop_inside[OF loop _ _ parts] silo_ok_physical[OF assms(1)] by simp
  then show "prefix root p" "physical fs p" by simp_all
  show "clean_path p" using resolve_loop_clean[OF loop _ parts] assms(1) by (simp add: silo_ok_def)
qed

lemma resolve_confined:
  assumes "silo_ok root fs" and "safe_path rel" and "resolve fuel fs jail rel = Inr p" and "pj_root jail = root"
  shows "prefix root p" "kernel_path n fs p = Some p"
  using resolve_lands[OF assms] kernel_path_self by simp_all

lemma mkdirs_physical: "mkdirs fs acc cs = Some fs1 \<Longrightarrow> physical fs1 p = physical fs p"
  using mkdirs_only_adds[of fs acc cs fs1] unfolding physical_def is_link_def
  by (auto split: option.splits node.splits) (metis node.distinct(3) option.inject option.simps(3))+

lemma mkdirs_below:
  assumes "\<And>q. prefix q root \<Longrightarrow> fs q = Some Directory" and "prefix root dest" and "mkdirs fs [] (butlast dest) = Some fs1"
    and ch: "fs1 p \<noteq> fs p"
  shows "strict_prefix root p"
proof -
  have p: "fs p = None" "prefix p (butlast dest)"
    using mkdirs_only_adds[OF assms(3), of p] ch by auto
  have "prefix p dest" using p(2) prefix_order.trans[OF _ prefixeq_butlast] by blast
  with assms(2) have "prefix root p \<or> prefix p root" by (metis prefix_same_cases)
  with p(1) assms(1)[of p] assms(1)[of root] show ?thesis by (auto simp: strict_prefix_def)
qed

lemma mkdirs_confined:
  assumes "silo_ok root fs" and "prefix root dest" and "mkdirs fs [] (butlast dest) = Some fs1"
  shows "confined root M fs fs1"
  using mkdirs_below[OF _ assms(2,3)] assms(1) by (intro confinedI) (auto simp: silo_ok_def)

text \<open>The last state of a write: the one after the parent directories were made, but for the destination and the temporary
  file.\<close>

definition parents_made :: "os_env \<Rightarrow> file_system \<Rightarrow> path \<Rightarrow> file_system option" where
  "parents_made env fs d = (if os_fail env WMkdir then None else mkdirs fs [] (butlast d))"

lemma atomic_write_last:
  assumes "resolve fuel fs jail rel = Inr dest" and "kernel_path fuel fs dest = Some d"
    and "atomic_write env hex fuel fs jail rel content e = (r, sts)"
  shows "case parents_made env fs d of
      None \<Rightarrow> r = Inl WriteMkdir \<and> last sts = fs
    | Some fs1 \<Rightarrow> (\<forall>p. p \<noteq> d \<longrightarrow> p \<noteq> tmp_path d hex \<longrightarrow> last sts p = fs1 p)
        \<and> (tmp_path d hex \<noteq> d \<longrightarrow>
             last sts d = (if is_error r then fs1 d else Some (Regular (written_node env content e)))
             \<and> (last sts (tmp_path d hex) = None \<or> os_unlink_fails env \<and> r = Inl WriteCleanup))
        \<and> (r = Inr u \<longrightarrow> last sts d = Some (Regular (written_node env content e)))"
proof (cases "parents_made env fs d")
  case None
  then show ?thesis using assms(3) by (auto simp: atomic_write_unfold[OF assms(1,2)] parents_made_def)
next
  case (Some fs1)
  let ?tmp = "tmp_path d hex"
  let ?run = "run_stages env e (step_fails env fs1 d e) ?tmp (write_stages env content e) fs1"
  obtain r0 sts0 where run: "?run = (r0, sts0)" by (cases ?run)
  note out = assms(3)[unfolded atomic_write_unfold[OF assms(1,2)], folded parents_made_def, unfolded Some option.case run prod.case]
  note fr = run_stages_frame[OF run]
  show ?thesis
  proof (cases r0)
    case (Inl err)
    then have "sts0 \<noteq> []" "sts = fs1 # sts0" "r = Inl err" using fr out by auto
    moreover have "\<forall>p. p \<noteq> ?tmp \<longrightarrow> last sts0 p = fs1 p" using fr calculation(1) last_in_set[of sts0] by blast
    ultimately show ?thesis using fr Inl by (auto simp: Some)
  next
    case (Inr fs2)
    then have fs2: "fs2 \<in> set (fs1 # sts0)" "fs2 ?tmp = Some (Regular (written_node env content e))"
      using fr write_stages_not_Nil[of env content e] by (auto simp: write_stages_last)
    then have "\<forall>p. p \<noteq> ?tmp \<longrightarrow> fs2 p = fs1 p" using fr by auto
    with fs2(2) show ?thesis using out by (auto simp: Some Inr clean_up_def split: if_splits)
  qed
qed

text \<open>Every node of the last state was there, or is a directory, a regular file or nothing.\<close>

lemma atomic_write_nodes:
  assumes "resolve fuel fs jail rel = Inr dest" and "kernel_path fuel fs dest = Some d"
    and "atomic_write env hex fuel fs jail rel content e = (r, sts)" and "parents_made env fs d = Some fs1"
  shows "last sts p = fs1 p \<or> last sts p = None \<or> (\<exists>n. last sts p = Some (Regular n))"
proof -
  let ?tmp = "tmp_path d hex"
  let ?run = "run_stages env e (step_fails env fs1 d e) ?tmp (write_stages env content e) fs1"
  obtain r0 sts0 where run: "?run = (r0, sts0)" by (cases ?run)
  note out = assms(3)[unfolded atomic_write_unfold[OF assms(1,2)], folded parents_made_def, unfolded assms(4) option.case run prod.case]
  have all: "st \<in> set sts0 \<Longrightarrow> st p = fs1 p \<or> st p = None \<or> (\<exists>n. st p = Some (Regular n))" for st
    using run_stages_nodes[OF run] by blast
  show ?thesis
  proof (cases r0)
    case (Inl err)
    then show ?thesis using out all[of "last sts"] by auto
  next
    case (Inr fs2)
    then have "fs2 \<in> set (fs1 # sts0)" "\<exists>n. fs2 ?tmp = Some (Regular n)"
      using run_stages_frame[OF run] write_stages_not_Nil[of env content e] by auto
    then show ?thesis using out all[of fs2] by (auto simp: Inr clean_up_def split: if_splits)
  qed
qed

lemma atomic_write_confined:
  assumes ok: "silo_ok root fs" and root: "pj_root jail = root"
    and safe: "safe_path rel" and out: "atomic_write env hex fuel fs jail rel content e = (r, sts)"
    and m: "m \<in> M" "mo_tmp_hex m = hex" "mo_env m = env"
  shows "confined root M fs (last sts)"
proof (cases "resolve fuel fs jail rel")
  case (Inl err)
  then show ?thesis using out ok by (auto simp: atomic_write_def intro: confined_refl)
next
  case (Inr dest)
  note under = resolve_confined[OF ok safe Inr root]
  note last = atomic_write_last[OF Inr under(2) out]
  show ?thesis
  proof (cases "parents_made env fs dest")
    case None
    then show ?thesis using last confined_refl[OF ok] by simp
  next
    case (Some fs1)
    note last = last[unfolded Some option.case]
    have c1: "confined root M fs fs1"
      using Some mkdirs_confined[OF ok under(1)] by (simp add: parents_made_def split: if_splits)
    then have ok1: "silo_ok root fs1" by (simp add: confined_def)
    have "confined root M fs1 (last sts)"
    proof (cases "dest = root")
      case True
      note ne = silo_ok_tmp[OF ok, of hex]
      have "is_error r" using atomic_write_directory[OF Inr under(2)] silo_ok_root[OF ok] out True by (metis fst_conv)
      with last ne True have root_same: "last sts root = fs1 root"
        and tmp: "last sts (tmp_path root hex) = None \<or> os_unlink_fails env"
        and oth: "\<And>p. p \<noteq> root \<Longrightarrow> p \<noteq> tmp_path root hex \<Longrightarrow> last sts p = fs1 p" by auto
      have "length (tmp_path root hex) = length root"
        using ok by (cases root rule: rev_cases) (auto simp: tmp_path_def silo_ok_def)
      with ne have "\<not> prefix (tmp_path root hex) root" by (metis append_eq_conv_conj append_Nil2 prefix_def take_all_iff order_refl)
      then have "silo_ok root (last sts)"
        using root_same oth by (intro silo_ok_keep[OF ok1]) metis
      then show ?thesis unfolding confined_def
        using root_same oth tmp m by (metis)
    next
      case False
      with under(1) have strict: "strict_prefix root dest" by (simp add: strict_prefix_def)
      show ?thesis
      proof (rule confinedI[OF ok1])
        fix p assume "last sts p \<noteq> fs1 p"
        then have "p = dest \<or> p = tmp_path dest hex" using last by blast
        then show "strict_prefix root p" using strict strict_prefix_tmp[OF strict] by auto
      qed
    qed
    with c1 show ?thesis by (rule confined_trans)
  qed
qed

lemma unlink_below:
  assumes "fs root = Some Directory" and "prefix root p" and "unlink env fs p = Some fs'" and "fs' q \<noteq> fs q"
  shows "strict_prefix root q"
  using assms by (auto simp: unlink_def strict_prefix_def split: if_splits)

lemma unlink_confined:
  assumes "silo_ok root fs" and "prefix root p" and "unlink env fs p = Some fs'"
  shows "confined root M fs fs'"
  using unlink_below[OF silo_ok_root[OF assms(1)] assms(2,3)] by (rule confinedI[OF assms(1)])

lemma os_rename_below:
  assumes "fs root = Some Directory" and "prefix root src" and "prefix root dst"
    and ren: "os_rename env fs src dst = Some fs'" and ch: "fs' q \<noteq> fs q"
  shows "strict_prefix root q"
proof (cases "src = dst")
  case True
  then show ?thesis using ren ch by (auto simp: os_rename_def split: if_splits)
next
  case False
  have ne: "src \<noteq> root \<and> dst \<noteq> root"
    using ren False assms(1-3)
    by (auto simp: os_rename_def strict_prefix_def split: if_splits option.splits node.splits)
  have "prefix src q \<or> prefix dst q"
    using ch ren False
    by (auto simp: os_rename_def move_tree_def split: if_splits option.splits node.splits)
  then show ?thesis
    using ne assms(2,3) by (metis prefix_order.dual_order.strict_trans1 prefix_order.less_le)
qed

lemma os_rename_confined:
  assumes ok: "silo_ok root fs" and "prefix root src" and "prefix root dst"
    and ren: "os_rename env fs src dst = Some fs'"
  shows "confined root M fs fs'"
  using os_rename_below[OF silo_ok_root[OF ok] assms(2,3) ren] by (rule confinedI[OF ok])

lemma handle_delete_confined:
  assumes "silo_ok root (sv_fs sv)" and "pj_root (ss_jail ss) = root" and "safe_path p"
  shows "confined root M (sv_fs sv) (sv_fs (snd (handle_delete cf ss p sv)))"
proof (cases "resolve (cf_fuel cf) (sv_fs sv) (ss_jail ss) p")
  case (Inl e)
  then show ?thesis using confined_refl[OF assms(1)] by (cases e) (simp_all add: handle_delete_def)
next
  case (Inr ap)
  note u = resolve_confined[OF assms(1,3) Inr assms(2)]
  show ?thesis
    using confined_refl[OF assms(1)] unlink_confined[OF assms(1) u(1)]
    by (auto simp: handle_delete_def Inr u(2) split: option.split)
qed

lemma handle_rename_confined:
  assumes "silo_ok root (sv_fs sv)" and "pj_root (ss_jail ss) = root" and "safe_path old" and "safe_path new"
  shows "confined root M (sv_fs sv) (sv_fs (snd (handle_rename cf ss old new sv)))"
proof (cases "resolve (cf_fuel cf) (sv_fs sv) (ss_jail ss) old";
    cases "resolve (cf_fuel cf) (sv_fs sv) (ss_jail ss) new")
  fix src dst
  assume r: "resolve (cf_fuel cf) (sv_fs sv) (ss_jail ss) old = Inr src"
    "resolve (cf_fuel cf) (sv_fs sv) (ss_jail ss) new = Inr dst"
  note s = resolve_lands[OF assms(1,3) r(1) assms(2)] and d = resolve_confined[OF assms(1,4) r(2) assms(2)]
  show ?thesis
  proof (cases "if os_fail (cf_env cf) WMkdir then None else mkdirs (sv_fs sv) [] (butlast dst)")
    case None
    then show ?thesis using r confined_refl[OF assms(1)] by (simp add: handle_rename_def d(2))
  next
    case (Some fs1)
    then have mk: "mkdirs (sv_fs sv) [] (butlast dst) = Some fs1" by (simp split: if_splits)
    note c = mkdirs_confined[OF assms(1) d(1) mk]
    then have ok1: "silo_ok root fs1" by (simp add: confined_def)
    have k: "kernel_path (cf_fuel cf) fs1 src = Some src" using kernel_path_self[OF s(3)] s(2) mkdirs_physical[OF mk] by simp
    show ?thesis
      using Some r c confined_trans[OF c os_rename_confined[OF ok1 s(1) d(1)]]
      by (auto simp: handle_rename_def d(2) k split: option.split)
  qed
qed (use confined_refl[OF assms(1)] in \<open>auto simp: handle_rename_def split: jail_error.split sum.split\<close>)

lemma store_content_confined:
  assumes "silo_ok root (sv_fs sv)" and "pj_root (ss_jail ss) = root"
    and "safe_path (fe_path entry)" and "m \<in> M" and "mo_tmp_hex m = cf_tmp_hex cf" and "mo_env m = cf_env cf"
  shows "confined root M (sv_fs sv) (sv_fs (oc_server (store_content cf ss tid entry content scan i sv)))"
proof -
  obtain r sts where out: "atomic_write (cf_env cf) (cf_tmp_hex cf) (cf_fuel cf) (sv_fs sv) (ss_jail ss)
      (fe_path entry) content entry = (r, sts)" by fastforce
  have "confined root M (sv_fs sv) (last sts)" by (rule atomic_write_confined[OF assms(1-3) out assms(4-6)])
  then show ?thesis
    using confined_refl[OF assms(1)]
    by (auto simp: store_content_def out split: sum.split write_error.split jail_error.split)
qed

lemma handle_transfer_confined:
  assumes "silo_ok root (sv_fs sv)" and "pj_root (ss_jail ss) = root"
    and "safe_path (fe_path entry)" and "m \<in> M" and "mo_tmp_hex m = cf_tmp_hex cf" and "mo_env m = cf_env cf"
  shows "confined root M (sv_fs sv) (sv_fs (oc_server (handle_transfer cf ss ix tid entry n i sv)))"
  using confined_refl[OF assms(1)] store_content_confined[OF assms]
  by (auto simp: handle_transfer_def check_content_def drain_and_nack_def simp del: drain.simps
      split: sum.split jail_error.split prod.split collected.split AnyMsg.split base_error.split)

lemma next_msg_suffix: "suffix (snd (next_msg i)) i"
  by (auto simp: next_msg_def intro: suffix_ConsI split: list.splits sum.splits)

lemma collect_suffix: "suffix (snd (collect_chunks tid n chunks i)) i"
proof (induction n arbitrary: chunks i)
  case (Suc n)
  obtain r i' where nm: "next_msg i = (r, i')" by fastforce
  have sub: "suffix i' i" using next_msg_suffix[of i] by (simp add: nm)
  have "suffix (snd (collect_chunks tid n c i')) i" for c using suffix_order.trans[OF Suc[of c i'] sub] .
  with sub show ?case by (cases r) (simp_all add: nm split: AnyMsg.split)
qed simp

lemma drain_suffix: "suffix (drain n i) i"
proof (induction n arbitrary: i)
  case (Suc n)
  obtain r i' where nm: "next_msg i = (r, i')" by fastforce
  then show ?case
    using suffix_order.trans[OF Suc[of i']] next_msg_suffix[of i] by (cases r) auto
qed simp

lemma handle_transfer_suffix: "suffix (oc_inbox (handle_transfer cf ss ix tid entry n i sv)) i"
proof -
  obtain r i1 where c: "collect_chunks tid (nat n) [] i = (r, i1)" by fastforce
  obtain m i2 where nm: "next_msg i1 = (m, i2)" by fastforce
  have l: "suffix i1 i" "suffix i2 i1"
    using collect_suffix[of tid "nat n" "[]" i] next_msg_suffix[of i1] by (simp_all add: c nm)
  then have "suffix i2 i" using suffix_order.trans by blast
  then show ?thesis
    using l(1) drain_suffix[of "Suc (nat n)" i]
    by (simp add: handle_transfer_def c nm drain_and_nack_def del: drain.simps
        split: sum.split jail_error.split collected.split AnyMsg.split base_error.split)
qed

lemma handle_transfer_subset: "set (oc_inbox (handle_transfer cf ss ix tid entry n i sv)) \<subseteq> set i"
  by (rule set_mono_suffix[OF handle_transfer_suffix])

definition valid_inbox :: "inbox \<Rightarrow> bool" where
  "valid_inbox i \<longleftrightarrow> (\<forall>m. Inr m \<in> set i \<longrightarrow> valid_msg m)"

lemma valid_inbox_Cons: "valid_inbox (Inr m # i) \<longleftrightarrow> valid_msg m \<and> valid_inbox i"
  by (auto simp: valid_inbox_def)

lemma valid_inbox_subset: "valid_inbox i \<Longrightarrow> set i' \<subseteq> set i \<Longrightarrow> valid_inbox i'"
  by (auto simp: valid_inbox_def)

lemma at_message_simps [simp]:
  "cf_env (at_message cf n) = mo_env (cf_later cf n)" "cf_tmp_hex (at_message cf n) = mo_tmp_hex (cf_later cf n)"
  "cf_fuel (at_message cf n) = cf_fuel cf" "cf_text (at_message cf n) = cf_text cf"
  by (simp_all add: at_message_def)

lemma serve_loop_confined:
  assumes "silo_ok root (sv_fs sv)" and "pj_root (ss_jail ss) = root" and "valid_inbox i"
  shows "confined root (range (cf_later cf)) (sv_fs sv) (sv_fs (snd (snd (serve_loop cf ss ix i sent sv))))"
  using assms
proof (induction cf ss ix i sent sv rule: serve_loop.induct)
  case (3 cf ss ix m i sent sv)
  let ?M = "range (cf_later cf)" and ?cf = "at_message cf (length i)"
  have vm: "valid_msg m" and vi: "valid_inbox i" using "3.prems"(3) by (simp_all add: valid_inbox_Cons)
  have go: "confined root ?M (sv_fs sv) (sv_fs (snd (snd (serve_loop cf ss ix i' sent' sv'))))"
    if IH: "silo_ok root (sv_fs sv') \<Longrightarrow> valid_inbox i' \<Longrightarrow>
        confined root ?M (sv_fs sv') (sv_fs (snd (snd (serve_loop cf ss ix i' sent' sv'))))"
      and "confined root ?M (sv_fs sv) (sv_fs sv')" and "valid_inbox i'" for i' sent' sv'
    by (rule confined_trans[OF that(2) IH]) (use that(2,3) in \<open>simp_all add: confined_silo_ok\<close>)
  show ?case
  proof (cases m)
    case (TransferBeginMsg tid entry sz n)
    define oc where "oc = handle_transfer ?cf ss ix tid entry n i sv"
    have safe: "safe_path (fe_path entry)" using vm TransferBeginMsg by (simp add: valid_entry_simps)
    have c: "confined root ?M (sv_fs sv) (sv_fs (oc_server oc))"
      unfolding oc_def by (rule handle_transfer_confined[OF "3.prems"(1,2) safe rangeI]) simp_all
    have v: "valid_inbox (oc_inbox oc)"
      using valid_inbox_subset[OF vi] handle_transfer_subset by (simp add: oc_def)
    show ?thesis
    proof (cases "is_error (oc_result oc) \<or> cf_send_fails cf (length sent)")
      case True
      then show ?thesis using c by (cases "oc_result oc") (auto simp: TransferBeginMsg simp flip: oc_def)
    next
      case False
      then obtain u where u: "oc_result oc = Inr u" "\<not> cf_send_fails cf (length sent)" by (cases "oc_result oc") auto
      have "confined root ?M (sv_fs sv) (sv_fs (snd (snd (serve_loop cf ss ix (oc_inbox oc) (sent @ oc_sent oc) (oc_server oc)))))"
        using "3.IH"(15)[OF TransferBeginMsg oc_def u] "3.prems"(2) c v by (intro go) auto
      then show ?thesis using u by (simp add: TransferBeginMsg flip: oc_def)
    qed
  next
    case (FileDeleteMsg p t)
    obtain r sv' where h: "handle_delete ?cf ss p sv = (r, sv')" by fastforce
    have c: "confined root ?M (sv_fs sv) (sv_fs sv')"
      using handle_delete_confined[OF "3.prems"(1,2), of p ?M ?cf] vm h FileDeleteMsg by simp
    show ?thesis
    proof (cases r)
      case (Inr u)
      have "confined root ?M (sv_fs sv) (sv_fs (snd (snd (serve_loop cf ss ix i sent sv'))))"
        using "3.IH"(10)[OF FileDeleteMsg h[symmetric] Inr] "3.prems"(2) c vi by (intro go) auto
      then show ?thesis using Inr h by (simp add: FileDeleteMsg)
    qed (use c h in \<open>simp add: FileDeleteMsg\<close>)
  next
    case (FileRenameMsg old new t)
    obtain r sv' where h: "handle_rename ?cf ss old new sv = (r, sv')" by fastforce
    have c: "confined root ?M (sv_fs sv) (sv_fs sv')"
      using handle_rename_confined[OF "3.prems"(1,2), of old new ?M ?cf] vm h FileRenameMsg by simp
    show ?thesis
    proof (cases r)
      case (Inr u)
      have "confined root ?M (sv_fs sv) (sv_fs (snd (snd (serve_loop cf ss ix i sent sv'))))"
        using "3.IH"(11)[OF FileRenameMsg h[symmetric] Inr] "3.prems"(2) c vi by (intro go) auto
      then show ?thesis using Inr h by (simp add: FileRenameMsg)
    qed (use c h in \<open>simp add: FileRenameMsg\<close>)
  qed (use "3.IH"(1-9,12-14,16-23) "3.prems" vi in simp_all)
qed (simp_all add: confined_refl)

text \<open>A session starts by finding or making the index of the silo and answering the first message; no file
  changes before the loop.\<close>

lemma serve_session_start:
  obtains (failed) e sv1 where "serve_session cf ss i sv = (e, [], sv1)" "sv_fs sv1 = sv_fs sv"
  | (loop) ix sv1 where "serve_session cf ss i sv
        = serve_loop cf ss ix (tl i) [SyncStateMsg (ix_silo_id ix) (ix_node_id ix) (to_snapshot ix)] sv1" "sv_fs sv1 = sv_fs sv"
proof -
  define ix sv1 where "ix = (case dict_get (sv_indexes sv) (ss_silo_id ss) of
        Some ix \<Rightarrow> ix | None \<Rightarrow> new_SiloIndex (ss_silo_id ss) ''server'')"
    and "sv1 = (case dict_get (sv_indexes sv) (ss_silo_id ss) of
        Some ix \<Rightarrow> sv | None \<Rightarrow> sv\<lparr>sv_indexes := dict_set (ss_silo_id ss) ix (sv_indexes sv)\<rparr>)"
  have fs: "sv_fs sv1 = sv_fs sv" by (simp add: sv1_def split: option.split)
  obtain msgs r where sync: "server_handle_sync_request ix (case i of [] \<Rightarrow> Inl ConnClosed | r # _ \<Rightarrow> r) = (msgs, r)"
    by fastforce
  have "serve_session cf ss i sv = (case r of Inl e \<Rightarrow> (ExcReconcile e, msgs, sv1)
      | Inr _ \<Rightarrow> if cf_send_fails cf 0 then (ExcSend, [], sv1) else serve_loop cf ss ix (tl i) msgs sv1)"
    using sync by (cases "dict_get (sv_indexes sv) (ss_silo_id ss)")
      (simp_all add: serve_session_def Let_def ix_def sv1_def split: sum.split)
  moreover have "case r of Inl _ \<Rightarrow> msgs = [] | Inr _ \<Rightarrow> msgs = [SyncStateMsg (ix_silo_id ix) (ix_node_id ix) (to_snapshot ix)]"
    using sync by (auto simp: server_handle_sync_request_def validate_records_Inr split: sum.splits AnyMsg.splits)
  ultimately show thesis using that fs by (cases r; cases "cf_send_fails cf 0") auto
qed

lemma serve_session_confined:
  assumes "silo_ok root (sv_fs sv)" and "pj_root (ss_jail ss) = root" and "valid_inbox i"
  shows "confined root (range (cf_later cf)) (sv_fs sv) (sv_fs (snd (snd (serve_session cf ss i sv))))"
proof -
  have v: "valid_inbox (tl i)" using assms(3) by (cases i) (auto simp: valid_inbox_def)
  show ?thesis
  proof (cases rule: serve_session_start[of cf ss i sv])
    case (failed e sv1)
    then show ?thesis using confined_refl[OF assms(1)] by simp
  next
    case (loop ix sv1)
    then show ?thesis
      using serve_loop_confined[of root sv1 ss "tl i" cf ix] assms(1,2) v by simp
  qed
qed

text \<open>C1: a session cannot touch anything outside its silo, and no operation leaves it through a symbolic link.  The system calls
  of the handlers act where the kernel's walk along the resolved path ends, links followed, and the silo may hold links to
  anywhere.  Whatever messages an authenticated client sends, in any order and number, whatever calls of the operating system and
  whatever sends fail, every path outside the silo root is as before when the connection ends, and the root is still there.  The one exception is a
  temporary file directly beside the root, which a transfer to the root itself makes: it is gone at the end, or its removal failed.\<close>

theorem session_confined:
  assumes "silo_ok root (sv_fs sv)" and "pj_root (ss_jail ss) = root" and "valid_inbox i"
  shows "confined root (range (cf_later cf)) (sv_fs sv) (sv_fs (snd (snd (serve_session cf ss i sv))))"
  using assms by (rule serve_session_confined)

definition demo_config :: config where
  "demo_config =
     \<lparr>cf_policy = SiloPolicy_new [], cf_roots = [(1, [''silo''])], cf_env = demo_env, cf_clamd = None,
      cf_rapidhash = \<lambda>b. int (length b), cf_xdelta = demo_xdelta, cf_fuel = 8, cf_tmp_hex = ''0f'',
      cf_text = \<lambda>_. ''error'', cf_later = \<lambda>n. \<lparr>mo_env = demo_env, mo_tmp_hex = ''0f'', mo_clamd = None\<rparr>,
      cf_send_fails = \<lambda>n. False\<rparr>"

definition demo_server :: server where
  "demo_server = \<lparr>sv_fs = demo_fs, sv_indexes = [], sv_registry = SiloRegistry_new, sv_limiter = None,
     sv_audit = []\<rparr>"

lemma demo_silo_ok: "silo_ok [''silo''] demo_fs"
  by (auto simp: silo_ok_def prefix_Cons demo_fs_def is_temp_def starts_with_def)

theorem session_confined_witness:
  "confined [''silo''] (range (cf_later demo_config)) demo_fs
     (sv_fs (snd (snd (serve_session demo_config demo_session
        [Inr SyncRequestMsg, Inr (FileDeleteMsg ''evil/passwd'' 5), Inr (FileRenameMsg ''docs'' ''x'' 6)] demo_server))))"
proof -
  have ok: "silo_ok [''silo''] (sv_fs demo_server)"
    using demo_silo_ok by (simp add: demo_server_def)
  have r: "pj_root (ss_jail demo_session) = [''silo'']" by (simp add: demo_session_def)
  have v: "valid_inbox [Inr SyncRequestMsg, Inr (FileDeleteMsg ''evil/passwd'' 5), Inr (FileRenameMsg ''docs'' ''x'' 6)]"
    by (auto simp: valid_inbox_def safe_path_def)
  show ?thesis
    using session_confined[OF ok r v] by (simp add: demo_server_def)
qed

section \<open>Only verified content is acknowledged\<close>

lemma atomic_write_Inr:
  assumes "atomic_write env hex fuel fs jail rel content e = (Inr u, sts)"
  shows "\<exists>dest d. resolve fuel fs jail rel = Inr dest \<and> kernel_path fuel fs dest = Some d
    \<and> last sts d = Some (Regular (written_node env content e))"
proof -
  obtain dest d where d: "resolve fuel fs jail rel = Inr dest" "kernel_path fuel fs dest = Some d"
    using assms by (auto simp: atomic_write_def split: sum.splits option.splits)
  with atomic_write_last[OF d assms, of u] show ?thesis by (auto split: option.splits)
qed

definition owner_ok :: "config \<Rightarrow> SiloSession \<Rightarrow> FileEntry \<Rightarrow> bool" where
  "owner_ok cf ss entry \<longleftrightarrow>
     \<not> is_error (resolve_uid (os_pwd (cf_env cf)) (fe_uid_name entry) (ss_uid_policy ss))
     \<and> \<not> is_error (resolve_gid (os_grp (cf_env cf)) (fe_gid_name entry) (ss_gid_policy ss))"

lemma store_content_ack:
  assumes "TransferAckMsg t s \<in> set (oc_sent (store_content cf ss tid entry content scan i sv))"
  shows "t = tid \<and> s = scan_str scan \<and> owner_ok cf ss entry
    \<and> (\<exists>dest d. resolve (cf_fuel cf) (sv_fs sv) (ss_jail ss) (fe_path entry) = Inr dest
       \<and> kernel_path (cf_fuel cf) (sv_fs sv) dest = Some d
       \<and> sv_fs (oc_server (store_content cf ss tid entry content scan i sv)) d
         = Some (Regular (written_node (cf_env cf) content entry)))"
proof -
  obtain r sts where out: "atomic_write (cf_env cf) (cf_tmp_hex cf) (cf_fuel cf) (sv_fs sv) (ss_jail ss)
      (fe_path entry) content entry = (r, sts)" by fastforce
  have ok: "owner_ok cf ss entry" and r: "r = Inr ()"
    using assms by (auto simp: store_content_def out owner_ok_def
        split: if_splits sum.splits write_error.splits jail_error.splits)
  with assms atomic_write_Inr[OF out[unfolded r]] show ?thesis
    by (auto simp: store_content_def out owner_ok_def)
qed

lemma server_scan_clean: "server_scan cf content = Inr scan \<Longrightarrow> sc_is_clean scan \<Longrightarrow> scan = make_clean"
  using parse_response_clean by (auto simp: server_scan_def clamd_scan_def map_sum_Inr split: option.splits clamd_io.splits)

lemma check_content_ack:
  assumes "TransferAckMsg t s \<in> set (oc_sent (check_content cf ss tid entry h content i sv))"
  shows "t = tid \<and> s = ''CLEAN'' \<and> cf_rapidhash cf content = h \<and> server_scan cf content = Inr make_clean
    \<and> owner_ok cf ss entry
    \<and> (\<exists>dest d. resolve (cf_fuel cf) (sv_fs sv) (ss_jail ss) (fe_path entry) = Inr dest
       \<and> kernel_path (cf_fuel cf) (sv_fs sv) dest = Some d
       \<and> sv_fs (oc_server (check_content cf ss tid entry h content i sv)) d
         = Some (Regular (written_node (cf_env cf) content entry)))"
proof -
  obtain scan where c: "cf_rapidhash cf content = h" "server_scan cf content = Inr scan" "sc_is_clean scan"
      "check_content cf ss tid entry h content i sv = store_content cf ss tid entry content scan i sv"
    using assms by (auto simp: check_content_def split: if_splits sum.splits)
  from server_scan_clean[OF c(2,3)] store_content_ack[OF assms[unfolded c(4)]] c show ?thesis
    by (auto simp: scan_str_def make_clean_def)
qed

lemma handle_transfer_ack:
  assumes "TransferAckMsg t s \<in> set (oc_sent (handle_transfer cf ss ix tid entry n i sv))"
  shows "\<exists>h content i'. Inr (TransferCommitMsg tid h) \<in> set i
    \<and> handle_transfer cf ss ix tid entry n i sv = check_content cf ss tid entry h content i' sv"
proof -
  obtain r i1 where c: "collect_chunks tid (nat n) [] i = (r, i1)" by fastforce
  obtain m i2 where nm: "next_msg i1 = (m, i2)" by fastforce
  obtain h where h: "m = Inr (TransferCommitMsg tid h)"
      "\<exists>content. handle_transfer cf ss ix tid entry n i sv = check_content cf ss tid entry h content i2 sv"
    using assms
    by (auto simp: handle_transfer_def c nm drain_and_nack_def simp del: drain.simps
        split: sum.splits jail_error.splits collected.splits AnyMsg.splits base_error.splits if_splits)
  have "Inr (TransferCommitMsg tid h) \<in> set i"
    using nm[unfolded h(1) next_msg_Inr] set_mono_suffix[OF collect_suffix[of tid "nat n" "[]" i]] by (auto simp: c)
  with h show ?thesis by blast
qed

text \<open>C2: an acknowledged file was verified.  Whatever a client sends, an acknowledgement means that some
  content with exactly the committed hash was scanned and found clean, that the owner names passed the
  policy, and that this content is now the file where the resolved path leads, with sanitised mode.\<close>

theorem ack_means_verified:
  assumes "TransferAckMsg t s \<in> set (oc_sent (handle_transfer cf ss ix tid entry n i sv))"
  shows "\<exists>h content dest d. t = tid \<and> s = ''CLEAN'' \<and> Inr (TransferCommitMsg tid h) \<in> set i
    \<and> cf_rapidhash cf content = h \<and> server_scan cf content = Inr make_clean \<and> owner_ok cf ss entry
    \<and> resolve (cf_fuel cf) (sv_fs sv) (ss_jail ss) (fe_path entry) = Inr dest
    \<and> kernel_path (cf_fuel cf) (sv_fs sv) dest = Some d
    \<and> sv_fs (oc_server (handle_transfer cf ss ix tid entry n i sv)) d
      = Some (Regular (written_node (cf_env cf) content entry))"
proof -
  obtain h content i' where h: "Inr (TransferCommitMsg tid h) \<in> set i"
      "handle_transfer cf ss ix tid entry n i sv = check_content cf ss tid entry h content i' sv"
    using handle_transfer_ack[OF assms] by blast
  from check_content_ack[OF assms[unfolded h(2)]] h show ?thesis by auto
qed

section \<open>A transfer arrives\<close>

lemma collect_chunk_msgs:
  assumes "\<And>k. k \<in> fst ` set d \<Longrightarrow> k < int b"
  shows "collect_chunks tid (length chunks) d
      (map (\<lambda>(s, c). Inr (TransferChunkMsg tid (int s) c)) (enumerate b chunks) @ i)
    = (Chunks (d @ map (\<lambda>(s, c). (int s, c)) (enumerate b chunks)), i)"
  using assms
proof (induction chunks arbitrary: b d)
  case (Cons c chunks)
  have "int b \<notin> fst ` set d" using Cons.prems by force
  then have "dict_set (int b) c d = d @ [(int b, c)]" by (rule dict_set_new)
  then show ?case
    using Cons.IH[of "d @ [(int b, c)]" "Suc b"] Cons.prems by (fastforce simp: next_msg_def)
qed simp

lemma join_enumerated: "join_chunks (map (\<lambda>(s, c). (int s, c)) (enumerate 0 chunks)) = concat chunks"
proof -
  define d where "d = map (\<lambda>(s, c). (int s, c)) (enumerate 0 chunks)"
  have nth: "length d = length chunks" "\<And>k. k < length chunks \<Longrightarrow> d ! k = (int k, chunks ! k)"
    by (simp_all add: d_def nth_enumerate_eq)
  have keys: "map fst d = map int [0..<length chunks]"
    by (rule nth_equalityI) (simp_all add: nth)
  have "sorted (map int [0..<length chunks])" by (simp add: sorted_map)
  then have "sort (map fst d) = map int [0..<length chunks]" unfolding keys by (simp add: sorted_sort_id)
  moreover have "dict_get d (int k) = Some (chunks ! k)" if "k < length chunks" for k
  proof (rule map_of_is_SomeI)
    show "distinct (map fst d)" unfolding keys by (simp add: distinct_map)
    show "(int k, chunks ! k) \<in> set d" using that nth_mem[of k d] nth by simp
  qed
  ultimately have "join_chunks d = concat (map (\<lambda>k. chunks ! k) [0..<length chunks])"
    unfolding join_chunks_def by (simp add: comp_def) (intro arg_cong[of _ _ concat] map_cong, auto)
  then show ?thesis by (simp add: map_nth d_def)
qed

text \<open>What the server needs to take a transfer: the path resolves to a place that can be written, the
  owner passes the policy and is known, no system call fails, and for a delta the base is there.\<close>

definition can_store :: "config \<Rightarrow> SiloSession \<Rightarrow> server \<Rightarrow> FileEntry \<Rightarrow> path \<Rightarrow> bool" where
  "can_store cf ss sv e dest \<longleftrightarrow>
     resolve (cf_fuel cf) (sv_fs sv) (ss_jail ss) (fe_path e) = Inr dest
     \<and> kernel_path (cf_fuel cf) (sv_fs sv) dest = Some dest \<and> \<not> utime_overflows e
     \<and> owner_ok cf ss e \<and> (\<forall>s. \<not> os_fail (cf_env cf) s)
     \<and> os_pwd (cf_env cf) (fe_uid_name e) \<noteq> None \<and> os_grp (cf_env cf) (fe_gid_name e) \<noteq> None
     \<and> mkdirs (sv_fs sv) [] (butlast dest) \<noteq> None \<and> sv_fs sv dest \<noteq> Some Directory"

lemma store_content_succeeds:
  assumes "can_store cf ss sv e dest"
  shows "oc_result (store_content cf ss tid e content make_clean i sv) = Inr ()
    \<and> oc_sent (store_content cf ss tid e content make_clean i sv) = [TransferAckMsg tid ''CLEAN'']
    \<and> sv_fs (oc_server (store_content cf ss tid e content make_clean i sv)) dest
      = Some (Regular (written_node (cf_env cf) content e))"
proof -
  let ?w = "atomic_write (cf_env cf) (cf_tmp_hex cf) (cf_fuel cf) (sv_fs sv) (ss_jail ss) (fe_path e) content e"
  have "fst ?w = Inr ()"
    using assms by (auto simp: can_store_def intro: atomic_write_succeeds)
  then obtain sts where w: "?w = (Inr (), sts)" by (cases ?w) auto
  from atomic_write_Inr[OF w] assms
  have "last sts dest = Some (Regular (written_node (cf_env cf) content e))"
    by (auto simp: can_store_def)
  with w assms show ?thesis
    by (simp add: store_content_def can_store_def owner_ok_def scan_str_def make_clean_def)
qed

lemma handle_transfer_engine:
  assumes "resolve (cf_fuel cf) (sv_fs sv) (ss_jail ss) (fe_path e) = Inr dest"
    and "rebuild cf sv ss ix e payload = Inr content"
  shows "handle_transfer cf ss ix tid e (int (length (split_chunks payload)))
      (map Inr (tl (transfer_msgs tid e payload)) @ i) sv
    = check_content cf ss tid e (fe_rapidhash e) content i sv"
proof -
  let ?cs = "split_chunks payload"
  have msgs: "map Inr (tl (transfer_msgs tid e payload)) @ i
      = map (\<lambda>(s, c). Inr (TransferChunkMsg tid (int s) c)) (enumerate 0 ?cs)
        @ Inr (TransferCommitMsg tid (fe_rapidhash e)) # i"
    by (simp add: transfer_msgs_def chunk_msgs_def Let_def comp_def case_prod_unfold)
  have join: "join_chunks (map (\<lambda>(s, c). (int s, c)) (enumerate 0 ?cs)) = payload"
    by (simp add: join_enumerated split_chunks_concat)
  show ?thesis
    unfolding msgs using assms collect_chunk_msgs[of "[]" 0 tid ?cs]
    by (simp add: handle_transfer_def join next_msg_def)
qed

lemma prepare_rebuild:
  assumes "xdelta_ok (cf_xdelta cf)" and "prepare_payload (cf_xdelta cf) entry content base = (e, payload)"
    and "base \<noteq> None \<Longrightarrow> fe_delta_base_rapidhash entry \<noteq> None \<Longrightarrow>
      map_sum id Some (read_base cf sv ss ix (fe_delta_base_rapidhash entry)) = Inr base"
  shows "rebuild cf sv ss ix e payload = Inr content"
proof (cases "fe_is_full e")
  case True
  with prepare_payload_reconstructs[OF assms(1,2)] show ?thesis by (simp add: rebuild_def reconstruct_def)
next
  case False
  then obtain b where b: "base = Some b" "fe_delta_base_rapidhash entry \<noteq> None"
      "fe_delta_base_rapidhash e = fe_delta_base_rapidhash entry"
    using assms(2) by (auto simp: prepare_payload_def Let_def split: option.splits if_splits)
  with assms(3) have "read_base cf sv ss ix (fe_delta_base_rapidhash e) = Inr b"
    by (cases "read_base cf sv ss ix (fe_delta_base_rapidhash entry)") auto
  with False b(1) prepare_payload_reconstructs[OF assms(1,2)] show ?thesis
    by (auto simp: rebuild_def reconstruct_def split: sum.splits)
qed

lemma transfer_stored:
  assumes "xdelta_ok (cf_xdelta cf)" and "prepare_payload (cf_xdelta cf) entry content base = (e, payload)"
    and "base \<noteq> None \<Longrightarrow> fe_delta_base_rapidhash entry \<noteq> None \<Longrightarrow>
      map_sum id Some (read_base cf sv ss ix (fe_delta_base_rapidhash entry)) = Inr base"
    and "cf_rapidhash cf content = fe_rapidhash entry" and "server_scan cf content = Inr make_clean"
    and "can_store cf ss sv e dest"
  shows "handle_transfer cf ss ix tid e (int (length (split_chunks payload)))
        (map Inr (tl (transfer_msgs tid e payload)) @ i) sv
      = store_content cf ss tid e content make_clean i sv"
proof -
  have "resolve (cf_fuel cf) (sv_fs sv) (ss_jail ss) (fe_path e) = Inr dest"
    using assms(6) by (simp add: can_store_def)
  moreover have "fe_rapidhash e = fe_rapidhash entry"
    using assms(2) by (auto simp: prepare_payload_def Let_def split: option.splits if_splits)
  moreover have "rebuild cf sv ss ix e payload = Inr content" using assms(1-3) by (rule prepare_rebuild)
  ultimately show ?thesis
    using handle_transfer_engine assms(4,5) by (simp add: check_content_def make_clean_def)
qed

lemma send_write_msgs:
  assumes "prepare_payload xd entry content base = (e, payload)"
  shows "fst (send_write xd tid entry content base reply) = transfer_msgs tid e payload"
    and "snd (send_write xd tid entry content base (Inr (TransferAckMsg tid s))) = Inr s"
  using assms by (simp_all add: send_write_def do_transfer_def transfer_reply_def)


lemma demo_can_store:
  assumes "fe_path e = ''docs/a''" and "fe_uid_name e = ''fm''" and "fe_gid_name e = ''staff''"
    and "total_mtime_ns e = 3000000004"
  shows "can_store demo_config demo_session demo_server e [''silo'', ''docs'', ''a'']"
proof -
  have "resolve 8 demo_fs demo_jail ''docs/a'' = Inr [''silo'', ''docs'', ''a'']" by (simp add: jail_eval)
  with assms show ?thesis
    by (simp add: can_store_def kernel_path_def utime_overflows_def demo_config_def demo_session_def demo_server_def owner_ok_def demo_env_def
        resolve_uid_def resolve_gid_def check_denied_uid_def check_denied_gid_def DENIED_UID_NAMES_def
        DENIED_GID_NAMES_def lookup_uid_safe_def lookup_gid_safe_def demo_fs_def)
qed


lemma one_chunk_transfer:
  assumes "can_store cf ss sv e dest" and "fe_is_full e" and "cf_rapidhash cf content = h"
    and "cf_clamd cf = None"
  shows "handle_transfer cf ss ix tid e 1
      [Inr (TransferChunkMsg tid 0 content), Inr (TransferCommitMsg tid h)] sv
    = store_content cf ss tid e content make_clean [] sv"
  using assms by (simp add: handle_transfer_def can_store_def next_msg_def rebuild_def reconstruct_def join_chunks_def
      check_content_def server_scan_def) (simp add: make_clean_def)

theorem ack_means_verified_witness:
  "\<exists>h content dest d. Inr (TransferCommitMsg 9 h) \<in> set ([Inr (TransferChunkMsg 9 0 [1, 2]), Inr (TransferCommitMsg 9 2)] :: inbox)
    \<and> cf_rapidhash demo_config content = h
    \<and> resolve 8 demo_fs demo_jail ''docs/a'' = Inr dest \<and> kernel_path 8 demo_fs dest = Some d
    \<and> sv_fs (oc_server (handle_transfer demo_config demo_session (new_SiloIndex 1 ''server'') 9 demo_entry 1
        [Inr (TransferChunkMsg 9 0 [1, 2]), Inr (TransferCommitMsg 9 2)] demo_server)) d
      = Some (Regular (written_node demo_env content demo_entry))"
proof -
  let ?i = "[Inr (TransferChunkMsg 9 0 [1, 2]), Inr (TransferCommitMsg 9 2)] :: inbox"
  let ?oc = "handle_transfer demo_config demo_session (new_SiloIndex 1 ''server'') 9 demo_entry 1 ?i demo_server"
  have can: "can_store demo_config demo_session demo_server demo_entry [''silo'', ''docs'', ''a'']"
    by (rule demo_can_store) (simp_all add: demo_entry_def total_mtime_ns_def)
  have "?oc = store_content demo_config demo_session 9 demo_entry [1, 2] make_clean [] demo_server"
    by (rule one_chunk_transfer[OF can]) (simp_all add: demo_config_def demo_entry_def)
  then have "TransferAckMsg 9 ''CLEAN'' \<in> set (oc_sent ?oc)" using store_content_succeeds[OF can] by simp
  from ack_means_verified[OF this] obtain h content dest d where
    "Inr (TransferCommitMsg 9 h) \<in> set ?i" "cf_rapidhash demo_config content = h"
    "resolve (cf_fuel demo_config) (sv_fs demo_server) (ss_jail demo_session) (fe_path demo_entry) = Inr dest"
    "kernel_path (cf_fuel demo_config) (sv_fs demo_server) dest = Some d"
    "sv_fs (oc_server ?oc) d = Some (Regular (written_node (cf_env demo_config) content demo_entry))"
    by blast
  then show ?thesis
    by (intro exI[of _ h] exI[of _ content] exI[of _ dest] exI[of _ d])
      (simp add: demo_config_def demo_server_def demo_session_def demo_entry_def)
qed

section \<open>What the server does not enforce\<close>

lemma session_ops_frame:
  "ss_jail (ss\<lparr>ss_allowed_ops := ops\<rparr>) = ss_jail ss" "ss_client_cn (ss\<lparr>ss_allowed_ops := ops\<rparr>) = ss_client_cn ss"
  "ss_silo_id (ss\<lparr>ss_allowed_ops := ops\<rparr>) = ss_silo_id ss"
  "ss_uid_policy (ss\<lparr>ss_allowed_ops := ops\<rparr>) = ss_uid_policy ss"
  "ss_gid_policy (ss\<lparr>ss_allowed_ops := ops\<rparr>) = ss_gid_policy ss"
  by simp_all

lemma handlers_ignore_ops:
  "handle_transfer cf (ss\<lparr>ss_allowed_ops := ops\<rparr>) ix tid entry n i sv = handle_transfer cf ss ix tid entry n i sv"
  "handle_delete cf (ss\<lparr>ss_allowed_ops := ops\<rparr>) p sv = handle_delete cf ss p sv"
  "handle_rename cf (ss\<lparr>ss_allowed_ops := ops\<rparr>) p q sv = handle_rename cf ss p q sv"
  unfolding handle_transfer_def check_content_def store_content_def rebuild_def read_base_def
    handle_delete_def handle_rename_def session_ops_frame by (rule refl)+

lemma serve_loop_ignores_ops:
  "serve_loop cf (ss\<lparr>ss_allowed_ops := ops\<rparr>) ix i sent sv = serve_loop cf ss ix i sent sv"
proof (induction cf ss ix i sent sv rule: serve_loop.induct)
  case (3 cf ss ix m i sent sv)
  then show ?case
    by (cases m) (simp_all add: handlers_ignore_ops Let_def split: sum.split prod.split)
qed simp_all

text \<open>the operations a policy grants are never consulted: a session that is granted nothing at all
  is served exactly like one that is granted everything, so a read-only client can write, delete and
  rename.\<close>

theorem allowed_ops_not_enforced:
  "serve_session cf (ss\<lparr>ss_allowed_ops := []\<rparr>) i sv = serve_session cf ss i sv"
  unfolding serve_session_def session_ops_frame serve_loop_ignores_ops by (rule refl)

lemma handlers_keep_indexes:
  "sv_indexes (oc_server (handle_transfer cf ss ix tid entry n i sv)) = sv_indexes sv"
  "sv_indexes (snd (handle_delete cf ss p sv)) = sv_indexes sv"
  "sv_indexes (snd (handle_rename cf ss p q sv)) = sv_indexes sv"
  by (auto simp: handle_transfer_def check_content_def store_content_def drain_and_nack_def
      handle_delete_def handle_rename_def simp del: drain.simps
      split: sum.split jail_error.split prod.split collected.split AnyMsg.split base_error.split
        write_error.split option.split)

lemma serve_loop_keeps_indexes: "sv_indexes (snd (snd (serve_loop cf ss ix i sent sv))) = sv_indexes sv"
proof (induction cf ss ix i sent sv rule: serve_loop.induct)
  case (3 cf ss ix m i sent sv)
  let ?cf = "at_message cf (length i)"
  have d: "sv_indexes sv' = sv_indexes sv" if "handle_delete ?cf ss p sv = (r, sv')" for p r sv'
    using that handlers_keep_indexes(2)[of ?cf ss p sv] by simp
  have r: "sv_indexes sv' = sv_indexes sv" if "handle_rename ?cf ss p q sv = (r, sv')" for p q r sv'
    using that handlers_keep_indexes(3)[of ?cf ss p q sv] by simp
  from 3 show ?case
    by (cases m) (auto simp: handlers_keep_indexes Let_def d r split: sum.split prod.split)
qed simp_all

text \<open>the server's index never learns of what the server stores: whatever a session writes, deletes or
  renames, the index of a known silo is the same afterwards, so the next synchronisation answers
  with the old state and the client sends everything again.\<close>

theorem server_index_never_updated:
  assumes "dict_get (sv_indexes sv) (ss_silo_id ss) \<noteq> None"
  shows "sv_indexes (snd (snd (serve_session cf ss i sv))) = sv_indexes sv"
  using assms
  by (auto simp: serve_session_def Let_def serve_loop_keeps_indexes split: prod.split sum.split)

theorem server_index_never_updated_witness:
  "sv_indexes (snd (snd (serve_session demo_config demo_session [Inr SyncRequestMsg, Inr (FileDeleteMsg ''docs/a'' 5)]
     (demo_server\<lparr>sv_indexes := [(1, sample_index)]\<rparr>)))) = [(1, sample_index)]"
  using server_index_never_updated[of "demo_server\<lparr>sv_indexes := [(1, sample_index)]\<rparr>" demo_session demo_config]
  by (simp add: demo_session_def)

text \<open>the owner the policy computes is thrown away: the stored file gets the local account that has the
  name the client sent.  A client that names an account with uid 0, under a policy that maps every
  name to an unprivileged account, gets a file owned by uid 0 acknowledged.\<close>

theorem stored_owner_bypasses_policy:
  "\<exists>cf ss e oc n. resolve_uid (os_pwd (cf_env cf)) (fe_uid_name e) (ss_uid_policy ss) = Inr 65534
    \<and> handle_transfer cf ss (new_SiloIndex 1 ''server'') 9 e 1
        [Inr (TransferChunkMsg 9 0 [1, 2]), Inr (TransferCommitMsg 9 2)] demo_server = oc
    \<and> oc_sent oc = [TransferAckMsg 9 ''CLEAN'']
    \<and> sv_fs (oc_server oc) [''silo'', ''docs'', ''a''] = Some (Regular n) \<and> fn_uid n = 0"
proof -
  let ?e = "demo_entry\<lparr>fe_uid_name := ''admin''\<rparr>"
  let ?env = "demo_env\<lparr>os_pwd := [''admin'' \<mapsto> 0, ''nobody'' \<mapsto> 65534]\<rparr>"
  let ?cf = "demo_config\<lparr>cf_env := ?env\<rparr>"
  let ?ss = "demo_session\<lparr>ss_uid_policy := \<lparr>up_map = [], up_default = ''nobody'', up_deny = []\<rparr>\<rparr>"
  let ?oc = "handle_transfer ?cf ?ss (new_SiloIndex 1 ''server'') 9 ?e 1
        [Inr (TransferChunkMsg 9 0 [1, 2]), Inr (TransferCommitMsg 9 2)] demo_server"
  have uid: "resolve_uid (os_pwd (cf_env ?cf)) (fe_uid_name ?e) (ss_uid_policy ?ss) = Inr 65534"
    by (simp add: resolve_uid_def check_denied_uid_def DENIED_UID_NAMES_def lookup_uid_safe_def)
  have "resolve 8 demo_fs demo_jail ''docs/a'' = Inr [''silo'', ''docs'', ''a'']" by (simp add: jail_eval)
  then have can: "can_store ?cf ?ss demo_server ?e [''silo'', ''docs'', ''a'']"
    using uid by (simp add: can_store_def kernel_path_def utime_overflows_def total_mtime_ns_def owner_ok_def demo_entry_def demo_config_def demo_session_def
        demo_server_def demo_env_def resolve_gid_def check_denied_gid_def DENIED_GID_NAMES_def
        lookup_gid_safe_def demo_fs_def)
  have oc: "?oc = store_content ?cf ?ss 9 ?e [1, 2] make_clean [] demo_server"
    by (rule one_chunk_transfer[OF can]) (simp_all add: demo_config_def demo_entry_def)
  show ?thesis
    using uid store_content_succeeds[OF can, of 9 "[1, 2]" "[]"] oc
    by (intro exI[of _ ?cf] exI[of _ ?ss] exI[of _ ?e] exI[of _ ?oc]
        exI[of _ "written_node ?env [1, 2] ?e"]) (simp add: written_node_def)
qed

text \<open>a transfer for the path \<^verbatim>\<open>.\<close> passes every check of the message and of the jail, and while it is
  handled its content stands in a temporary file next to the silo root, outside the jail; the write
  then fails and the file is removed.\<close>

theorem dot_path_writes_outside:
  "safe_path ''.'' \<and> (\<exists>st \<in> set (snd (atomic_write demo_env ''0f'' 8 demo_fs demo_jail ''.'' [1, 2] demo_entry)).
     st [''.chiralite_tmp_0f''] \<noteq> None) \<and> \<not> prefix (pj_root demo_jail) [''.chiralite_tmp_0f'']"
  by (simp add: safe_path_def atomic_write_def jail_eval kernel_path_def tmp_path_def write_stages_def step_fails_def clean_up_def
      utime_overflows_def total_mtime_ns_def lookup_uid_def lookup_gid_def demo_env_def demo_entry_def)

end
