(* ===== verification/Handshake.thy ===== *)
theory Handshake
  imports Framing
begin

text \<open>
  \<^verbatim>\<open>crypto/certificates.py\<close>, \<^verbatim>\<open>crypto/session.py\<close>, \<^verbatim>\<open>trust/store.py\<close> and \<^verbatim>\<open>crypto/handshake.py\<close>: the
  mutual authentication that opens a connection.  The two sides are functions on the framed
  connection in plain mode.  What the \<^verbatim>\<open>cryptography\<close> package computes is the parameter \<open>crypto\<close>;
  clock readings and random bytes are the argument \<open>hs_env\<close>.
\<close>

section \<open>The cryptography package\<close>

text \<open>Keys are told apart by type only where the code does it; \<open>OtherPrivate\<close> is any other object,
  \<^verbatim>\<open>None\<close> included.\<close>

datatype public_key = Ed25519Public bytes | EllipticCurvePublic bytes | OtherPublic
datatype private_key = Ed25519Private bytes | EllipticCurvePrivate bytes | OtherPrivate

datatype cn_value = CnText string | CnRaw bytes

text \<open>The parts of a parsed certificate the code reads; times in microseconds.\<close>

record certificate =
  ce_common_names :: "cn_value list"
  ce_not_before :: int
  ce_not_after :: int
  ce_public_key :: public_key
  ce_signature :: bytes
  ce_tbs :: bytes
  ce_hash :: "string option"

text \<open>\<^verbatim>\<open>verify\<close> returns or raises: a truth value.  \<^verbatim>\<open>exchange\<close> may raise: \<open>None\<close>.  The second argument
  of \<open>cy_ec_sign\<close> is the randomness of the signature.\<close>

record crypto =
  cy_load_pem :: "string \<Rightarrow> certificate option"
  cy_dump_pem :: "certificate \<Rightarrow> string"
  cy_ed_sign :: "bytes \<Rightarrow> bytes \<Rightarrow> bytes"
  cy_ed_verify :: "bytes \<Rightarrow> bytes \<Rightarrow> bytes \<Rightarrow> bool"
  cy_ec_sign :: "bytes \<Rightarrow> bytes \<Rightarrow> string \<Rightarrow> bytes \<Rightarrow> bytes"
  cy_ec_verify :: "bytes \<Rightarrow> string \<Rightarrow> bytes \<Rightarrow> bytes \<Rightarrow> bool"
  cy_x25519_public :: "bytes \<Rightarrow> bytes"
  cy_x25519_load :: "bytes \<Rightarrow> bool"
  cy_x25519_exchange :: "bytes \<Rightarrow> bytes \<Rightarrow> bytes option"
  cy_hkdf :: "bytes \<Rightarrow> string \<Rightarrow> bytes \<Rightarrow> bytes"
  cy_aesgcm :: "bytes \<Rightarrow> aesgcm"

section \<open>Certificates\<close>

datatype cert_error =
    BadPem
  | NoCommonName
  | CommonNameNotText
  | NotYetValid string
  | Expired string
  | MissingHashAlgorithm
  | UnsupportedCaKey
  | BadCertSignature

definition load_cert :: "crypto \<Rightarrow> string \<Rightarrow> cert_error + certificate" where
  "load_cert cy pem = (case cy_load_pem cy pem of None \<Rightarrow> Inl BadPem | Some c \<Rightarrow> Inr c)"

definition get_cn :: "certificate \<Rightarrow> cert_error + string" where
  "get_cn c =
     (case ce_common_names c of
        [] \<Rightarrow> Inl NoCommonName
      | CnText cn # _ \<Rightarrow> Inr cn
      | CnRaw _ # _ \<Rightarrow> Inl CommonNameNotText)"

text \<open>The two validity errors put the common name into their text, so a certificate without one
  raises the error of \<open>get_cn\<close> instead.\<close>

definition verify_chain :: "crypto \<Rightarrow> int \<Rightarrow> certificate \<Rightarrow> certificate \<Rightarrow> cert_error + unit" where
  "verify_chain cy now cert ca =
     (if ce_not_before cert > now then
        (case get_cn cert of Inl e \<Rightarrow> Inl e | Inr cn \<Rightarrow> Inl (NotYetValid cn))
      else if ce_not_after cert < now then
        (case get_cn cert of Inl e \<Rightarrow> Inl e | Inr cn \<Rightarrow> Inl (Expired cn))
      else case ce_public_key ca of
             Ed25519Public k \<Rightarrow>
               if cy_ed_verify cy k (ce_signature cert) (ce_tbs cert) then Inr () else Inl BadCertSignature
           | EllipticCurvePublic k \<Rightarrow>
               (case ce_hash cert of
                  None \<Rightarrow> Inl MissingHashAlgorithm
                | Some h \<Rightarrow> if cy_ec_verify cy k h (ce_signature cert) (ce_tbs cert) then Inr ()
                            else Inl BadCertSignature)
           | OtherPublic \<Rightarrow> Inl UnsupportedCaKey)"

definition days_until_expiry :: "int \<Rightarrow> certificate \<Rightarrow> int" where
  "days_until_expiry now cert = (ce_not_after cert - now) div (24 * 60 * 60 * 1000000)"

datatype trust_error = TrustError cert_error

record TrustStore =
  ts_ca_cert :: certificate

definition verify_cert :: "crypto \<Rightarrow> int \<Rightarrow> TrustStore \<Rightarrow> certificate \<Rightarrow> trust_error + unit" where
  "verify_cert cy now ts cert =
     (case verify_chain cy now cert (ts_ca_cert ts) of Inl e \<Rightarrow> Inl (TrustError e) | Inr u \<Rightarrow> Inr u)"

section \<open>The ephemeral key\<close>

datatype session_error = KeyConsumed | BadPublicLength nat | InvalidPublic | ExchangeRaised | ZeroSecret

record EphemeralKey =
  ek_private :: "bytes option"
  ek_public_bytes :: bytes

definition EphemeralKey_new :: "crypto \<Rightarrow> bytes \<Rightarrow> EphemeralKey" where
  "EphemeralKey_new cy secret = \<lparr>ek_private = Some secret, ek_public_bytes = cy_x25519_public cy secret\<rparr>"

abbreviation HKDF_INFO :: string where "HKDF_INFO \<equiv> ''chiralite-session-v1''"

definition derive_session_key :: "crypto \<Rightarrow> bytes \<Rightarrow> bytes \<Rightarrow> bytes \<Rightarrow> EphemeralKey
    \<Rightarrow> (session_error + bytes) \<times> EphemeralKey" where
  "derive_session_key cy remote nc ns ek =
     (case ek_private ek of
        None \<Rightarrow> (Inl KeyConsumed, ek)
      | Some secret \<Rightarrow>
          if length remote \<noteq> 32 then (Inl (BadPublicLength (length remote)), ek)
          else if \<not> cy_x25519_load cy remote then (Inl InvalidPublic, ek)
          else case cy_x25519_exchange cy secret remote of
                 None \<Rightarrow> (Inl ExchangeRaised, ek)
               | Some shared \<Rightarrow>
                   if shared = replicate 32 0 then (Inl ZeroSecret, ek\<lparr>ek_private := None\<rparr>)
                   else (Inr (cy_hkdf cy (nc @ ns) HKDF_INFO shared), ek\<lparr>ek_private := None\<rparr>))"

section \<open>Signatures and the timestamp\<close>

datatype handshake_error =
    UnsupportedPrivateKey
  | UnsupportedPublicKey
  | SignatureFailed
  | StaleTimestamp int
  | RecvFailed frame_error
  | Unexpected MsgType MsgType
  | RejectedByServer string
  | CertificateRejected cert_error
  | SiloNotAllowed uuid string

definition sign_challenge :: "crypto \<Rightarrow> bytes \<Rightarrow> bytes \<Rightarrow> private_key \<Rightarrow> handshake_error + bytes" where
  "sign_challenge cy rnd data key =
     (case key of
        Ed25519Private k \<Rightarrow> Inr (cy_ed_sign cy k data)
      | EllipticCurvePrivate k \<Rightarrow> Inr (cy_ec_sign cy k rnd ''sha256'' data)
      | OtherPrivate \<Rightarrow> Inl UnsupportedPrivateKey)"

definition verify_signature :: "crypto \<Rightarrow> bytes \<Rightarrow> bytes \<Rightarrow> public_key \<Rightarrow> handshake_error + unit" where
  "verify_signature cy data sg key =
     (case key of
        Ed25519Public k \<Rightarrow> if cy_ed_verify cy k sg data then Inr () else Inl SignatureFailed
      | EllipticCurvePublic k \<Rightarrow> if cy_ec_verify cy k ''sha256'' sg data then Inr () else Inl SignatureFailed
      | OtherPublic \<Rightarrow> Inl UnsupportedPublicKey)"

definition TIMESTAMP_TOLERANCE_NS :: int where
  "TIMESTAMP_TOLERANCE_NS = 30000000000"

definition validate_hello_timestamp :: "int \<Rightarrow> int \<Rightarrow> handshake_error + unit" where
  "validate_hello_timestamp now ts =
     (if \<bar>now - ts\<bar> > TIMESTAMP_TOLERANCE_NS then Inl (StaleTimestamp \<bar>now - ts\<bar>) else Inr ())"

section \<open>The two sides\<close>

text \<open>Clock readings and random values of one run, and \<^verbatim>\<open>str(exc)\<close> for the reasons sent to the peer.\<close>

record hs_env =
  he_nonce :: bytes
  he_challenge :: bytes
  he_token :: bytes
  he_secret :: bytes
  he_sign_rnd :: bytes
  he_now_ns :: int
  he_now :: int
  he_text :: "handshake_error \<Rightarrow> string"

text \<open>The exceptions that leave the two functions: \<^verbatim>\<open>HandshakeError\<close> and what they do not convert.\<close>

datatype hs_exc =
    HandshakeFailed handshake_error
  | RecvExc frame_error
  | SessionExc session_error
  | CodecExc frame_error
  | AttributeError

record ClientHandshakeResult =
  ch_codec :: PayloadCodec
  ch_session_token :: bytes
  ch_server_cn :: string

record ServerHandshakeResult =
  sh_codec :: PayloadCodec
  sh_session_token :: bytes
  sh_client_cn :: string
  sh_silo_id :: uuid

text \<open>The peer's certificate: parsed, checked against the authority, named.\<close>

definition peer_certificate :: "crypto \<Rightarrow> int \<Rightarrow> certificate \<Rightarrow> string \<Rightarrow> cert_error + certificate \<times> string" where
  "peer_certificate cy now ca pem =
     (case load_cert cy pem of
        Inl e \<Rightarrow> Inl e
      | Inr cert \<Rightarrow>
          (case verify_chain cy now cert ca of
             Inl e \<Rightarrow> Inl e
           | Inr _ \<Rightarrow> (case get_cn cert of Inl e \<Rightarrow> Inl e | Inr cn \<Rightarrow> Inr (cert, cn))))"

text \<open>Session key and codec at the end of either side.\<close>

definition session_codec :: "crypto \<Rightarrow> EphemeralKey \<Rightarrow> bytes \<Rightarrow> bytes \<Rightarrow> bytes \<Rightarrow> bytes \<Rightarrow> hs_exc + PayloadCodec" where
  "session_codec cy ek remote nc ns tok =
     (case derive_session_key cy remote nc ns ek of
        (Inl e, _) \<Rightarrow> Inl (SessionExc e)
      | (Inr key, _) \<Rightarrow>
          (case PayloadCodec_new (cy_aesgcm cy) key tok of Inl e \<Rightarrow> Inl (CodecExc e) | Inr c \<Rightarrow> Inr c))"

text \<open>The client after \<^verbatim>\<open>RESPONSE\<close>: read \<^verbatim>\<open>ACCEPT\<close>, check the server's signature, derive the key.\<close>

definition client_accept :: "crypto \<Rightarrow> wire \<Rightarrow> hs_env \<Rightarrow> EphemeralKey \<Rightarrow> certificate \<Rightarrow> string \<Rightarrow> bytes \<Rightarrow> bytes
    \<Rightarrow> FramedConnection \<Rightarrow> (hs_exc + ClientHandshakeResult) \<times> FramedConnection" where
  "client_accept cy w en ek cert cn ns ch fc =
     (case recv_plain w fc of
        (Inl e, fc1) \<Rightarrow> (Inl (RecvExc e), fc1)
      | (Inr (AuthErrorMsg reason), fc1) \<Rightarrow> (Inl (HandshakeFailed (RejectedByServer reason)), fc1)
      | (Inr (AcceptMsg sg pub tok _), fc1) \<Rightarrow>
          (case verify_signature cy (ch @ he_nonce en) sg (ce_public_key cert) of
             Inl e \<Rightarrow> (Inl (HandshakeFailed e), fc1)
           | Inr _ \<Rightarrow>
               (case session_codec cy ek pub (he_nonce en) ns tok of
                  Inl e \<Rightarrow> (Inl e, fc1)
                | Inr c \<Rightarrow> (Inr \<lparr>ch_codec = c, ch_session_token = tok, ch_server_cn = cn\<rparr>, fc1)))
      | (Inr m, fc1) \<Rightarrow> (Inl (HandshakeFailed (Unexpected ACCEPT (msg_type m))), fc1))"

definition perform_client_handshake :: "crypto \<Rightarrow> wire \<Rightarrow> hs_env \<Rightarrow> uuid \<Rightarrow> certificate \<Rightarrow> private_key \<Rightarrow> certificate
    \<Rightarrow> FramedConnection \<Rightarrow> (hs_exc + ClientHandshakeResult) \<times> FramedConnection" where
  "perform_client_handshake cy w en sid cert key ca fc =
     (let ek = EphemeralKey_new cy (he_secret en);
          fc1 = send_plain w (HelloMsg (cy_dump_pem cy cert) (he_nonce en) (he_now_ns en) sid) fc
      in case recv_plain w fc1 of
           (Inl e, fc2) \<Rightarrow> (Inl (RecvExc e), fc2)
         | (Inr (AuthErrorMsg reason), fc2) \<Rightarrow> (Inl (HandshakeFailed (RejectedByServer reason)), fc2)
         | (Inr (ChallengeMsg pem ns ch), fc2) \<Rightarrow>
             (case peer_certificate cy (he_now en) ca pem of
                Inl e \<Rightarrow> (Inl (HandshakeFailed (CertificateRejected e)), fc2)
              | Inr (server_cert, cn) \<Rightarrow>
                  (case sign_challenge cy (he_sign_rnd en) (ch @ ns) key of
                     Inl e \<Rightarrow> (Inl (HandshakeFailed e), fc2)
                   | Inr sg \<Rightarrow>
                       client_accept cy w en ek server_cert cn ns ch
                         (send_plain w (ResponseMsg sg (ek_public_bytes ek)) fc2)))
         | (Inr m, fc2) \<Rightarrow> (Inl (HandshakeFailed (Unexpected CHALLENGE (msg_type m))), fc2))"

text \<open>\<^verbatim>\<open>_reject\<close> followed by the \<^verbatim>\<open>raise\<close>.\<close>

definition reject :: "wire \<Rightarrow> hs_env \<Rightarrow> handshake_error \<Rightarrow> FramedConnection
    \<Rightarrow> (hs_exc + ServerHandshakeResult) \<times> FramedConnection" where
  "reject w en e fc = (Inl (HandshakeFailed e), send_plain w (AuthErrorMsg (he_text en e)) fc)"

text \<open>\<^verbatim>\<open>allowed_silos\<close> is a dictionary from names to sets of silos by its annotation; the server passes a
  list, which has no \<^verbatim>\<open>get\<close>.  An empty one of either kind is false and allows everything.\<close>

datatype silo_arg = SilosByName "(string, uuid list) dict" | SiloList "uuid list"

definition silo_refused :: "silo_arg \<Rightarrow> string \<Rightarrow> uuid \<Rightarrow> hs_exc + bool" where
  "silo_refused allowed cn sid =
     (case allowed of
        SilosByName d \<Rightarrow> Inr (d \<noteq> [] \<and> sid \<notin> set (case dict_get d cn of None \<Rightarrow> [] | Some s \<Rightarrow> s))
      | SiloList l \<Rightarrow> if l = [] then Inr False else Inl AttributeError)"

text \<open>The server after \<^verbatim>\<open>CHALLENGE\<close>: read \<^verbatim>\<open>RESPONSE\<close>, check the client's signature, sign, send
  \<^verbatim>\<open>ACCEPT\<close>, derive the key.\<close>

definition server_accept :: "crypto \<Rightarrow> wire \<Rightarrow> hs_env \<Rightarrow> private_key \<Rightarrow> certificate \<Rightarrow> string \<Rightarrow> uuid \<Rightarrow> bytes
    \<Rightarrow> FramedConnection \<Rightarrow> (hs_exc + ServerHandshakeResult) \<times> FramedConnection" where
  "server_accept cy w en key client_cert cn sid nc fc =
     (let ek = EphemeralKey_new cy (he_secret en) in
      case recv_plain w fc of
        (Inl e, fc1) \<Rightarrow> (Inl (HandshakeFailed (RecvFailed e)), fc1)
      | (Inr (ResponseMsg sg pub), fc1) \<Rightarrow>
          (case verify_signature cy (he_challenge en @ he_nonce en) sg (ce_public_key client_cert) of
             Inl e \<Rightarrow> reject w en e fc1
           | Inr _ \<Rightarrow>
               (case sign_challenge cy (he_sign_rnd en) (he_challenge en @ nc) key of
                  Inl e \<Rightarrow> (Inl (HandshakeFailed e), fc1)
                | Inr sig' \<Rightarrow>
                    (let fc2 = send_plain w (AcceptMsg sig' (ek_public_bytes ek) (he_token en) sid) fc1
                     in case session_codec cy ek pub nc (he_nonce en) (he_token en) of
                          Inl e \<Rightarrow> (Inl e, fc2)
                        | Inr c \<Rightarrow> (Inr \<lparr>sh_codec = c, sh_session_token = he_token en,
                                         sh_client_cn = cn, sh_silo_id = sid\<rparr>, fc2))))
      | (Inr m, fc1) \<Rightarrow> reject w en (Unexpected RESPONSE (msg_type m)) fc1)"

definition perform_server_handshake :: "crypto \<Rightarrow> wire \<Rightarrow> hs_env \<Rightarrow> certificate \<Rightarrow> private_key \<Rightarrow> certificate \<Rightarrow> silo_arg
    \<Rightarrow> FramedConnection \<Rightarrow> (hs_exc + ServerHandshakeResult) \<times> FramedConnection" where
  "perform_server_handshake cy w en cert key ca allowed fc =
     (case recv_plain w fc of
        (Inl e, fc1) \<Rightarrow> (Inl (HandshakeFailed (RecvFailed e)), fc1)
      | (Inr (HelloMsg pem nc ts sid), fc1) \<Rightarrow>
          (case validate_hello_timestamp (he_now_ns en) ts of
             Inl e \<Rightarrow> reject w en e fc1
           | Inr _ \<Rightarrow>
               (case peer_certificate cy (he_now en) ca pem of
                  Inl e \<Rightarrow> reject w en (CertificateRejected e) fc1
                | Inr (client_cert, cn) \<Rightarrow>
                    (case silo_refused allowed cn sid of
                       Inl x \<Rightarrow> (Inl x, fc1)
                     | Inr True \<Rightarrow> reject w en (SiloNotAllowed sid cn) fc1
                     | Inr False \<Rightarrow>
                         server_accept cy w en key client_cert cn sid nc
                           (send_plain w (ChallengeMsg (cy_dump_pem cy cert) (he_nonce en) (he_challenge en)) fc1))))
      | (Inr m, fc1) \<Rightarrow> reject w en (Unexpected HELLO (msg_type m)) fc1)"

section \<open>What a completed handshake establishes\<close>

lemma peer_certificate_Inr:
  "peer_certificate cy now ca pem = Inr (cert, cn) \<longleftrightarrow>
     cy_load_pem cy pem = Some cert \<and> verify_chain cy now cert ca = Inr () \<and> get_cn cert = Inr cn"
  by (auto simp: peer_certificate_def load_cert_def split: option.splits sum.splits)

lemma validate_hello_timestamp_Inr:
  "validate_hello_timestamp now ts = Inr u \<longleftrightarrow> \<bar>now - ts\<bar> \<le> TIMESTAMP_TOLERANCE_NS"
  by (auto simp: validate_hello_timestamp_def)

lemma reject_not_Inr [simp]: "reject w en e fc \<noteq> (Inr r, fc')"
  by (simp add: reject_def)

lemma server_accept_Inr:
  assumes "server_accept cy w en key cert cn sid nc fc = (Inr r, fc')"
  obtains sg pub fc1 where "recv_plain w fc = (Inr (ResponseMsg sg pub), fc1)"
    "verify_signature cy (he_challenge en @ he_nonce en) sg (ce_public_key cert) = Inr ()"
    "sh_client_cn r = cn" "sh_silo_id r = sid" "key \<noteq> OtherPrivate"
  using assms
  by (auto simp: server_accept_def sign_challenge_def Let_def
      split: prod.splits sum.splits AnyMsg.splits private_key.splits)

lemma perform_server_handshake_Inr:
  assumes "perform_server_handshake cy w en cert key ca allowed fc = (Inr r, fc')"
  obtains pem nc ts cl fc1 where
    "recv_plain w fc = (Inr (HelloMsg pem nc ts (sh_silo_id r)), fc1)"
    "\<bar>he_now_ns en - ts\<bar> \<le> TIMESTAMP_TOLERANCE_NS"
    "cy_load_pem cy pem = Some cl" "verify_chain cy (he_now en) cl ca = Inr ()" "get_cn cl = Inr (sh_client_cn r)"
    "silo_refused allowed (sh_client_cn r) (sh_silo_id r) = Inr False"
    "server_accept cy w en key cl (sh_client_cn r) (sh_silo_id r) nc
       (send_plain w (ChallengeMsg (cy_dump_pem cy cert) (he_nonce en) (he_challenge en)) fc1) = (Inr r, fc')"
proof -
  from assms obtain pem nc ts sid cl cn fc1 where h: "recv_plain w fc = (Inr (HelloMsg pem nc ts sid), fc1)"
    "validate_hello_timestamp (he_now_ns en) ts = Inr ()" "peer_certificate cy (he_now en) ca pem = Inr (cl, cn)"
    "silo_refused allowed cn sid = Inr False"
    and sa: "server_accept cy w en key cl cn sid nc
       (send_plain w (ChallengeMsg (cy_dump_pem cy cert) (he_nonce en) (he_challenge en)) fc1) = (Inr r, fc')"
    by (auto simp: perform_server_handshake_def split: prod.splits sum.splits AnyMsg.splits bool.splits)
  from sa have "sh_client_cn r = cn" "sh_silo_id r = sid" by (auto elim: server_accept_Inr)
  with h sa that show ?thesis by (auto simp: peer_certificate_Inr validate_hello_timestamp_Inr)
qed

text \<open>Signatures that cannot be forged: what verifies under a key was signed by its holder.\<close>

definition unforgeable :: "crypto \<Rightarrow> (public_key \<Rightarrow> bytes \<Rightarrow> bool) \<Rightarrow> bool" where
  "unforgeable cy signs \<longleftrightarrow> (\<forall>pk sg d. verify_signature cy d sg pk = Inr () \<longrightarrow> signs pk d)"

text \<open>C10: the server accepts only authenticated clients.  When its side of the handshake returns, the
  first message was a \<^verbatim>\<open>HELLO\<close> at most 30 seconds off the server's clock, with a certificate that the
  authority signed and that is valid now; the name and the silo returned are those of the certificate
  and of the \<^verbatim>\<open>HELLO\<close>, and the silo is allowed for the name; and the holder of the certificate's key
  signed the challenge and the nonce of this very run.\<close>

theorem server_handshake_authentic:
  assumes "unforgeable cy signs"
    and "perform_server_handshake cy w en cert key ca allowed fc = (Inr r, fc')"
  shows "\<exists>pem nc ts cl fc1. recv_plain w fc = (Inr (HelloMsg pem nc ts (sh_silo_id r)), fc1)
    \<and> \<bar>he_now_ns en - ts\<bar> \<le> 30000000000
    \<and> cy_load_pem cy pem = Some cl \<and> verify_chain cy (he_now en) cl ca = Inr ()
    \<and> get_cn cl = Inr (sh_client_cn r)
    \<and> silo_refused allowed (sh_client_cn r) (sh_silo_id r) = Inr False
    \<and> signs (ce_public_key cl) (he_challenge en @ he_nonce en)"
proof -
  obtain pem nc ts cl fc1 where h: "recv_plain w fc = (Inr (HelloMsg pem nc ts (sh_silo_id r)), fc1)"
    "\<bar>he_now_ns en - ts\<bar> \<le> 30000000000" "cy_load_pem cy pem = Some cl"
    "verify_chain cy (he_now en) cl ca = Inr ()" "get_cn cl = Inr (sh_client_cn r)"
    "silo_refused allowed (sh_client_cn r) (sh_silo_id r) = Inr False"
    and sa: "server_accept cy w en key cl (sh_client_cn r) (sh_silo_id r) nc
       (send_plain w (ChallengeMsg (cy_dump_pem cy cert) (he_nonce en) (he_challenge en)) fc1) = (Inr r, fc')"
    using perform_server_handshake_Inr[OF assms(2)] unfolding TIMESTAMP_TOLERANCE_NS_def by metis
  from sa assms(1) have "signs (ce_public_key cl) (he_challenge en @ he_nonce en)"
    by (auto elim!: server_accept_Inr simp: unforgeable_def)
  with h show ?thesis by blast
qed

lemma client_accept_Inr:
  assumes "client_accept cy w en ek cert cn ns ch fc = (Inr r, fc')"
  obtains sg where "verify_signature cy (ch @ he_nonce en) sg (ce_public_key cert) = Inr ()" "ch_server_cn r = cn"
  using assms by (auto simp: client_accept_def split: prod.splits sum.splits AnyMsg.splits)

text \<open>C33: the client accepts only the authenticated server.  When its side returns, the server showed a
  certificate that the authority signed and that is valid now, with the name returned, and the holder
  of its key signed the challenge together with the nonce this client chose.\<close>

theorem client_handshake_authentic:
  assumes "unforgeable cy signs"
    and "perform_client_handshake cy w en sid cert key ca fc = (Inr r, fc')"
  shows "\<exists>pem sc ns ch. fst (recv_plain w fc) = Inr (ChallengeMsg pem ns ch)
    \<and> cy_load_pem cy pem = Some sc \<and> verify_chain cy (he_now en) sc ca = Inr ()
    \<and> get_cn sc = Inr (ch_server_cn r) \<and> signs (ce_public_key sc) (ch @ he_nonce en)"
proof -
  let ?fc1 = "send_plain w (HelloMsg (cy_dump_pem cy cert) (he_nonce en) (he_now_ns en) sid) fc"
  from assms(2) obtain pem ns ch sc cn ek fc2 where
    c: "fst (recv_plain w ?fc1) = Inr (ChallengeMsg pem ns ch)" "peer_certificate cy (he_now en) ca pem = Inr (sc, cn)"
    and ca: "client_accept cy w en ek sc cn ns ch fc2 = (Inr r, fc')"
    by (auto simp: perform_client_handshake_def Let_def split: prod.splits sum.splits AnyMsg.splits)
  have "fst (recv_plain w ?fc1) = fst (recv_plain w fc)"
    by (simp add: recv_plain_def conn_recv_def send_plain_def split: list.split)
  with c(1) have "fst (recv_plain w fc) = Inr (ChallengeMsg pem ns ch)" by simp
  moreover from ca assms(1) have "signs (ce_public_key sc) (ch @ he_nonce en)" "ch_server_cn r = cn"
    by (auto elim!: client_accept_Inr simp: unforgeable_def)
  ultimately show ?thesis using c(2) by (metis peer_certificate_Inr)
qed

section \<open>Two honest parties\<close>

text \<open>A connection on which these messages wait, and one on which these have been sent.\<close>

definition waiting :: "wire \<Rightarrow> AnyMsg list \<Rightarrow> FramedConnection" where
  "waiting w ms = FramedConnection_new \<lparr>cn_inbox = map (wr_dump w) ms, cn_sent = []\<rparr>"

definition finished :: "wire \<Rightarrow> AnyMsg list \<Rightarrow> FramedConnection" where
  "finished w ms = FramedConnection_new \<lparr>cn_inbox = [], cn_sent = map (wr_dump w) ms\<rparr>"

definition carries :: "wire \<Rightarrow> AnyMsg \<Rightarrow> bool" where
  "carries w m \<longleftrightarrow> wr_decode w (wr_dump w m) = Some m"

lemma recv_plain_waiting:
  assumes "carries w m" and "valid_msg m" and "cn_inbox (fc_conn fc) = wr_dump w m # rest"
  shows "recv_plain w fc = (Inr m, fc\<lparr>fc_conn := (fc_conn fc)\<lparr>cn_inbox := rest\<rparr>\<rparr>)"
  using assms by (simp add: recv_plain_def conn_recv_def carries_def parse_json_dump)

record party =
  pt_cert :: certificate
  pt_key :: private_key
  pt_cn :: string
  pt_env :: hs_env

abbreviation public_of :: "crypto \<Rightarrow> party \<Rightarrow> bytes" where
  "public_of cy p \<equiv> cy_x25519_public cy (he_secret (pt_env p))"

text \<open>The other side, whose clock shows \<open>now\<close>, accepts the certificate, and the key fits it.\<close>

definition honest_party :: "crypto \<Rightarrow> certificate \<Rightarrow> int \<Rightarrow> party \<Rightarrow> bool" where
  "honest_party cy ca now p \<longleftrightarrow>
     peer_certificate cy now ca (cy_dump_pem cy (pt_cert p)) = Inr (pt_cert p, pt_cn p)
     \<and> (\<forall>rnd d. \<exists>sg. sign_challenge cy rnd d (pt_key p) = Inr sg
          \<and> verify_signature cy d sg (ce_public_key (pt_cert p)) = Inr ())"

definition sig_of :: "crypto \<Rightarrow> party \<Rightarrow> bytes \<Rightarrow> bytes" where
  "sig_of cy p d = projr (sign_challenge cy (he_sign_rnd (pt_env p)) d (pt_key p))"

lemma honest_sig:
  assumes "honest_party cy ca now p"
  shows "sign_challenge cy (he_sign_rnd (pt_env p)) d (pt_key p) = Inr (sig_of cy p d)"
    and "verify_signature cy d (sig_of cy p d) (ce_public_key (pt_cert p)) = Inr ()"
proof -
  from assms obtain sg where "sign_challenge cy (he_sign_rnd (pt_env p)) d (pt_key p) = Inr sg"
    "verify_signature cy d sg (ce_public_key (pt_cert p)) = Inr ()"
    unfolding honest_party_def by blast
  then show "sign_challenge cy (he_sign_rnd (pt_env p)) d (pt_key p) = Inr (sig_of cy p d)"
    "verify_signature cy d (sig_of cy p d) (ce_public_key (pt_cert p)) = Inr ()"
    by (simp_all add: sig_of_def)
qed

definition hello_of :: "crypto \<Rightarrow> party \<Rightarrow> uuid \<Rightarrow> AnyMsg" where
  "hello_of cy c sid = HelloMsg (cy_dump_pem cy (pt_cert c)) (he_nonce (pt_env c)) (he_now_ns (pt_env c)) sid"

definition challenge_of :: "crypto \<Rightarrow> party \<Rightarrow> AnyMsg" where
  "challenge_of cy s = ChallengeMsg (cy_dump_pem cy (pt_cert s)) (he_nonce (pt_env s)) (he_challenge (pt_env s))"

text \<open>\<^verbatim>\<open>RESPONSE\<close> and \<^verbatim>\<open>ACCEPT\<close> with the signatures of the honest parties and any ephemeral key.\<close>

definition response_of :: "crypto \<Rightarrow> party \<Rightarrow> party \<Rightarrow> bytes \<Rightarrow> AnyMsg" where
  "response_of cy c s pub = ResponseMsg (sig_of cy c (he_challenge (pt_env s) @ he_nonce (pt_env s))) pub"

definition accept_of :: "crypto \<Rightarrow> party \<Rightarrow> party \<Rightarrow> bytes \<Rightarrow> uuid \<Rightarrow> AnyMsg" where
  "accept_of cy c s pub sid =
     AcceptMsg (sig_of cy s (he_challenge (pt_env s) @ he_nonce (pt_env c))) pub (he_token (pt_env s)) sid"

text \<open>The key agreement works for a secret and a public key.\<close>

definition agreeable :: "crypto \<Rightarrow> bytes \<Rightarrow> bytes \<Rightarrow> bool" where
  "agreeable cy secret pub \<longleftrightarrow> length pub = 32 \<and> cy_x25519_load cy pub
     \<and> (\<exists>k. cy_x25519_exchange cy secret pub = Some k \<and> k \<noteq> replicate 32 0)"

definition shared_key :: "crypto \<Rightarrow> party \<Rightarrow> party \<Rightarrow> bytes \<Rightarrow> bytes \<Rightarrow> bytes" where
  "shared_key cy c s secret pub =
     cy_hkdf cy (he_nonce (pt_env c) @ he_nonce (pt_env s)) HKDF_INFO (the (cy_x25519_exchange cy secret pub))"

definition fresh_codec :: "crypto \<Rightarrow> bytes \<Rightarrow> bytes \<Rightarrow> PayloadCodec" where
  "fresh_codec cy key tok =
     \<lparr>pc_aesgcm = cy_aesgcm cy key, pc_session_token = tok, pc_send_seq = 0, pc_recv_seq = 0\<rparr>"

definition handshake_ready :: "crypto \<Rightarrow> certificate \<Rightarrow> silo_arg \<Rightarrow> party \<Rightarrow> party \<Rightarrow> uuid \<Rightarrow> bool" where
  "handshake_ready cy ca allowed c s sid \<longleftrightarrow>
     honest_party cy ca (he_now (pt_env s)) c \<and> honest_party cy ca (he_now (pt_env c)) s
     \<and> \<bar>he_now_ns (pt_env s) - he_now_ns (pt_env c)\<bar> \<le> TIMESTAMP_TOLERANCE_NS
     \<and> silo_refused allowed (pt_cn c) sid = Inr False
     \<and> (\<forall>salt info k. length (cy_hkdf cy salt info k) = 32)"

lemma session_codec_agreeable:
  assumes "agreeable cy secret pub" and "\<forall>salt info k. length (cy_hkdf cy salt info k) = 32"
  shows "session_codec cy (EphemeralKey_new cy secret) pub (he_nonce (pt_env c)) (he_nonce (pt_env s)) tok
     = Inr (fresh_codec cy (shared_key cy c s secret pub) tok)"
  using assms by (auto simp: agreeable_def session_codec_def derive_session_key_def EphemeralKey_new_def
      PayloadCodec_new_def fresh_codec_def shared_key_def)

lemma server_completes:
  assumes rdy: "handshake_ready cy ca allowed c s sid" and ag: "agreeable cy (he_secret (pt_env s)) pub"
    and carry: "carries w (hello_of cy c sid)" "carries w (response_of cy c s pub)"
  shows "perform_server_handshake cy w (pt_env s) (pt_cert s) (pt_key s) ca allowed
           (waiting w [hello_of cy c sid, response_of cy c s pub])
       = (Inr \<lparr>sh_codec = fresh_codec cy (shared_key cy c s (he_secret (pt_env s)) pub) (he_token (pt_env s)),
               sh_session_token = he_token (pt_env s), sh_client_cn = pt_cn c, sh_silo_id = sid\<rparr>,
          finished w [challenge_of cy s, accept_of cy c s (public_of cy s) sid])"
proof -
  let ?en = "pt_env s"
  let ?fc = "waiting w [hello_of cy c sid, response_of cy c s pub]"
  let ?f1 = "FramedConnection_new \<lparr>cn_inbox = [wr_dump w (response_of cy c s pub)], cn_sent = []\<rparr>"
  let ?f2 = "FramedConnection_new \<lparr>cn_inbox = [wr_dump w (response_of cy c s pub)], cn_sent = [wr_dump w (challenge_of cy s)]\<rparr>"
  have 1: "recv_plain w ?fc = (Inr (hello_of cy c sid), ?f1)"
    using carry(1) by (subst recv_plain_waiting) (auto simp: waiting_def FramedConnection_new_def hello_of_def)
  have 2: "recv_plain w ?f2 = (Inr (response_of cy c s pub), finished w [challenge_of cy s])"
    using carry(2) by (subst recv_plain_waiting) (auto simp: finished_def FramedConnection_new_def response_of_def)
  have hc: "honest_party cy ca (he_now ?en) c" and hs: "honest_party cy ca (he_now (pt_env c)) s"
    and ts: "validate_hello_timestamp (he_now_ns ?en) (he_now_ns (pt_env c)) = Inr ()"
    and al: "silo_refused allowed (pt_cn c) sid = Inr False"
    and hk: "\<forall>salt info k. length (cy_hkdf cy salt info k) = 32"
    using rdy by (auto simp: handshake_ready_def validate_hello_timestamp_def)
  have pc: "peer_certificate cy (he_now ?en) ca (cy_dump_pem cy (pt_cert c)) = Inr (pt_cert c, pt_cn c)"
    using hc by (simp add: honest_party_def)
  have acc: "server_accept cy w ?en (pt_key s) (pt_cert c) (pt_cn c) sid (he_nonce (pt_env c)) ?f2
      = (Inr \<lparr>sh_codec = fresh_codec cy (shared_key cy c s (he_secret ?en) pub) (he_token ?en),
               sh_session_token = he_token ?en, sh_client_cn = pt_cn c, sh_silo_id = sid\<rparr>,
          finished w [challenge_of cy s, accept_of cy c s (public_of cy s) sid])"
    unfolding server_accept_def 2
    by (simp add: response_of_def honest_sig[OF hc] honest_sig[OF hs] session_codec_agreeable[OF ag hk] Let_def)
      (simp add: send_plain_def finished_def FramedConnection_new_def accept_of_def EphemeralKey_new_def)
  have f2: "send_plain w (challenge_of cy s) ?f1 = ?f2"
    by (simp add: send_plain_def FramedConnection_new_def)
  show ?thesis
    unfolding perform_server_handshake_def 1
    using acc[folded f2, unfolded challenge_of_def] by (simp add: hello_of_def ts pc al challenge_of_def)
qed

lemma client_completes:
  assumes rdy: "handshake_ready cy ca allowed c s sid" and ag: "agreeable cy (he_secret (pt_env c)) pub"
    and carry: "carries w (challenge_of cy s)" "carries w (accept_of cy c s pub sid)"
  shows "perform_client_handshake cy w (pt_env c) sid (pt_cert c) (pt_key c) ca
           (waiting w [challenge_of cy s, accept_of cy c s pub sid])
       = (Inr \<lparr>ch_codec = fresh_codec cy (shared_key cy c s (he_secret (pt_env c)) pub) (he_token (pt_env s)),
               ch_session_token = he_token (pt_env s), ch_server_cn = pt_cn s\<rparr>,
          finished w [hello_of cy c sid, response_of cy c s (public_of cy c)])"
proof -
  let ?en = "pt_env c"
  let ?a = "wr_dump w (accept_of cy c s pub sid)"
  let ?f1 = "FramedConnection_new \<lparr>cn_inbox = [wr_dump w (challenge_of cy s), ?a], cn_sent = [wr_dump w (hello_of cy c sid)]\<rparr>"
  let ?f2 = "FramedConnection_new \<lparr>cn_inbox = [?a], cn_sent = [wr_dump w (hello_of cy c sid)]\<rparr>"
  let ?f3 = "FramedConnection_new \<lparr>cn_inbox = [?a],
     cn_sent = [wr_dump w (hello_of cy c sid), wr_dump w (response_of cy c s (public_of cy c))]\<rparr>"
  have 0: "send_plain w (HelloMsg (cy_dump_pem cy (pt_cert c)) (he_nonce ?en) (he_now_ns ?en) sid)
      (waiting w [challenge_of cy s, accept_of cy c s pub sid]) = ?f1"
    by (simp add: send_plain_def waiting_def FramedConnection_new_def hello_of_def)
  have 1: "recv_plain w ?f1 = (Inr (challenge_of cy s), ?f2)"
    using carry(1) by (subst recv_plain_waiting) (auto simp: FramedConnection_new_def challenge_of_def)
  have 3: "recv_plain w ?f3 = (Inr (accept_of cy c s pub sid),
      finished w [hello_of cy c sid, response_of cy c s (public_of cy c)])"
    using carry(2) by (subst recv_plain_waiting) (auto simp: finished_def FramedConnection_new_def accept_of_def)
  have hc: "honest_party cy ca (he_now (pt_env s)) c" and hs: "honest_party cy ca (he_now ?en) s"
    and hk: "\<forall>salt info k. length (cy_hkdf cy salt info k) = 32"
    using rdy by (auto simp: handshake_ready_def)
  have pc: "peer_certificate cy (he_now ?en) ca (cy_dump_pem cy (pt_cert s)) = Inr (pt_cert s, pt_cn s)"
    using hs by (simp add: honest_party_def)
  have acc: "client_accept cy w ?en (EphemeralKey_new cy (he_secret ?en)) (pt_cert s) (pt_cn s) (he_nonce (pt_env s))
        (he_challenge (pt_env s)) ?f3
      = (Inr \<lparr>ch_codec = fresh_codec cy (shared_key cy c s (he_secret ?en) pub) (he_token (pt_env s)),
               ch_session_token = he_token (pt_env s), ch_server_cn = pt_cn s\<rparr>,
          finished w [hello_of cy c sid, response_of cy c s (public_of cy c)])"
    unfolding client_accept_def 3
    by (simp add: accept_of_def honest_sig[OF hs] session_codec_agreeable[OF ag hk])
  have f3: "send_plain w (ResponseMsg (sig_of cy c (he_challenge (pt_env s) @ he_nonce (pt_env s)))
      (ek_public_bytes (EphemeralKey_new cy (he_secret ?en)))) ?f2 = ?f3"
    by (simp add: send_plain_def FramedConnection_new_def response_of_def EphemeralKey_new_def)
  show ?thesis
    unfolding perform_client_handshake_def Let_def 0 1
    using acc by (simp add: challenge_of_def pc honest_sig[OF hc] f3)
qed

text \<open>C9: two honest parties agree.  On the messages the other one sends, both sides of the handshake
  return, each with the name of the other, with the same session token, and with codecs that are in
  step in both directions, so that everything proved of an encrypted channel applies to them.\<close>

theorem handshake_agrees:
  assumes "handshake_ready cy ca allowed c s sid"
    and "agreeable cy (he_secret (pt_env s)) (public_of cy c)" "agreeable cy (he_secret (pt_env c)) (public_of cy s)"
    and "cy_x25519_exchange cy (he_secret (pt_env s)) (public_of cy c)
       = cy_x25519_exchange cy (he_secret (pt_env c)) (public_of cy s)"
    and "\<forall>key. aesgcm_ok (cy_aesgcm cy key)"
    and "carries w (hello_of cy c sid)" "carries w (challenge_of cy s)"
      "carries w (response_of cy c s (public_of cy c))" "carries w (accept_of cy c s (public_of cy s) sid)"
  shows "\<exists>rs rc. perform_server_handshake cy w (pt_env s) (pt_cert s) (pt_key s) ca allowed
        (waiting w [hello_of cy c sid, response_of cy c s (public_of cy c)])
      = (Inr rs, finished w [challenge_of cy s, accept_of cy c s (public_of cy s) sid])
    \<and> perform_client_handshake cy w (pt_env c) sid (pt_cert c) (pt_key c) ca
        (waiting w [challenge_of cy s, accept_of cy c s (public_of cy s) sid])
      = (Inr rc, finished w [hello_of cy c sid, response_of cy c s (public_of cy c)])
    \<and> sh_client_cn rs = pt_cn c \<and> sh_silo_id rs = sid \<and> ch_server_cn rc = pt_cn s
    \<and> sh_session_token rs = ch_session_token rc
    \<and> pc_in_step (ch_codec rc) (sh_codec rs) \<and> pc_in_step (sh_codec rs) (ch_codec rc)"
  using server_completes[OF assms(1,2,6,8)] client_completes[OF assms(1,3,7,9)] assms(4,5)
  by (simp add: fresh_codec_def shared_key_def pc_in_step_def)

text \<open>C38: the signatures do not cover the ephemeral keys.  Someone in the middle who forwards the messages
  of two honest parties and only replaces their ephemeral keys by one whose secret \<open>x\<close> they chose makes
  both sides complete, each with the name of the other; and the session keys the two end up with are
  those the one in the middle computes from \<open>x\<close> and the ephemeral keys seen on the wire.\<close>

theorem handshake_keys_not_bound:
  assumes "handshake_ready cy ca allowed c s sid"
    and "agreeable cy (he_secret (pt_env s)) (cy_x25519_public cy x)"
      "agreeable cy (he_secret (pt_env c)) (cy_x25519_public cy x)"
    and "cy_x25519_exchange cy (he_secret (pt_env s)) (cy_x25519_public cy x) = cy_x25519_exchange cy x (public_of cy s)"
      "cy_x25519_exchange cy (he_secret (pt_env c)) (cy_x25519_public cy x) = cy_x25519_exchange cy x (public_of cy c)"
    and "carries w (hello_of cy c sid)" "carries w (challenge_of cy s)"
      "carries w (response_of cy c s (cy_x25519_public cy x))" "carries w (accept_of cy c s (cy_x25519_public cy x) sid)"
  shows "\<exists>rs rc. perform_server_handshake cy w (pt_env s) (pt_cert s) (pt_key s) ca allowed
        (waiting w [hello_of cy c sid, response_of cy c s (cy_x25519_public cy x)])
      = (Inr rs, finished w [challenge_of cy s, accept_of cy c s (public_of cy s) sid])
    \<and> perform_client_handshake cy w (pt_env c) sid (pt_cert c) (pt_key c) ca
        (waiting w [challenge_of cy s, accept_of cy c s (cy_x25519_public cy x) sid])
      = (Inr rc, finished w [hello_of cy c sid, response_of cy c s (public_of cy c)])
    \<and> sh_client_cn rs = pt_cn c \<and> ch_server_cn rc = pt_cn s
    \<and> pc_aesgcm (sh_codec rs) = cy_aesgcm cy (shared_key cy c s x (public_of cy s))
    \<and> pc_aesgcm (ch_codec rc) = cy_aesgcm cy (shared_key cy c s x (public_of cy c))"
  using server_completes[OF assms(1,2,6,8)] client_completes[OF assms(1,3,7,9)] assms(4,5)
  by (simp add: fresh_codec_def shared_key_def)

section \<open>A concrete handshake\<close>

text \<open>Toy primitives that satisfy the hypotheses: a signature is the key followed by the data, the key
  agreement adds bytes.\<close>

definition demo_certificate :: "string \<Rightarrow> byte \<Rightarrow> certificate" where
  "demo_certificate cn k =
     \<lparr>ce_common_names = [CnText cn], ce_not_before = 0, ce_not_after = 100, ce_public_key = Ed25519Public [k],
      ce_signature = [9, k], ce_tbs = [k], ce_hash = None\<rparr>"

definition demo_crypto :: crypto where
  "demo_crypto =
     \<lparr>cy_load_pem = \<lambda>pem. if pem = ''C'' then Some (demo_certificate ''alice'' 1)
                          else if pem = ''S'' then Some (demo_certificate ''silo'' 2) else None,
      cy_dump_pem = \<lambda>c. if ce_tbs c = [1] then ''C'' else ''S'',
      cy_ed_sign = \<lambda>k d. k @ d, cy_ed_verify = \<lambda>k sg d. sg = k @ d,
      cy_ec_sign = \<lambda>k r h d. k @ d, cy_ec_verify = \<lambda>k h sg d. sg = k @ d,
      cy_x25519_public = id, cy_x25519_load = \<lambda>_. True,
      cy_x25519_exchange = \<lambda>a b. Some (map2 (+) a b),
      cy_hkdf = \<lambda>salt info k. take 32 (k @ replicate 32 0), cy_aesgcm = \<lambda>_. demo_gcm\<rparr>"

definition demo_party :: "string \<Rightarrow> byte \<Rightarrow> party" where
  "demo_party cn k =
     \<lparr>pt_cert = demo_certificate cn k, pt_key = Ed25519Private [k], pt_cn = cn,
      pt_env = \<lparr>he_nonce = replicate 32 k, he_challenge = replicate 32 (k + 10), he_token = replicate 32 (k + 20),
                he_secret = replicate 32 k, he_sign_rnd = [], he_now_ns = 5, he_now = 50, he_text = \<lambda>_. ''no''\<rparr>\<rparr>"

abbreviation demo_client :: party where "demo_client \<equiv> demo_party ''alice'' 1"
abbreviation demo_peer :: party where "demo_peer \<equiv> demo_party ''silo'' 2"
abbreviation demo_ca :: certificate where "demo_ca \<equiv> demo_certificate ''ca'' 9"

definition table_wire :: "AnyMsg \<Rightarrow> AnyMsg \<Rightarrow> AnyMsg \<Rightarrow> AnyMsg \<Rightarrow> wire" where
  "table_wire h c r a =
     \<lparr>wr_dump = \<lambda>m. case m of HelloMsg _ _ _ _ \<Rightarrow> [1] | ChallengeMsg _ _ _ \<Rightarrow> [2] | ResponseMsg _ _ \<Rightarrow> [3]
                          | AcceptMsg _ _ _ _ \<Rightarrow> [4] | _ \<Rightarrow> [],
      wr_decode = \<lambda>b. if b = [1] then Some h else if b = [2] then Some c else if b = [3] then Some r
                       else if b = [4] then Some a else None\<rparr>"

abbreviation demo_wire :: "bytes \<Rightarrow> bytes \<Rightarrow> wire" where
  "demo_wire pc ps \<equiv> table_wire (hello_of demo_crypto demo_client 7) (challenge_of demo_crypto demo_peer)
     (response_of demo_crypto demo_client demo_peer pc) (accept_of demo_crypto demo_client demo_peer ps 7)"

lemma demo_wire_carries:
  "carries (demo_wire pc ps) (hello_of demo_crypto demo_client 7)"
  "carries (demo_wire pc ps) (challenge_of demo_crypto demo_peer)"
  "carries (demo_wire pc ps) (response_of demo_crypto demo_client demo_peer pc)"
  "carries (demo_wire pc ps) (accept_of demo_crypto demo_client demo_peer ps 7)"
  by (simp_all add: carries_def table_wire_def hello_of_def challenge_of_def response_of_def accept_of_def)

lemma demo_ready: "handshake_ready demo_crypto demo_ca (SilosByName [(''alice'', [7])]) demo_client demo_peer 7"
  by (simp add: handshake_ready_def honest_party_def peer_certificate_def load_cert_def verify_chain_def get_cn_def
      sign_challenge_def verify_signature_def silo_refused_def TIMESTAMP_TOLERANCE_NS_def
      demo_crypto_def demo_party_def demo_certificate_def min_def)

lemma demo_agreeable:
  "a + b \<noteq> 0 \<Longrightarrow> agreeable demo_crypto (replicate 32 a) (replicate 32 b)"
  by (simp add: agreeable_def demo_crypto_def map_replicate_const zip_replicate)

lemma demo_secrets: "he_secret (pt_env (demo_party cn k)) = replicate 32 k"
  "public_of demo_crypto (demo_party cn k) = replicate 32 k" "cy_x25519_public demo_crypto a = a"
  by (simp_all add: demo_party_def demo_crypto_def)

lemma demo_exchange:
  "cy_x25519_exchange demo_crypto (replicate 32 a) (replicate 32 b)
     = cy_x25519_exchange demo_crypto (replicate 32 b) (replicate 32 a)"
  by (simp add: demo_crypto_def map_replicate_const zip_replicate add.commute)

lemma demo_unforgeable:
  "unforgeable demo_crypto (\<lambda>pk d. \<exists>sg. verify_signature demo_crypto d sg pk = Inr ())"
  by (auto simp: unforgeable_def)

theorem handshake_agrees_witness:
  "\<exists>rs rc. perform_server_handshake demo_crypto (demo_wire (replicate 32 1) (replicate 32 2)) (pt_env demo_peer)
        (pt_cert demo_peer) (pt_key demo_peer) demo_ca (SilosByName [(''alice'', [7])])
        (waiting (demo_wire (replicate 32 1) (replicate 32 2))
           [hello_of demo_crypto demo_client 7, response_of demo_crypto demo_client demo_peer (replicate 32 1)])
      = (Inr rs, finished (demo_wire (replicate 32 1) (replicate 32 2))
           [challenge_of demo_crypto demo_peer, accept_of demo_crypto demo_client demo_peer (replicate 32 2) 7])
    \<and> sh_client_cn rs = ''alice'' \<and> pc_in_step (ch_codec (rc :: ClientHandshakeResult)) (sh_codec rs)"
proof -
  have gcm: "\<forall>key. aesgcm_ok (cy_aesgcm demo_crypto key)" by (simp add: demo_crypto_def demo_gcm_ok)
  have ag: "agreeable demo_crypto (replicate 32 2) (replicate 32 1)" "agreeable demo_crypto (replicate 32 1) (replicate 32 2)"
    by (simp_all add: demo_agreeable)
  have "pt_cn demo_client = ''alice''" by (simp add: demo_party_def)
  with handshake_agrees[OF demo_ready _ _ _ gcm demo_wire_carries(1,2), unfolded demo_secrets,
      OF ag demo_exchange demo_wire_carries(3,4)]
  show ?thesis by auto
qed

theorem handshake_keys_not_bound_witness:
  "\<exists>rs. perform_server_handshake demo_crypto (demo_wire (replicate 32 3) (replicate 32 3)) (pt_env demo_peer)
        (pt_cert demo_peer) (pt_key demo_peer) demo_ca (SilosByName [(''alice'', [7])])
        (waiting (demo_wire (replicate 32 3) (replicate 32 3))
           [hello_of demo_crypto demo_client 7, response_of demo_crypto demo_client demo_peer (replicate 32 3)])
      = (Inr rs, finished (demo_wire (replicate 32 3) (replicate 32 3))
           [challenge_of demo_crypto demo_peer, accept_of demo_crypto demo_client demo_peer (replicate 32 2) 7])
    \<and> sh_client_cn rs = ''alice''"
proof -
  have ag: "agreeable demo_crypto (replicate 32 2) (replicate 32 3)" "agreeable demo_crypto (replicate 32 1) (replicate 32 3)"
    by (simp_all add: demo_agreeable)
  have "pt_cn demo_client = ''alice''" by (simp add: demo_party_def)
  with handshake_keys_not_bound[OF demo_ready, of "replicate 32 3", unfolded demo_secrets,
      OF ag demo_exchange demo_exchange demo_wire_carries]
  show ?thesis by auto
qed

lemma demo_server_run:
  "perform_server_handshake demo_crypto (demo_wire (replicate 32 1) (replicate 32 2)) (pt_env demo_peer)
        (pt_cert demo_peer) (pt_key demo_peer) demo_ca (SilosByName [(''alice'', [7])])
        (waiting (demo_wire (replicate 32 1) (replicate 32 2))
           [hello_of demo_crypto demo_client 7, response_of demo_crypto demo_client demo_peer (replicate 32 1)])
   = (Inr \<lparr>sh_codec = fresh_codec demo_crypto (shared_key demo_crypto demo_client demo_peer (replicate 32 2) (replicate 32 1))
                         (he_token (pt_env demo_peer)),
           sh_session_token = he_token (pt_env demo_peer), sh_client_cn = pt_cn demo_client, sh_silo_id = 7\<rparr>,
      finished (demo_wire (replicate 32 1) (replicate 32 2))
        [challenge_of demo_crypto demo_peer, accept_of demo_crypto demo_client demo_peer (replicate 32 2) 7])"
  using server_completes[OF demo_ready _ demo_wire_carries(1,3), unfolded demo_secrets] demo_agreeable[of 2 1]
  by simp

lemma demo_client_run:
  "perform_client_handshake demo_crypto (demo_wire (replicate 32 1) (replicate 32 2)) (pt_env demo_client) 7
        (pt_cert demo_client) (pt_key demo_client) demo_ca
        (waiting (demo_wire (replicate 32 1) (replicate 32 2))
           [challenge_of demo_crypto demo_peer, accept_of demo_crypto demo_client demo_peer (replicate 32 2) 7])
   = (Inr \<lparr>ch_codec = fresh_codec demo_crypto (shared_key demo_crypto demo_client demo_peer (replicate 32 1) (replicate 32 2))
                         (he_token (pt_env demo_peer)),
           ch_session_token = he_token (pt_env demo_peer), ch_server_cn = pt_cn demo_peer\<rparr>,
      finished (demo_wire (replicate 32 1) (replicate 32 2))
        [hello_of demo_crypto demo_client 7, response_of demo_crypto demo_client demo_peer (replicate 32 1)])"
  using client_completes[OF demo_ready _ demo_wire_carries(2,4), unfolded demo_secrets] demo_agreeable[of 1 2]
  by simp

theorem server_handshake_authentic_witness:
  "\<exists>cl sg. get_cn cl = Inr ''alice'' \<and> verify_chain demo_crypto 50 cl demo_ca = Inr ()
     \<and> verify_signature demo_crypto (replicate 32 12 @ replicate 32 2) sg (ce_public_key cl) = Inr ()"
  using server_handshake_authentic[OF demo_unforgeable demo_server_run] by (auto simp: demo_party_def)

theorem client_handshake_authentic_witness:
  "\<exists>sc. get_cn sc = Inr ''silo'' \<and> verify_chain demo_crypto 50 sc demo_ca = Inr ()"
  using client_handshake_authentic[OF demo_unforgeable demo_client_run] by (auto simp: demo_party_def)

end
