(* ===== verification/Connection.thy ===== *)
theory Connection
  imports Server Handshake
begin

text \<open>
  \<^verbatim>\<open>server.py\<close>, \<^verbatim>\<open>_handle_connection\<close> and \<^verbatim>\<open>_authenticate\<close> with the handshake in place: from a transport
  that has just been accepted to the end of the session.  The private key and the table of allowed
  silos that \<^verbatim>\<open>_authenticate\<close> hands to the handshake are arguments; \<open>accept_connection\<close> fixes them to what
  the code passes.  What the session receives are the results of successive \<^verbatim>\<open>framed.recv()\<close> calls on
  the connection the handshake leaves behind.
\<close>

section \<open>From the transport to the session\<close>

record acceptor =
  ac_crypto :: crypto
  ac_wire :: wire
  ac_env :: hs_env
  ac_ca :: certificate
  ac_config :: config
  ac_now :: int

datatype connection_exc = ExcHandshake hs_exc | ExcServer server_exc

definition authenticate_framed :: "acceptor \<Rightarrow> private_key \<Rightarrow> silo_arg \<Rightarrow> FramedConnection \<Rightarrow> server
    \<Rightarrow> (connection_exc + SiloSession option) \<times> FramedConnection \<times> server" where
  "authenticate_framed ac key allowed fc sv =
     (let finish_auth = (\<lambda>hs fc1.
        case authenticate (ac_config ac) (ac_now ac) hs sv of
          (Inl e, sv1) \<Rightarrow> (Inl (ExcServer e), fc1, sv1)
        | (Inr s, sv1) \<Rightarrow> (Inr s, fc1, sv1))
      in case perform_server_handshake (ac_crypto ac) (ac_wire ac) (ac_env ac) (ac_ca ac) key (ac_ca ac) allowed fc of
           (Inl (HandshakeFailed _), fc1) \<Rightarrow> finish_auth None fc1
         | (Inl x, fc1) \<Rightarrow> (Inl (ExcHandshake x), fc1, sv)
         | (Inr r, fc1) \<Rightarrow> finish_auth (Some (sh_client_cn r, sh_silo_id r)) fc1)"

definition session_inbox :: "wire \<Rightarrow> FramedConnection \<Rightarrow> inbox" where
  "session_inbox w fc = fst (recv_n w (Suc (length (cn_inbox (fc_conn fc)))) fc)"

text \<open>The \<^verbatim>\<open>try\<close> of \<^verbatim>\<open>_handle_connection\<close>: every exception is logged and swallowed, and a session that
  was registered is removed again.\<close>

definition serve_connection :: "acceptor \<Rightarrow> private_key \<Rightarrow> silo_arg \<Rightarrow> conn \<Rightarrow> server \<Rightarrow> AnyMsg list \<times> server" where
  "serve_connection ac key allowed cn sv =
     (case authenticate_framed ac key allowed (FramedConnection_new cn) sv of
        (Inr (Some ss), fc1, sv1) \<Rightarrow>
          (case serve_session (ac_config ac) ss (session_inbox (ac_wire ac) fc1) sv1 of
             (e, msgs, sv2) \<Rightarrow>
               (msgs, log_audit (SessionEnd (ss_client_cn ss) (ss_silo_id ss))
                        (sv2\<lparr>sv_registry := snd (unregister (ss_silo_id ss) (sv_registry sv2))\<rparr>)))
      | (_, _, sv1) \<Rightarrow> ([], sv1))"

text \<open>What the code passes: no key, and the list of the configured silos.\<close>

definition accept_connection :: "acceptor \<Rightarrow> conn \<Rightarrow> server \<Rightarrow> AnyMsg list \<times> server" where
  "accept_connection ac cn sv =
     serve_connection ac OtherPrivate (SiloList (map fst (cf_roots (ac_config ac)))) cn sv"

section \<open>The server as it is wired\<close>

lemma no_key_no_handshake:
  "fst (perform_server_handshake cy w en cert OtherPrivate ca allowed fc) \<noteq> Inr r"
proof
  assume "fst (perform_server_handshake cy w en cert OtherPrivate ca allowed fc) = Inr r"
  then have "perform_server_handshake cy w en cert OtherPrivate ca allowed fc
      = (Inr r, snd (perform_server_handshake cy w en cert OtherPrivate ca allowed fc))"
    by (metis prod.collapse)
  then show False by (rule perform_server_handshake_Inr) (auto elim: server_accept_Inr)
qed

lemma authenticate_None: "authenticate cf now None sv = (Inr None, log_audit (AuthFail ''(unknown)'') sv)"
  by (simp add: authenticate_def)

text \<open>the server as it is wired admits nobody.  It signs with no key and passes a list where the
  handshake looks names up, so whatever a client sends, no session starts: the registry, the files and
  the indexes stay as they are, nothing is served, and the audit log gains at most one authentication
  failure.\<close>

theorem accept_connection_admits_nobody:
  "accept_connection ac cn sv = ([], sv) \<or> accept_connection ac cn sv = ([], log_audit (AuthFail ''(unknown)'') sv)"
proof -
  let ?hs = "perform_server_handshake (ac_crypto ac) (ac_wire ac) (ac_env ac) (ac_ca ac) OtherPrivate (ac_ca ac)
     (SiloList (map fst (cf_roots (ac_config ac)))) (FramedConnection_new cn)"
  obtain x fc1 where "?hs = (Inl x, fc1)"
    using no_key_no_handshake by (metis prod.collapse sum.exhaust)
  then show ?thesis
    by (cases x) (simp_all add: accept_connection_def serve_connection_def authenticate_framed_def authenticate_None)
qed

section \<open>The codec is never activated\<close>

lemma send_plain_codec [simp]: "fc_codec (send_plain w m fc) = fc_codec fc"
  by (simp add: send_plain_def)

lemma recv_plain_codec [simp]: "fc_codec (snd (recv_plain w fc)) = fc_codec fc"
  by (simp add: recv_plain_def conn_recv_def split: list.split)

lemma recv_plain_codec': "recv_plain w fc = (r, fc') \<Longrightarrow> fc_codec fc' = fc_codec fc"
  using recv_plain_codec[of w fc] by simp

lemma server_handshake_codec:
  "perform_server_handshake cy w en cert key ca allowed fc = (r, fc') \<Longrightarrow> fc_codec fc' = fc_codec fc"
  by (auto simp: perform_server_handshake_def server_accept_def reject_def Let_def dest!: recv_plain_codec'
      split: prod.splits sum.splits AnyMsg.splits bool.splits)

lemma session_inbox_inactive: "fc_codec fc = None \<Longrightarrow> \<exists>rest. session_inbox w fc = Inl NotActivated # rest"
  by (simp add: session_inbox_def framed_recv_def split: prod.split)

lemma authenticate_keeps_fs: "authenticate cf now hs sv = (r, sv') \<Longrightarrow> sv_fs sv' = sv_fs sv"
  by (auto simp: authenticate_def Let_def split: option.splits prod.splits sum.splits if_splits)

lemma authenticate_framed_keeps:
  assumes "authenticate_framed ac key allowed fc sv = (r, fc', sv')"
  shows "sv_fs sv' = sv_fs sv" and "fc_codec fc' = fc_codec fc"
  using assms
  by (auto simp: authenticate_framed_def Let_def dest: authenticate_keeps_fs server_handshake_codec
      split: prod.splits sum.splits hs_exc.splits)

lemma serve_session_bad_start:
  "serve_session cf ss (Inl e # rest) sv = (x, msgs, sv') \<Longrightarrow> msgs = [] \<and> sv_fs sv' = sv_fs sv"
  by (auto simp: serve_session_def server_handle_sync_request_def Let_def split: option.splits)

text \<open>C39: with any key and any table of allowed silos the server still serves nothing, because no code
  activates the codec the handshake returns: the first read of the session fails, no message is
  answered and no file is touched.\<close>

theorem connection_serves_nothing:
  "fst (serve_connection ac key allowed cn sv) = [] \<and> sv_fs (snd (serve_connection ac key allowed cn sv)) = sv_fs sv"
proof -
  obtain r fc1 sv1 where a: "authenticate_framed ac key allowed (FramedConnection_new cn) sv = (r, fc1, sv1)"
    by (metis prod_cases3)
  have k: "sv_fs sv1 = sv_fs sv" "fc_codec fc1 = None"
    using authenticate_framed_keeps[OF a] by (simp_all add: FramedConnection_new_def)
  from session_inbox_inactive[OF k(2)] obtain rest where
    "session_inbox (ac_wire ac) fc1 = Inl NotActivated # rest" by blast
  with a k(1) show ?thesis
    by (auto simp: serve_connection_def split: sum.split option.split prod.split dest: serve_session_bad_start)
qed

end
