(* ===== verification/Watcher.thy ===== *)
theory Watcher
  imports Silo_Index Json Jail
begin

text \<open>
  \<^verbatim>\<open>sync/watcher.py\<close>: from file system notifications to sync events.  The debouncer runs under a lock,
  entered by the observer thread and by one timer thread per pending path; its operations are state
  transformers, and \<open>deb_step\<close> interleaves them.  A timer thread has three steps: its wait ends, it
  enters the lock, and, outside the lock, it calls back.  Cancelling reaches a timer only before its
  wait has ended.  Times are integers in one unit, so the rounding of Python's floats is not modelled.
  The callbacks of \<open>SiloWatcher\<close> read the disk (\<open>world\<close>) and append to the queue.
\<close>

unbundle bit_operations_syntax

section \<open>The debouncer\<close>

datatype watch_op = OpWrite | OpDelete | OpRename

datatype flush_call = OnFlush string watch_op | OnRenameFlush string string

record watch_config =
  wc_root :: path
  wc_spec :: "string \<Rightarrow> bool"
  wc_debounce :: int
  wc_max_delay :: int
  wc_max_dirty_files :: int

text \<open>\<open>db_timers\<close>: the timers that still wait, with their deadlines; \<open>db_expired\<close>: those whose wait is
  over and that have not entered the lock; \<open>db_firing\<close>: those that have left the lock and not called
  back.  \<open>db_calls\<close>: the callbacks made, in order.\<close>

record Debouncer =
  db_dirty :: "(string, watch_op \<times> int \<times> nat) dict"
  db_renames :: "(string, string \<times> string) dict"
  db_timers :: "(nat, string \<times> int) dict"
  db_expired :: "string list"
  db_firing :: "(string \<times> watch_op) list"
  db_next_timer :: nat
  db_calls :: "flush_call list"

definition Debouncer_new :: Debouncer where
  "Debouncer_new = \<lparr>db_dirty = [], db_renames = [], db_timers = [], db_expired = [], db_firing = [],
     db_next_timer = 0, db_calls = []\<rparr>"

definition is_blocked :: "watch_config \<Rightarrow> string \<Rightarrow> bool" where
  "is_blocked wc rel = wc_spec wc rel"

text \<open>\<^verbatim>\<open>str(Path(abs_path).relative_to(root))\<close>, \<open>None\<close> for the \<^verbatim>\<open>ValueError\<close>.\<close>

definition rel_path :: "watch_config \<Rightarrow> string \<Rightarrow> string option" where
  "rel_path wc abs_path =
     (let parts = path_parts abs_path; root = [slash] # wc_root wc in
      if prefix root parts
      then Some (let r = drop (length root) parts in if r = [] then ''.'' else join_on [slash] r)
      else None)"

abbreviation call_back :: "flush_call \<Rightarrow> Debouncer \<Rightarrow> Debouncer" where
  "call_back c d \<equiv> d\<lparr>db_calls := db_calls d @ [c]\<rparr>"

definition dispatch :: "string \<Rightarrow> watch_op \<Rightarrow> Debouncer \<Rightarrow> Debouncer" where
  "dispatch rel op d =
     (if op = OpRename then
        (case dict_get (db_renames d) rel of
           Some (old, new) \<Rightarrow> call_back (OnRenameFlush old new) (d\<lparr>db_renames := dict_del rel (db_renames d)\<rparr>)
         | None \<Rightarrow> call_back (OnFlush rel OpWrite) d)
      else call_back (OnFlush rel op) d)"

definition cancel_timer :: "nat \<Rightarrow> Debouncer \<Rightarrow> Debouncer" where
  "cancel_timer tid d = d\<lparr>db_timers := dict_del tid (db_timers d)\<rparr>"

definition flush_all_locked :: "Debouncer \<Rightarrow> Debouncer" where
  "flush_all_locked d =
     fold (\<lambda>(rel, op, _, tid) d. dispatch rel op (cancel_timer tid d)) (db_dirty d) (d\<lparr>db_dirty := []\<rparr>)"

definition schedule :: "watch_config \<Rightarrow> int \<Rightarrow> string \<Rightarrow> watch_op \<Rightarrow> Debouncer \<Rightarrow> Debouncer" where
  "schedule wc now rel op d =
     (let (t_first, delay, d1) =
        (case dict_get (db_dirty d) rel of
           Some (_, t0, tid) \<Rightarrow>
             (t0, min (wc_debounce wc) (max (wc_max_delay wc - (now - t0)) 0), cancel_timer tid d)
         | None \<Rightarrow> (now, wc_debounce wc, d));
        d2 = d1\<lparr>db_timers := dict_set (db_next_timer d1) (rel, now + delay) (db_timers d1),
                 db_dirty := dict_set rel (op, t_first, db_next_timer d1) (db_dirty d1),
                 db_next_timer := Suc (db_next_timer d1)\<rparr>
      in if int (length (db_dirty d2)) > wc_max_dirty_files wc then flush_all_locked d2 else d2)"

definition cancel :: "string \<Rightarrow> Debouncer \<Rightarrow> Debouncer" where
  "cancel rel d =
     (let d1 = (case dict_get (db_dirty d) rel of
                  Some (_, _, tid) \<Rightarrow> cancel_timer tid (d\<lparr>db_dirty := dict_del rel (db_dirty d)\<rparr>)
                | None \<Rightarrow> d)
      in d1\<lparr>db_renames := dict_del rel (db_renames d1)\<rparr>)"

definition flush_now :: "string \<Rightarrow> watch_op \<Rightarrow> Debouncer \<Rightarrow> Debouncer" where
  "flush_now rel op d = dispatch rel op (d\<lparr>db_dirty := dict_del rel (db_dirty d)\<rparr>)"

text \<open>\<open>timer_fired\<close> under the lock: a path that is no longer dirty is left alone.\<close>

definition timer_fired :: "string \<Rightarrow> Debouncer \<Rightarrow> Debouncer" where
  "timer_fired rel d =
     (case dict_get (db_dirty d) rel of
        None \<Rightarrow> d
      | Some (op, _, _) \<Rightarrow>
          d\<lparr>db_dirty := dict_del rel (db_dirty d), db_firing := db_firing d @ [(rel, op)]\<rparr>)"

definition on_write :: "watch_config \<Rightarrow> int \<Rightarrow> string \<Rightarrow> Debouncer \<Rightarrow> Debouncer" where
  "on_write wc now abs_path d =
     (case rel_path wc abs_path of
        None \<Rightarrow> d
      | Some rel \<Rightarrow> if is_blocked wc rel then d else schedule wc now rel OpWrite d)"

definition on_delete :: "watch_config \<Rightarrow> string \<Rightarrow> Debouncer \<Rightarrow> Debouncer" where
  "on_delete wc abs_path d =
     (case rel_path wc abs_path of
        None \<Rightarrow> d
      | Some rel \<Rightarrow> if is_blocked wc rel then d else flush_now rel OpDelete (cancel rel d))"

definition on_rename :: "watch_config \<Rightarrow> int \<Rightarrow> string \<Rightarrow> string \<Rightarrow> Debouncer \<Rightarrow> Debouncer" where
  "on_rename wc now abs_src abs_dst d =
     (let inside = (\<lambda>r. case r of None \<Rightarrow> None | Some rel \<Rightarrow> if is_blocked wc rel then None else Some rel)
      in case (inside (rel_path wc abs_src), inside (rel_path wc abs_dst)) of
           (None, None) \<Rightarrow> d
         | (None, Some dst) \<Rightarrow> schedule wc now dst OpWrite d
         | (Some src, None) \<Rightarrow> flush_now src OpDelete (cancel src d)
         | (Some src, Some dst) \<Rightarrow>
             (let d1 = cancel src d
              in flush_now dst OpRename (d1\<lparr>db_renames := dict_set dst (src, dst) (db_renames d1)\<rparr>)))"

definition flush_all :: "Debouncer \<Rightarrow> Debouncer" where
  "flush_all d = flush_all_locked d"

section \<open>The event handler\<close>

text \<open>The notifications of \<^verbatim>\<open>watchdog\<close>; a directory deletion appends a slash to its path.\<close>

datatype fs_event = Created bool string | Modified bool string | Deleted bool string | Moved string string

fun handle_event :: "watch_config \<Rightarrow> int \<Rightarrow> fs_event \<Rightarrow> Debouncer \<Rightarrow> Debouncer" where
  "handle_event wc now (Created is_dir p) d = (if is_dir then d else on_write wc now p d)"
| "handle_event wc now (Modified is_dir p) d = (if is_dir then d else on_write wc now p d)"
| "handle_event wc now (Deleted is_dir p) d = on_delete wc (if is_dir then p @ ''/'' else p) d"
| "handle_event wc now (Moved src dst) d = on_rename wc now src dst d"

section \<open>SiloWatcher\<close>

record file_stat =
  st_mtime_ns :: int
  st_size :: int
  st_uid :: int
  st_gid :: int
  st_mode :: int

record world =
  wd_time_ns :: int
  wd_stat :: "string \<Rightarrow> file_stat option"
  wd_read :: "string \<Rightarrow> bytes option"
  wd_pwuid :: "int \<Rightarrow> string option"
  wd_grgid :: "int \<Rightarrow> string option"
  wd_rapidhash :: "bytes \<Rightarrow> int"

definition stat_mode :: "int \<Rightarrow> int" where
  "stat_mode raw = raw AND 0xFFF"

definition on_flush :: "world \<Rightarrow> string \<Rightarrow> watch_op \<Rightarrow> SyncEvent" where
  "on_flush wd rel op =
     (if op = OpDelete then Delete rel (wd_time_ns wd)
      else case wd_stat wd rel of
             None \<Rightarrow> Delete rel (wd_time_ns wd)
           | Some st \<Rightarrow>
               (case wd_read wd rel of
                  None \<Rightarrow> Delete rel (wd_time_ns wd)
                | Some content \<Rightarrow>
                    Write \<lparr>we_path = rel, we_rapidhash = wd_rapidhash wd content, we_size = st_size st,
                           we_mtime_s = st_mtime_ns st div 1000000000, we_mtime_ns = st_mtime_ns st mod 1000000000,
                           we_recv_ts_ns = wd_time_ns wd, we_mode = stat_mode (st_mode st),
                           we_uid_name = (case wd_pwuid wd (st_uid st) of Some n \<Rightarrow> n | None \<Rightarrow> show_int (st_uid st)),
                           we_gid_name = (case wd_grgid wd (st_gid st) of Some n \<Rightarrow> n | None \<Rightarrow> show_int (st_gid st))\<rparr>))"

text \<open>\<^verbatim>\<open>abs_new.exists()\<close> is a successful \<^verbatim>\<open>stat\<close>.\<close>

definition on_rename_flush :: "world \<Rightarrow> string \<Rightarrow> string \<Rightarrow> SyncEvent" where
  "on_rename_flush wd old new =
     (if wd_stat wd new = None then Delete old (wd_time_ns wd) else Rename old new (wd_time_ns wd))"

fun flush_event :: "world \<Rightarrow> flush_call \<Rightarrow> SyncEvent" where
  "flush_event wd (OnFlush rel op) = on_flush wd rel op"
| "flush_event wd (OnRenameFlush old new) = on_rename_flush wd old new"

section \<open>Interleavings\<close>

text \<open>What can happen next: time passes, the observer delivers a notification, the wait of a timer ends,
  an expired timer enters the lock, a timer that left it calls back, the watcher stops.  A step that
  is not enabled changes nothing.\<close>

datatype deb_op = Tick nat | Notify fs_event | Expire nat | Enter nat | CallBack nat | Stop

definition remove_nth :: "nat \<Rightarrow> 'a list \<Rightarrow> 'a list" where
  "remove_nth n xs = take n xs @ drop (Suc n) xs"

fun deb_step :: "watch_config \<Rightarrow> deb_op \<Rightarrow> int \<times> Debouncer \<Rightarrow> int \<times> Debouncer" where
  "deb_step wc (Tick n) (now, d) = (now + int n, d)"
| "deb_step wc (Notify ev) (now, d) = (now, handle_event wc now ev d)"
| "deb_step wc (Expire tid) (now, d) =
     (now, (case dict_get (db_timers d) tid of
              Some (rel, deadline) \<Rightarrow>
                if deadline \<le> now
                then d\<lparr>db_timers := dict_del tid (db_timers d), db_expired := db_expired d @ [rel]\<rparr> else d
            | None \<Rightarrow> d))"
| "deb_step wc (Enter n) (now, d) =
     (now, if n < length (db_expired d)
           then timer_fired (db_expired d ! n) (d\<lparr>db_expired := remove_nth n (db_expired d)\<rparr>) else d)"
| "deb_step wc (CallBack n) (now, d) =
     (now, if n < length (db_firing d)
           then dispatch (fst (db_firing d ! n)) (snd (db_firing d ! n)) (d\<lparr>db_firing := remove_nth n (db_firing d)\<rparr>)
           else d)"
| "deb_step wc Stop (now, d) = (now, flush_all d)"

text \<open>The watcher: the callbacks of a step read the world of that step and append to the queue.\<close>

record SiloWatcher =
  sw_debouncer :: Debouncer
  sw_now :: int
  sw_queue :: "SyncEvent list"

definition watcher_step :: "watch_config \<Rightarrow> world \<times> deb_op \<Rightarrow> SiloWatcher \<Rightarrow> SiloWatcher" where
  "watcher_step wc x sw =
     (case x of (wd, op) \<Rightarrow>
        (case deb_step wc op (sw_now sw, (sw_debouncer sw)\<lparr>db_calls := []\<rparr>) of
           (now', d') \<Rightarrow>
             \<lparr>sw_debouncer = d', sw_now = now',
              sw_queue = sw_queue sw @ map (flush_event wd) (db_calls d')\<rparr>))"

section \<open>No pending path is forgotten\<close>

text \<open>A dirty path has a timer: one that still waits, by its deadline, or one about to enter the lock.\<close>

definition timed :: "watch_config \<Rightarrow> int \<Rightarrow> Debouncer \<Rightarrow> string \<Rightarrow> int \<Rightarrow> nat \<Rightarrow> bool" where
  "timed wc now d rel t0 tid \<longleftrightarrow> rel \<in> set (db_expired d)
     \<or> (\<exists>deadline. dict_get (db_timers d) tid = Some (rel, deadline)
          \<and> deadline \<le> max now (t0 + max (wc_debounce wc) (wc_max_delay wc)))"

definition entries_ok :: "watch_config \<Rightarrow> int \<Rightarrow> Debouncer \<Rightarrow> bool" where
  "entries_ok wc now d \<longleftrightarrow>
     (\<forall>rel op t0 tid. dict_get (db_dirty d) rel = Some (op, t0, tid) \<longrightarrow>
        op = OpWrite \<and> t0 \<le> now \<and> tid < db_next_timer d \<and> timed wc now d rel t0 tid
        \<and> (\<forall>rel' op' t0'. dict_get (db_dirty d) rel' = Some (op', t0', tid) \<longrightarrow> rel' = rel))"

fun deb_inv :: "watch_config \<Rightarrow> int \<times> Debouncer \<Rightarrow> bool" where
  "deb_inv wc (now, d) \<longleftrightarrow>
     dict_ok (db_dirty d) \<and> entries_ok wc now d
     \<and> db_renames d = [] \<and> (\<forall>x \<in> set (db_firing d). snd x = OpWrite)
     \<and> int (length (db_dirty d)) \<le> max 0 (wc_max_dirty_files wc)"

lemma entries_okD:
  assumes "entries_ok wc now d" and "dict_get (db_dirty d) rel = Some (op, t0, tid)"
  shows "op = OpWrite" "t0 \<le> now" "tid < db_next_timer d" "timed wc now d rel t0 tid"
    "dict_get (db_dirty d) rel' = Some (op', t0', tid) \<Longrightarrow> rel' = rel"
  using assms unfolding entries_ok_def by blast+

lemma entries_ok_later: "entries_ok wc now d \<Longrightarrow> entries_ok wc (now + int n) d"
  unfolding entries_ok_def timed_def by fastforce

lemma flush_fold:
  assumes "\<forall>e \<in> set es. fst (snd e) \<noteq> OpRename"
  shows "fold (\<lambda>(rel, op, _, tid) d. dispatch rel op (cancel_timer tid d)) es d
     = d\<lparr>db_timers := fold dict_del (map (snd \<circ> snd \<circ> snd) es) (db_timers d),
         db_calls := db_calls d @ map (\<lambda>e. OnFlush (fst e) (fst (snd e))) es\<rparr>"
  using assms
proof (induction es arbitrary: d)
  case (Cons e es)
  obtain rel op t0 tid where "e = (rel, op, t0, tid)" by (metis prod_cases4)
  with Cons show ?case by (simp add: dispatch_def cancel_timer_def)
qed simp

lemma dirty_no_rename:
  assumes "dict_ok (db_dirty d)" and "entries_ok wc now d" and "e \<in> set (db_dirty d)"
  shows "fst (snd e) = OpWrite"
proof -
  obtain rel op t0 tid where e: "e = (rel, op, t0, tid)" by (metis prod_cases4)
  with assms(1,3) have "dict_get (db_dirty d) rel = Some (op, t0, tid)" by (simp add: dict_get_mem)
  with assms(2) e entries_okD(1) show ?thesis by fastforce
qed

text \<open>Flushing everything calls back once for every dirty path, as a write.\<close>

lemma flush_all_locked_eq:
  assumes "dict_ok (db_dirty d)" and "entries_ok wc now d"
  shows "flush_all_locked d = d\<lparr>db_dirty := [],
     db_timers := fold dict_del (map (snd \<circ> snd \<circ> snd) (db_dirty d)) (db_timers d),
     db_calls := db_calls d @ map (\<lambda>e. OnFlush (fst e) OpWrite) (db_dirty d)\<rparr>"
  using dirty_no_rename[OF assms] by (simp add: flush_all_locked_def flush_fold)

definition arm :: "int \<Rightarrow> string \<Rightarrow> int \<Rightarrow> int \<Rightarrow> Debouncer \<Rightarrow> Debouncer" where
  "arm now rel t0 delay d =
     d\<lparr>db_timers := dict_set (db_next_timer d) (rel, now + delay) (db_timers d),
       db_dirty := dict_set rel (OpWrite, t0, db_next_timer d) (db_dirty d),
       db_next_timer := Suc (db_next_timer d)\<rparr>"

text \<open>Arming a path anew keeps the entries: no other path has the cancelled timer.\<close>

lemma entries_ok_arm:
  assumes "entries_ok wc now d" and "t0 \<le> now" and "now + delay \<le> max now (t0 + max (wc_debounce wc) (wc_max_delay wc))"
    and "d1 = d \<or> (\<exists>op t tid. dict_get (db_dirty d) rel = Some (op, t, tid) \<and> d1 = cancel_timer tid d)"
  shows "entries_ok wc now (arm now rel t0 delay d1)"
proof -
  note ok = entries_okD[OF assms(1)]
  let ?d = "arm now rel t0 delay d1" and ?new = "db_next_timer d"
  have same: "db_dirty d1 = db_dirty d" "db_next_timer d1 = ?new" "db_expired d1 = db_expired d"
    using assms(4) by (auto simp: cancel_timer_def)
  have keep: "dict_get (db_timers d1) tid = dict_get (db_timers d) tid"
    if "dict_get (db_dirty d) r = Some (op, t, tid)" "r \<noteq> rel" for r op t tid
    using assms(4)
  proof (elim disjE exE conjE)
    fix op' t' tid' assume c: "dict_get (db_dirty d) rel = Some (op', t', tid')" "d1 = cancel_timer tid' d"
    with that ok(5)[OF that(1), of rel op' t'] have "tid' \<noteq> tid" by blast
    with c(2) show ?thesis by (simp add: cancel_timer_def)
  qed simp
  have dirty: "dict_get (db_dirty ?d) r = (if r = rel then Some (OpWrite, t0, ?new) else dict_get (db_dirty d) r)" for r
    by (simp add: arm_def same)
  have timers: "dict_get (db_timers ?d) tid = (if tid = ?new then Some (rel, now + delay) else dict_get (db_timers d1) tid)" for tid
    by (simp add: arm_def same)
  have rest: "db_next_timer ?d = Suc ?new" "db_expired ?d = db_expired d" by (simp_all add: arm_def same)
  have old: "timed wc now ?d r t tid \<and> tid < ?new"
    if "dict_get (db_dirty d) r = Some (op, t, tid)" "r \<noteq> rel" for r op t tid
    using ok(3,4)[OF that(1)] keep[OF that] by (simp add: timed_def timers rest)
  have new: "timed wc now ?d rel t0 ?new" using assms(3) by (simp add: timed_def timers)
  show ?thesis unfolding entries_ok_def
  proof (intro allI impI)
    fix r op t tid assume g: "dict_get (db_dirty ?d) r = Some (op, t, tid)"
    have fresh: "tid' < ?new" if "dict_get (db_dirty d) r' = Some (op', t', tid')" for r' op' t' tid'
      using ok(3)[OF that] .
    show "op = OpWrite \<and> t \<le> now \<and> tid < db_next_timer ?d \<and> timed wc now ?d r t tid
      \<and> (\<forall>r' op' t'. dict_get (db_dirty ?d) r' = Some (op', t', tid) \<longrightarrow> r' = r)"
    proof (cases "r = rel")
      case True
      with g have e: "op = OpWrite" "t = t0" "tid = ?new" by (simp_all add: dirty)
      have "r' = rel" if "dict_get (db_dirty ?d) r' = Some (op', t', ?new)" for r' op' t'
        using that fresh[of r' op' t' ?new] unfolding dirty by (cases "r' = rel") auto
      with True new assms(2) show ?thesis unfolding e rest(1) by auto
    next
      case False
      with g have g': "dict_get (db_dirty d) r = Some (op, t, tid)" by (simp add: dirty)
      from ok(5)[OF g'] old[OF g' False]
      have "r' = r" if "dict_get (db_dirty ?d) r' = Some (op', t', tid)" for r' op' t'
        using that unfolding dirty by (cases "r' = rel") auto
      with ok(1,2)[OF g'] old[OF g' False] show ?thesis by (auto simp: rest)
    qed
  qed
qed

text \<open>The entries depend on the dirty paths and the timers only, and removing a path, with or without its
  timer, keeps them.\<close>

lemma entries_ok_mono:
  assumes "entries_ok wc now d" and "db_next_timer d' = db_next_timer d"
    and "\<And>r e. dict_get (db_dirty d') r = Some e \<Longrightarrow> dict_get (db_dirty d) r = Some e"
    and "\<And>r op t0 tid. dict_get (db_dirty d') r = Some (op, t0, tid) \<Longrightarrow> timed wc now d r t0 tid \<Longrightarrow> timed wc now d' r t0 tid"
  shows "entries_ok wc now d'"
  unfolding entries_ok_def
proof (intro allI impI)
  fix r op t0 tid assume g: "dict_get (db_dirty d') r = Some (op, t0, tid)"
  note ok = entries_okD[OF assms(1) assms(3)[OF g]]
  show "op = OpWrite \<and> t0 \<le> now \<and> tid < db_next_timer d' \<and> timed wc now d' r t0 tid
    \<and> (\<forall>r' op' t0'. dict_get (db_dirty d') r' = Some (op', t0', tid) \<longrightarrow> r' = r)"
    using ok(1-3) assms(2) assms(4)[OF g ok(4)] ok(5) assms(3) by auto
qed

lemma entries_ok_frame:
  assumes "entries_ok wc now d" and "db_next_timer d' = db_next_timer d" and "db_dirty d' = db_dirty d"
    and "db_timers d' = db_timers d" and "db_expired d' = db_expired d"
  shows "entries_ok wc now d'"
  using assms(1,2) by (rule entries_ok_mono) (simp_all add: timed_def assms(3-5))

lemma entries_ok_drop:
  "entries_ok wc now d \<Longrightarrow> entries_ok wc now (d\<lparr>db_dirty := dict_del rel (db_dirty d)\<rparr>)"
  by (erule entries_ok_mono) (auto simp: timed_def split: if_splits)

lemma entries_ok_cancel:
  assumes "entries_ok wc now d"
  shows "entries_ok wc now (cancel rel d)"
proof (cases "dict_get (db_dirty d) rel")
  case None
  then show ?thesis by (intro entries_ok_frame[OF assms]) (simp_all add: cancel_def)
next
  case (Some e)
  obtain op t0 tid where e: "e = (op, t0, tid)" by (metis prod_cases3)
  have other: "tid' \<noteq> tid" if "dict_get (db_dirty d) r = Some (op', t0', tid')" "r \<noteq> rel" for r op' t0' tid'
    using entries_okD(5)[OF assms that(1), of rel op t0] that(2) Some e by blast
  show ?thesis
  proof (rule entries_ok_mono[OF assms])
    fix r op' t0' tid' assume g: "dict_get (db_dirty (cancel rel d)) r = Some (op', t0', tid')"
    from g have r: "r \<noteq> rel" "dict_get (db_dirty d) r = Some (op', t0', tid')"
      by (auto simp: cancel_def Some e cancel_timer_def split: if_splits)
    with other[OF r(2,1)] show "timed wc now d r t0' tid' \<Longrightarrow> timed wc now (cancel rel d) r t0' tid'"
      by (simp add: timed_def cancel_def Some e cancel_timer_def)
  qed (auto simp: cancel_def Some e cancel_timer_def split: if_splits)
qed

lemma schedule_arm:
  assumes "entries_ok wc now d"
  obtains t0 delay d1 where
    "schedule wc now rel OpWrite d = (let d2 = arm now rel t0 delay d1
       in if int (length (db_dirty d2)) > wc_max_dirty_files wc then flush_all_locked d2 else d2)"
    "entries_ok wc now (arm now rel t0 delay d1)" "db_dirty d1 = db_dirty d" "db_renames d1 = db_renames d"
    "db_firing d1 = db_firing d" "db_calls d1 = db_calls d"
proof (cases "dict_get (db_dirty d) rel")
  case None
  then show ?thesis
    by (intro that[of now "wc_debounce wc" d] entries_ok_arm[OF assms]) (auto simp: schedule_def arm_def)
next
  case (Some e)
  obtain op t0 tid where e: "e = (op, t0, tid)" by (metis prod_cases3)
  let ?delay = "min (wc_debounce wc) (max (wc_max_delay wc - (now - t0)) 0)"
  have "t0 \<le> now" using entries_okD(2)[OF assms] Some e by blast
  then show ?thesis
    by (intro that[of t0 ?delay "cancel_timer tid d"] entries_ok_arm[OF assms])
      (auto simp: schedule_def arm_def cancel_timer_def Some e)
qed

lemma entries_ok_Nil: "db_dirty d = [] \<Longrightarrow> entries_ok wc now d"
  by (simp add: entries_ok_def)

lemma schedule_inv:
  assumes "deb_inv wc (now, d)"
  shows "deb_inv wc (now, schedule wc now rel OpWrite d)"
proof -
  from assms have e: "entries_ok wc now d" and ok: "dict_ok (db_dirty d)" by simp_all
  from e obtain t0 delay d1 where sch: "schedule wc now rel OpWrite d = (let d2 = arm now rel t0 delay d1
       in if int (length (db_dirty d2)) > wc_max_dirty_files wc then flush_all_locked d2 else d2)"
    and e2: "entries_ok wc now (arm now rel t0 delay d1)"
    and same: "db_dirty d1 = db_dirty d" "db_renames d1 = db_renames d" "db_firing d1 = db_firing d"
    by (rule schedule_arm)
  let ?d2 = "arm now rel t0 delay d1"
  have ok2: "dict_ok (db_dirty ?d2)" using ok by (simp add: arm_def same)
  have rest: "db_renames ?d2 = []" "db_firing ?d2 = db_firing d" using assms by (simp_all add: arm_def same)
  show ?thesis
  proof (cases "int (length (db_dirty ?d2)) > wc_max_dirty_files wc")
    case True
    then have "schedule wc now rel OpWrite d = flush_all_locked ?d2" by (simp add: sch Let_def)
    with assms rest show ?thesis by (simp add: flush_all_locked_eq[OF ok2 e2] entries_ok_Nil)
  next
    case False
    then have "schedule wc now rel OpWrite d = ?d2" by (simp add: sch Let_def)
    with assms rest e2 ok2 False show ?thesis by simp
  qed
qed

lemma length_dict_del: "int (length (dict_del k d)) \<le> n" if "int (length d) \<le> n"
  using that dict_length_del[of k d] by linarith

lemma cancel_frame:
  "db_dirty (cancel rel d) = dict_del rel (db_dirty d)" "db_renames (cancel rel d) = dict_del rel (db_renames d)"
  "db_firing (cancel rel d) = db_firing d" "db_calls (cancel rel d) = db_calls d"
  "db_expired (cancel rel d) = db_expired d"
  by (auto simp: cancel_def cancel_timer_def delete_conv' map_of_eq_None_iff split: option.split)

lemma drop_inv:
  assumes "deb_inv wc (now, d)"
  shows "deb_inv wc (now, d\<lparr>db_dirty := dict_del rel (db_dirty d)\<rparr>)" and "deb_inv wc (now, cancel rel d)"
  using assms by (auto simp: cancel_frame entries_ok_drop entries_ok_cancel length_dict_del)

lemma call_back_inv: "deb_inv wc (now, d) \<Longrightarrow> deb_inv wc (now, call_back c d)"
  by (auto elim: entries_ok_frame)

lemma flush_delete_inv: "deb_inv wc (now, d) \<Longrightarrow> deb_inv wc (now, flush_now rel OpDelete (cancel rel d))"
  using call_back_inv[OF drop_inv(1)[OF drop_inv(2)]] by (simp add: flush_now_def dispatch_def del: deb_inv.simps)

text \<open>A rename inside the silo: the pending paths are dropped, one callback reports it.\<close>

lemma flush_rename_eq:
  assumes "db_renames d = []"
  shows "(let d1 = cancel src d in flush_now dst OpRename (d1\<lparr>db_renames := dict_set dst (src, dst) (db_renames d1)\<rparr>))
    = call_back (OnRenameFlush src dst) ((cancel src d)\<lparr>db_dirty := dict_del dst (dict_del src (db_dirty d)), db_renames := []\<rparr>)"
  using assms by (simp add: Let_def flush_now_def dispatch_def cancel_frame)

lemma flush_rename_inv:
  assumes "deb_inv wc (now, d)"
  shows "deb_inv wc (now, let d1 = cancel src d
     in flush_now dst OpRename (d1\<lparr>db_renames := dict_set dst (src, dst) (db_renames d1)\<rparr>))"
proof -
  let ?d = "(cancel src d)\<lparr>db_dirty := dict_del dst (dict_del src (db_dirty d))\<rparr>"
  have r: "db_renames d = []" using assms by simp
  have "deb_inv wc (now, ?d)" using drop_inv(1)[OF drop_inv(2)[OF assms, of src], of dst] by (simp only: cancel_frame)
  moreover have "db_renames ?d = []" by (simp add: cancel_frame r)
  ultimately show ?thesis unfolding flush_rename_eq[OF r] by (intro call_back_inv) (auto elim: entries_ok_frame)
qed

lemma handle_event_inv:
  assumes "deb_inv wc (now, d)"
  shows "deb_inv wc (now, handle_event wc now ev d)"
proof -
  have w: "deb_inv wc (now, on_write wc now p d)" for p
    using assms schedule_inv[OF assms] by (auto simp: on_write_def simp del: deb_inv.simps split: option.split)
  have r: "deb_inv wc (now, on_rename wc now p q d)" for p q
    using assms schedule_inv[OF assms] flush_delete_inv[OF assms] flush_rename_inv[OF assms, unfolded Let_def]
    by (auto simp: on_rename_def Let_def simp del: deb_inv.simps split: option.split)
  have x: "deb_inv wc (now, on_delete wc p d)" for p
    using assms flush_delete_inv[OF assms] by (auto simp: on_delete_def simp del: deb_inv.simps split: option.split)
  show ?thesis by (cases ev) (use assms w r x in auto)
qed

lemma set_remove_nth: "n < length xs \<Longrightarrow> set xs = insert (xs ! n) (set (remove_nth n xs))"
  using id_take_nth_drop[of n xs] by (metis remove_nth_def list.simps(15) set_append Un_insert_right)

lemma expire_inv:
  assumes "deb_inv wc (now, d)"
  shows "deb_inv wc (deb_step wc (Expire tid) (now, d))"
proof (cases "dict_get (db_timers d) tid")
  case (Some x)
  obtain rel dl where x: "x = (rel, dl)" by fastforce
  let ?d = "d\<lparr>db_timers := dict_del tid (db_timers d), db_expired := db_expired d @ [rel]\<rparr>"
  have "entries_ok wc now d" using assms by simp
  then have "entries_ok wc now ?d"
    by (rule entries_ok_mono) (use Some x in \<open>auto simp: timed_def\<close>)
  with assms show ?thesis by (simp add: Some x)
qed (use assms in simp)

lemma enter_inv:
  assumes "deb_inv wc (now, d)"
  shows "deb_inv wc (deb_step wc (Enter n) (now, d))"
proof (cases "n < length (db_expired d)")
  case True
  let ?rel = "db_expired d ! n"
  let ?d = "timer_fired ?rel (d\<lparr>db_expired := remove_nth n (db_expired d)\<rparr>)"
  have e: "entries_ok wc now d" using assms by simp
  have "entries_ok wc now ?d"
    by (rule entries_ok_mono[OF e])
      (auto simp: timer_fired_def timed_def set_remove_nth[OF True] split: option.splits if_splits)
  with assms have "deb_inv wc (now, ?d)"
    by (auto simp: timer_fired_def length_dict_del split: option.split dest: entries_okD(1)[OF e])
  with True show ?thesis by simp
qed (use assms in simp)

interpretation deb: invariant_machine "deb_step wc" "deb_inv wc" for wc
proof
  fix s op assume "deb_inv wc s"
  moreover obtain now d where s: "s = (now, d)" by fastforce
  ultimately have i: "deb_inv wc (now, d)" by simp
  show "deb_inv wc (deb_step wc op s)"
  proof (cases op)
    case (Tick n)
    with i show ?thesis by (simp add: s entries_ok_later)
  next
    case (Notify ev)
    with handle_event_inv[OF i] show ?thesis by (simp add: s del: deb_inv.simps)
  next
    case (CallBack n)
    have "n < length (db_firing d) \<Longrightarrow> snd (db_firing d ! n) = OpWrite" using i by simp
    with CallBack i show ?thesis
      by (auto simp: s dispatch_def remove_nth_def elim: entries_ok_frame dest: in_set_takeD in_set_dropD)
  next
    case Stop
    from i have "dict_ok (db_dirty d)" "entries_ok wc now d" by simp_all
    with Stop i show ?thesis by (simp add: s flush_all_def flush_all_locked_eq entries_ok_Nil)
  qed (use expire_inv[OF i] enter_inv[OF i] s in auto)
qed

lemma deb_reachable: "deb_inv wc (fold (deb_step wc) ops (now, Debouncer_new))"
  by (rule deb.run_inv) (simp add: Debouncer_new_def entries_ok_Nil)

text \<open>C17: no pending change is forgotten, none waits too long and the backlog is bounded.  After any
  interleaving of notifications, timers and time, a pending path with its first unreported change at
  \<open>t0\<close> has a timer of its own, either already on its way to report it or due by the later of now and
  \<open>t0\<close> plus the larger of the debounce time and the cap; and no more paths are pending than the limit
  allows.\<close>

theorem pending_paths_have_timers:
  assumes "fold (deb_step wc) ops (start, Debouncer_new) = (now, d)"
  shows "int (length (db_dirty d)) \<le> max 0 (wc_max_dirty_files wc)
    \<and> (\<forall>rel op t0 tid. dict_get (db_dirty d) rel = Some (op, t0, tid) \<longrightarrow>
         rel \<in> set (db_expired d)
         \<or> (\<exists>deadline. dict_get (db_timers d) tid = Some (rel, deadline)
              \<and> deadline \<le> max now (t0 + max (wc_debounce wc) (wc_max_delay wc))))"
proof -
  have "deb_inv wc (now, d)" using deb_reachable[of wc ops start] by (simp add: assms)
  then show ?thesis using entries_okD(4)[of wc now d] by (auto simp: timed_def)
qed

section \<open>Every change is reported\<close>

fun mentions :: "flush_call \<Rightarrow> string set" where
  "mentions (OnFlush rel op) = {rel}"
| "mentions (OnRenameFlush old new) = {old, new}"

text \<open>The paths a notification says were written, as far as the watcher looks at them.\<close>

fun written :: "watch_config \<Rightarrow> deb_op \<Rightarrow> string set" where
  "written wc (Notify (Created False p)) = {rel. rel_path wc p = Some rel \<and> \<not> is_blocked wc rel}"
| "written wc (Notify (Modified False p)) = {rel. rel_path wc p = Some rel \<and> \<not> is_blocked wc rel}"
| "written wc op = {}"

text \<open>The run of the debouncer with the set of paths written and not mentioned in a callback since.\<close>

definition track :: "watch_config \<Rightarrow> deb_op \<Rightarrow> string set \<times> int \<times> Debouncer \<Rightarrow> string set \<times> int \<times> Debouncer" where
  "track wc op x =
     (case x of (unreported, s) \<Rightarrow>
        let s' = deb_step wc op (fst s, (snd s)\<lparr>db_calls := []\<rparr>)
        in (unreported \<union> written wc op - \<Union> (mentions ` set (db_calls (snd s'))), s'))"

definition pending_set :: "Debouncer \<Rightarrow> string set" where
  "pending_set d = fst ` set (db_dirty d) \<union> fst ` set (db_firing d)"

definition track_inv :: "watch_config \<Rightarrow> string set \<times> int \<times> Debouncer \<Rightarrow> bool" where
  "track_inv wc x \<longleftrightarrow> deb_inv wc (snd x) \<and> fst x \<subseteq> pending_set (snd (snd x))"

text \<open>What a step takes off the pending paths it mentions.\<close>

definition accounts :: "string set \<Rightarrow> Debouncer \<Rightarrow> Debouncer \<Rightarrow> bool" where
  "accounts new d d' \<longleftrightarrow> pending_set d \<union> new \<subseteq> pending_set d' \<union> \<Union> (mentions ` set (db_calls d'))"

lemma schedule_accounts:
  assumes "deb_inv wc (now, d)"
  shows "accounts {rel} d (schedule wc now rel OpWrite d)"
proof -
  from assms have e: "entries_ok wc now d" and ok: "dict_ok (db_dirty d)" by simp_all
  from e obtain t0 delay d1 where sch: "schedule wc now rel OpWrite d = (let d2 = arm now rel t0 delay d1
       in if int (length (db_dirty d2)) > wc_max_dirty_files wc then flush_all_locked d2 else d2)"
    and e2: "entries_ok wc now (arm now rel t0 delay d1)"
    and same: "db_dirty d1 = db_dirty d" "db_firing d1 = db_firing d"
    by (rule schedule_arm)
  let ?d2 = "arm now rel t0 delay d1"
  have ok2: "dict_ok (db_dirty ?d2)" using ok by (simp add: arm_def same)
  have p: "pending_set ?d2 = insert rel (pending_set d)" by (simp add: pending_set_def arm_def same)
  have f: "accounts {} ?d2 (flush_all_locked ?d2)"
    by (auto simp: accounts_def pending_set_def flush_all_locked_eq[OF ok2 e2])
  from p f show ?thesis by (auto simp: sch Let_def accounts_def)
qed

lemma flush_delete_accounts: "accounts {} d (flush_now rel OpDelete (cancel rel d))"
  by (auto simp: accounts_def pending_set_def flush_now_def dispatch_def cancel_frame image_iff)

lemma flush_rename_accounts:
  "db_renames d = [] \<Longrightarrow> accounts {} d (let d1 = cancel src d
     in flush_now dst OpRename (d1\<lparr>db_renames := dict_set dst (src, dst) (db_renames d1)\<rparr>))"
  by (auto simp: flush_rename_eq accounts_def pending_set_def cancel_frame)

lemma accounts_refl: "accounts {} d d"
  by (auto simp: accounts_def)

lemma handle_event_accounts:
  assumes "deb_inv wc (now, d)"
  shows "accounts (written wc (Notify ev)) d (handle_event wc now ev d)"
proof -
  have w: "accounts {rel. rel_path wc p = Some rel \<and> \<not> is_blocked wc rel} d (on_write wc now p d)" for p
    using accounts_refl schedule_accounts[OF assms]
    by (auto simp: on_write_def accounts_def split: option.split)
  have r: "accounts {} d (on_rename wc now p q d)" for p q
    using accounts_refl schedule_accounts[OF assms] flush_delete_accounts assms
      flush_rename_accounts[unfolded Let_def]
    by (auto simp: on_rename_def Let_def split: option.split) (auto simp: accounts_def)
  have x: "accounts {} d (on_delete wc p d)" for p
    using accounts_refl flush_delete_accounts by (auto simp: on_delete_def split: option.split)
  show ?thesis
  proof (cases ev)
    case (Created b p)
    with w accounts_refl show ?thesis by (cases b) auto
  next
    case (Modified b p)
    with w accounts_refl show ?thesis by (cases b) auto
  qed (use r x in auto)
qed

lemma deb_step_accounts:
  assumes "deb_inv wc (now, d)"
  shows "accounts (written wc op) d (snd (deb_step wc op (now, d)))"
proof (cases op)
  case (Notify ev)
  with handle_event_accounts[OF assms] show ?thesis by simp
next
  case (Enter n)
  then show ?thesis
    by (auto simp: accounts_def pending_set_def timer_fired_def dict_get_None split: option.split)
next
  case (CallBack n)
  show ?thesis
  proof (cases "n < length (db_firing d)")
    case True
    then have "snd (db_firing d ! n) = OpWrite" using assms by simp
    with True show ?thesis
      by (auto simp: CallBack accounts_def pending_set_def dispatch_def set_remove_nth[OF True])
  qed (simp add: CallBack accounts_refl)
next
  case Stop
  from assms have "dict_ok (db_dirty d)" "entries_ok wc now d" by simp_all
  with Stop show ?thesis
    by (auto simp: accounts_def pending_set_def flush_all_def flush_all_locked_eq)
qed (auto simp: accounts_def pending_set_def split: option.split prod.split)

interpretation tracked: invariant_machine "track wc" "track_inv wc" for wc
proof
  fix x op assume i: "track_inv wc x"
  obtain u now d where x: "x = (u, now, d)" by (metis prod_cases3)
  have inv: "deb_inv wc (now, d\<lparr>db_calls := []\<rparr>)" using i by (auto simp: x track_inv_def elim: entries_ok_frame)
  have "deb_inv wc (deb_step wc op (now, d\<lparr>db_calls := []\<rparr>))" by (rule deb.step_inv[OF inv])
  moreover have "pending_set (d\<lparr>db_calls := []\<rparr>) = pending_set d" by (simp add: pending_set_def)
  moreover note deb_step_accounts[OF inv, of op]
  ultimately show "track_inv wc (track wc op x)"
    using i by (auto simp: x track_inv_def track_def Let_def accounts_def)
qed

text \<open>C16: every change is reported.  At any moment, a path that was written to and that no callback has
  mentioned since is still pending; so when nothing is pending, every write that was notified on a
  path the watcher looks at has been followed by a callback for that path.\<close>

theorem writes_are_reported:
  assumes "fold (track wc) ops ({}, start, Debouncer_new) = (unreported, now, d)"
  shows "unreported \<subseteq> fst ` set (db_dirty d) \<union> fst ` set (db_firing d)"
proof -
  have "track_inv wc (fold (track wc) ops ({}, start, Debouncer_new))"
    by (rule tracked.run_inv) (simp add: track_inv_def Debouncer_new_def entries_ok_Nil)
  then show ?thesis by (simp add: assms track_inv_def pending_set_def)
qed

text \<open>The steps that are not notifications: time and the timer threads.\<close>

fun timer_op :: "deb_op \<Rightarrow> bool" where
  "timer_op (Tick n) = True" | "timer_op (Expire n) = True" | "timer_op (Enter n) = True"
| "timer_op (CallBack n) = True" | "timer_op op = False"

lemma expired_reports:
  assumes "deb_inv wc (now, d)" and "dict_get (db_dirty d) rel = Some (op, t0, tid)" and "rel \<in> set (db_expired d)"
  shows "\<exists>ops. list_all timer_op ops \<and> OnFlush rel OpWrite \<in> set (db_calls (snd (fold (deb_step wc) ops (now, d))))"
proof -
  from assms(3) obtain n where n: "n < length (db_expired d)" "db_expired d ! n = rel" by (auto simp: in_set_conv_nth)
  have "op = OpWrite" using assms(1,2) entries_okD(1) by fastforce
  with n assms(2) show ?thesis
    by (intro exI[of _ "[Enter n, CallBack (length (db_firing d))]"])
      (simp add: timer_fired_def dispatch_def nth_append)
qed

text \<open>the timers do their work: from every reachable state, a pending path is reported by letting
  time pass and the timer threads run.\<close>

theorem pending_path_gets_reported:
  assumes "fold (deb_step wc) ops (start, Debouncer_new) = (now, d)" and "rel \<in> fst ` set (db_dirty d)"
  shows "\<exists>ops'. list_all timer_op ops'
    \<and> OnFlush rel OpWrite \<in> set (db_calls (snd (fold (deb_step wc) ops' (now, d))))"
proof -
  have inv: "deb_inv wc (now, d)" using deb_reachable[of wc ops start] by (simp add: assms(1))
  from assms(2) obtain op t0 tid where e: "dict_get (db_dirty d) rel = Some (op, t0, tid)"
    by (metis dict_get_None not_None_eq prod_cases3)
  from inv have "timed wc now d rel t0 tid" using entries_okD(4)[OF _ e] by simp
  then show ?thesis unfolding timed_def
  proof (elim disjE exE conjE)
    fix dl assume tm: "dict_get (db_timers d) tid = Some (rel, dl)"
    let ?pre = "[Tick (nat (dl - now)), Expire tid]"
    let ?s = "fold (deb_step wc) ?pre (now, d)"
    have s: "?s = (now + int (nat (dl - now)), d\<lparr>db_timers := dict_del tid (db_timers d), db_expired := db_expired d @ [rel]\<rparr>)"
      using tm by simp
    have "deb_inv wc ?s" by (rule deb.run_inv[OF inv])
    from expired_reports[OF this[unfolded s], of rel op t0 tid] e obtain ops' where
      "list_all timer_op ops'" "OnFlush rel OpWrite \<in> set (db_calls (snd (fold (deb_step wc) ops' ?s)))"
      unfolding s by auto
    then show ?thesis by (intro exI[of _ "?pre @ ops'"]) simp
  qed (rule expired_reports[OF inv e])
qed

text \<open>a rename swallows a pending write.  A file that is written and renamed within the debounce time
  is reported as a rename only: no write follows, nothing is pending, no timer is left, and an index
  that follows the events keeps the hash of the content before the write under the new name.\<close>

theorem rename_swallows_write:
  assumes "rel_path wc p = Some a" "\<not> is_blocked wc a" "rel_path wc q = Some b" "\<not> is_blocked wc b" "a \<noteq> b"
    and "1 \<le> wc_max_dirty_files wc" and "wd_stat wd b \<noteq> None"
    and "sw = fold (watcher_step wc) [(wd, Notify (Modified False p)), (wd, Notify (Moved p q))]
           \<lparr>sw_debouncer = Debouncer_new, sw_now = now, sw_queue = []\<rparr>"
  shows "sw_queue sw = [Rename a b (wd_time_ns wd)] \<and> db_dirty (sw_debouncer sw) = []
    \<and> db_timers (sw_debouncer sw) = [] \<and> db_expired (sw_debouncer sw) = [] \<and> db_firing (sw_debouncer sw) = []
    \<and> (live ix a = Some r \<and> live ix b = None
       \<longrightarrow> map_option fr_rapidhash (live (apply_events (sw_queue sw) ix) b) = Some (fr_rapidhash r))"
proof -
  have "sw_queue sw = [Rename a b (wd_time_ns wd)] \<and> db_dirty (sw_debouncer sw) = []
    \<and> db_timers (sw_debouncer sw) = [] \<and> db_expired (sw_debouncer sw) = [] \<and> db_firing (sw_debouncer sw) = []"
    using assms by (auto simp: watcher_step_def on_write_def on_rename_def schedule_def cancel_def cancel_timer_def
        flush_now_def dispatch_def Debouncer_new_def Let_def on_rename_flush_def)
  then show ?thesis
    using assms(5) live_apply_events[of "[Rename a b (wd_time_ns wd)]" ix] by (auto simp: live_move_def)
qed

section \<open>Examples\<close>

text \<open>A watcher on \<^verbatim>\<open>/s\<close> that looks at everything.\<close>

definition demo_watch :: watch_config where
  "demo_watch = \<lparr>wc_root = [''s''], wc_spec = \<lambda>_. False, wc_debounce = 200, wc_max_delay = 1500, wc_max_dirty_files = 50\<rparr>"

definition demo_world :: world where
  "demo_world = \<lparr>wd_time_ns = 7, wd_stat = \<lambda>_. Some \<lparr>st_mtime_ns = 0, st_size = 0, st_uid = 0, st_gid = 0, st_mode = 0\<rparr>,
     wd_read = \<lambda>_. Some [], wd_pwuid = \<lambda>_. None, wd_grgid = \<lambda>_. None, wd_rapidhash = \<lambda>_. 0\<rparr>"

lemma demo_rel: "rel_path demo_watch ''/s/a'' = Some ''a''" "rel_path demo_watch ''/s/b'' = Some ''b''"
  "is_blocked demo_watch x = False"
  by (simp_all add: rel_path_def demo_watch_def path_parts_def starts_with_def is_blocked_def)

lemma demo_write:
  "fold (deb_step demo_watch) [Notify (Modified False ''/s/a''), Tick 100] (0, Debouncer_new)
   = (100, \<lparr>db_dirty = [(''a'', OpWrite, 0, 0)], db_renames = [], db_timers = [(0, ''a'', 200)], db_expired = [],
            db_firing = [], db_next_timer = 1, db_calls = []\<rparr>)"
  by (simp add: on_write_def demo_rel schedule_def Debouncer_new_def Let_def)
    (simp add: demo_watch_def)

theorem pending_paths_have_timers_witness:
  "dict_get [(0 :: nat, ''a'', 200 :: int)] 0 = Some (''a'', 200)
   \<and> (\<exists>deadline. dict_get [(0 :: nat, ''a'', 200 :: int)] 0 = Some (''a'', deadline)
        \<and> deadline \<le> max 100 (0 + max (wc_debounce demo_watch) (wc_max_delay demo_watch)))"
  using pending_paths_have_timers[OF demo_write, THEN conjunct2, rule_format, of "''a''" OpWrite 0 0] by simp

theorem writes_are_reported_witness:
  "fst (fold (track demo_watch) [Notify (Modified False ''/s/a'')] ({}, 0, Debouncer_new)) = {''a''}
   \<and> {''a''} \<subseteq> fst ` set (db_dirty (snd (snd (fold (track demo_watch) [Notify (Modified False ''/s/a'')] ({}, 0, Debouncer_new)))))"
proof -
  let ?x = "fold (track demo_watch) [Notify (Modified False ''/s/a'')] ({}, 0, Debouncer_new)"
  have x: "?x = ({''a''}, 0, \<lparr>db_dirty = [(''a'', OpWrite, 0, 0)], db_renames = [], db_timers = [(0, ''a'', 200)],
      db_expired = [], db_firing = [], db_next_timer = 1, db_calls = []\<rparr>)"
    by (simp add: track_def on_write_def demo_rel schedule_def Debouncer_new_def Let_def)
      (simp add: demo_watch_def)
  show ?thesis using writes_are_reported[OF x] unfolding x by simp
qed

theorem pending_path_gets_reported_witness:
  "\<exists>ops'. list_all timer_op ops' \<and> OnFlush ''a'' OpWrite \<in> set (db_calls (snd (fold (deb_step demo_watch) ops'
     (100, \<lparr>db_dirty = [(''a'', OpWrite, 0, 0)], db_renames = [], db_timers = [(0, ''a'', 200)], db_expired = [],
            db_firing = [], db_next_timer = 1, db_calls = []\<rparr>))))"
  by (rule pending_path_gets_reported[OF demo_write]) simp

theorem rename_swallows_write_witness:
  "sw_queue (fold (watcher_step demo_watch)
       [(demo_world, Notify (Modified False ''/s/a'')), (demo_world, Notify (Moved ''/s/a'' ''/s/b''))]
       \<lparr>sw_debouncer = Debouncer_new, sw_now = 0, sw_queue = []\<rparr>) = [Rename ''a'' ''b'' 7]"
  using rename_swallows_write[OF demo_rel(1) _ demo_rel(2) _ _ _ _ refl, of demo_world]
  by (simp add: demo_rel(3)) (simp add: demo_watch_def demo_world_def)

end
