(* ===== verification/Websocket.thy ===== *)
theory Websocket
  imports Json
begin

text \<open>
  \<^verbatim>\<open>transport/websocket.py\<close>: connecting with exponential back-off.  What the \<^verbatim>\<open>websockets\<close> package
  returns for each attempt and the random noise are arguments; the loop may run for ever and is a
  partial function, whose value is \<open>None\<close> when it does.  Durations are integers in one unit.
\<close>

section \<open>Connections\<close>

text \<open>\<^verbatim>\<open>Connection.recv\<close>: a text frame is a \<^verbatim>\<open>TypeError\<close>; the exception of a closed connection passes
  through unchanged.\<close>

datatype ws_frame = BinaryFrame bytes | TextFrame string | WsClosed
datatype ws_exc = WsTypeError string | WsConnectionClosed

definition Connection_recv :: "ws_frame \<Rightarrow> ws_exc + bytes" where
  "Connection_recv msg =
     (case msg of BinaryFrame b \<Rightarrow> Inr b | TextFrame t \<Rightarrow> Inl (WsTypeError t) | WsClosed \<Rightarrow> Inl WsConnectionClosed)"

section \<open>The client\<close>

record WebSocketClient =
  wsc_url :: string
  wsc_initial_delay :: int
  wsc_max_delay :: int
  wsc_max_retries :: "int option"
  wsc_jitter :: int

text \<open>The defaults, in tenths of a second.\<close>

definition WebSocketClient_new :: "string \<Rightarrow> WebSocketClient" where
  "WebSocketClient_new url =
     \<lparr>wsc_url = url, wsc_initial_delay = 10, wsc_max_delay = 600, wsc_max_retries = None, wsc_jitter = 5\<rparr>"

datatype connection_lost = ConnectionLost string

text \<open>\<open>connect\<close>: the outcome of the attempt is a connection or the text of the exception.\<close>

definition connect :: "WebSocketClient \<Rightarrow> string + 'c \<Rightarrow> connection_lost + 'c" where
  "connect c outcome =
     (case outcome of
        Inl exc \<Rightarrow> Inl (ConnectionLost (''failed to connect to '' @ wsc_url c @ '': '' @ exc))
      | Inr conn \<Rightarrow> Inr conn)"

definition gave_up :: "WebSocketClient \<Rightarrow> nat \<Rightarrow> connection_lost" where
  "gave_up c attempt =
     ConnectionLost (''gave up connecting to '' @ wsc_url c @ '' after '' @ show_nat attempt @ '' attempts'')"

text \<open>The loop, from the attempt with number \<open>n\<close> on; the result carries the waits so far.\<close>

partial_function (option) retry_loop :: "WebSocketClient \<Rightarrow> (nat \<Rightarrow> string + 'c) \<Rightarrow> (nat \<Rightarrow> int) \<Rightarrow> int \<Rightarrow> nat \<Rightarrow> int list
    \<Rightarrow> ((connection_lost + 'c) \<times> int list) option" where
  "retry_loop c outcome noise delay n waits =
     (case connect c (outcome n) of
        Inr conn \<Rightarrow> Some (Inr conn, waits)
      | Inl _ \<Rightarrow>
          if (case wsc_max_retries c of None \<Rightarrow> False | Some m \<Rightarrow> int (Suc n) \<ge> m)
          then Some (Inl (gave_up c (Suc n)), waits)
          else retry_loop c outcome noise (min (delay * 2) (wsc_max_delay c)) (Suc n)
                 (waits @ [min (delay + noise n) (wsc_max_delay c)]))"

definition connect_with_retry :: "WebSocketClient \<Rightarrow> (nat \<Rightarrow> string + 'c) \<Rightarrow> (nat \<Rightarrow> int)
    \<Rightarrow> ((connection_lost + 'c) \<times> int list) option" where
  "connect_with_retry c outcome noise = retry_loop c outcome noise (wsc_initial_delay c) 0 []"

section \<open>The back-off schedule\<close>

definition backoff :: "WebSocketClient \<Rightarrow> (nat \<Rightarrow> int) \<Rightarrow> nat \<Rightarrow> int" where
  "backoff c noise i = min (min (wsc_initial_delay c * 2 ^ i) (wsc_max_delay c) + noise i) (wsc_max_delay c)"

definition may_fail :: "WebSocketClient \<Rightarrow> nat \<Rightarrow> bool" where
  "may_fail c k \<longleftrightarrow> (case wsc_max_retries c of None \<Rightarrow> True | Some m \<Rightarrow> int k < m)"

lemma connect_Inl: "connect c (Inl e) = Inl (ConnectionLost (''failed to connect to '' @ wsc_url c @ '': '' @ e))"
  and connect_Inr: "connect c (Inr conn) = Inr conn"
  by (simp_all add: connect_def)

lemma double_min: "0 \<le> x \<Longrightarrow> 0 \<le> m \<Longrightarrow> min (min x m * 2) m = min (x * 2) (m :: int)"
  by (simp add: min_def)

text \<open>After \<open>k\<close> failures that do not exhaust the retries, the loop stands at attempt \<open>k\<close>, with the waits of
  the schedule behind it.\<close>

lemma retry_after_failures:
  assumes "0 \<le> wsc_initial_delay c" "wsc_initial_delay c \<le> wsc_max_delay c"
    and "\<forall>i < k. is_error (outcome i)" and "may_fail c k"
  shows "connect_with_retry c outcome noise
     = retry_loop c outcome noise (min (wsc_initial_delay c * 2 ^ k) (wsc_max_delay c)) k (map (backoff c noise) [0..<k])"
  using assms(3,4)
proof (induction k)
  case (Suc k)
  obtain e where e: "outcome k = Inl e" using Suc.prems(1) by (cases "outcome k") auto
  let ?d = "min (wsc_initial_delay c * 2 ^ k) (wsc_max_delay c)"
  have "may_fail c k" "\<not> (case wsc_max_retries c of None \<Rightarrow> False | Some m \<Rightarrow> int (Suc k) \<ge> m)"
    using Suc.prems(2) by (auto simp: may_fail_def split: option.splits)
  moreover have "min (?d * 2) (wsc_max_delay c) = min (wsc_initial_delay c * 2 ^ Suc k) (wsc_max_delay c)"
    using assms(1,2) double_min[of "wsc_initial_delay c * 2 ^ k" "wsc_max_delay c"] by (simp add: mult.assoc mult.commute)
  ultimately have "retry_loop c outcome noise ?d k (map (backoff c noise) [0..<k])
      = retry_loop c outcome noise (min (wsc_initial_delay c * 2 ^ Suc k) (wsc_max_delay c)) (Suc k)
          (map (backoff c noise) [0..<Suc k])"
    by (subst retry_loop.simps) (simp add: e connect_Inl backoff_def)
  with Suc \<open>may_fail c k\<close> show ?case by simp
qed (use assms(2) in \<open>simp add: connect_with_retry_def\<close>)

text \<open>C35: the back-off is as documented.  When the attempts before the one with number \<open>k\<close> fail, that one
  succeeds and the retries allow it, the call returns that connection after exactly \<open>k\<close> waits; when all
  the allowed attempts fail it returns the error after one wait less than attempts; the wait after
  attempt \<open>i\<close> is the initial delay doubled \<open>i\<close> times, capped, plus the noise, capped again.\<close>

theorem connect_with_retry_schedule:
  assumes "0 \<le> wsc_initial_delay c" and "wsc_initial_delay c \<le> wsc_max_delay c"
  shows "(may_fail c k \<and> (\<forall>i < k. is_error (outcome i)) \<and> outcome k = Inr conn
      \<longrightarrow> connect_with_retry c outcome noise = Some (Inr conn, map (backoff c noise) [0..<k]))
    \<and> (wsc_max_retries c = Some (int (Suc k)) \<and> (\<forall>i < Suc k. is_error (outcome i))
      \<longrightarrow> connect_with_retry c outcome noise = Some (Inl (gave_up c (Suc k)), map (backoff c noise) [0..<k]))
    \<and> backoff c noise k \<le> wsc_max_delay c"
proof (intro conjI impI)
  assume "may_fail c k \<and> (\<forall>i < k. is_error (outcome i)) \<and> outcome k = Inr conn"
  with retry_after_failures[OF assms, of k outcome]
  show "connect_with_retry c outcome noise = Some (Inr conn, map (backoff c noise) [0..<k])"
    by (subst (asm) retry_loop.simps) (simp add: connect_Inr)
next
  assume a: "wsc_max_retries c = Some (int (Suc k)) \<and> (\<forall>i < Suc k. is_error (outcome i))"
  then obtain e where "outcome k = Inl e" by (cases "outcome k") auto
  with a retry_after_failures[OF assms, of k outcome]
  show "connect_with_retry c outcome noise = Some (Inl (gave_up c (Suc k)), map (backoff c noise) [0..<k])"
    by (subst (asm) retry_loop.simps) (simp add: connect_Inl may_fail_def)
qed (simp add: backoff_def)

theorem connect_with_retry_schedule_witness:
  "connect_with_retry ((WebSocketClient_new ''ws'')\<lparr>wsc_max_retries := Some 3\<rparr>)
     (\<lambda>n. if n < 2 then Inl ''refused'' else Inr ()) (\<lambda>_. 1) = Some (Inr (), [11, 21])"
proof -
  let ?c = "(WebSocketClient_new ''ws'')\<lparr>wsc_max_retries := Some 3\<rparr>"
  let ?o = "\<lambda>n :: nat. if n < 2 then Inl ''refused'' else Inr ()"
  have "0 \<le> wsc_initial_delay ?c" "wsc_initial_delay ?c \<le> wsc_max_delay ?c" by (simp_all add: WebSocketClient_new_def)
  from connect_with_retry_schedule[OF this, THEN conjunct1, of 2 ?o "()" "\<lambda>_. 1"] show ?thesis
    by (simp add: may_fail_def backoff_def WebSocketClient_new_def upt_rec)
qed

text \<open>Without a limit on the retries the loop returns connections only.\<close>

lemma retry_loop_unlimited:
  assumes "retry_loop c outcome noise delay n waits = Some p" and "wsc_max_retries c = None"
  shows "\<exists>k conn. n \<le> k \<and> fst p = Inr conn \<and> outcome k = Inr conn"
  using assms
proof (induction rule: retry_loop.raw_induct[rotated, consumes 1, case_names step])
  case (step loop cl out ns d m ws q)
  show ?case
  proof (cases "out m")
    case (Inl e)
    with step(2,3) have "loop cl out ns (min (d * 2) (wsc_max_delay cl)) (Suc m) (ws @ [min (d + ns m) (wsc_max_delay cl)]) = Some q"
      by (simp add: connect_Inl)
    from step(1)[OF this step(3)] show ?thesis by (meson Suc_leD)
  qed (use step(2) in \<open>auto simp: connect_Inr\<close>)
qed

text \<open>without a limit on the retries, which is the default, no failure is ever reported: the call either
  returns a connection or never returns, and when no attempt succeeds it never returns.\<close>

theorem connect_with_retry_never_fails:
  assumes "wsc_max_retries c = None"
  shows "(connect_with_retry c outcome noise = Some (r, waits) \<longrightarrow> (\<exists>k conn. r = Inr conn \<and> outcome k = Inr conn))
    \<and> ((\<forall>i. is_error (outcome i)) \<longrightarrow> connect_with_retry c outcome noise = None)"
proof (intro conjI impI)
  show "\<exists>k conn. r = Inr conn \<and> outcome k = Inr conn" if "connect_with_retry c outcome noise = Some (r, waits)"
    using retry_loop_unlimited[OF that[unfolded connect_with_retry_def] assms] by auto
  assume err: "\<forall>i. is_error (outcome i)"
  show "connect_with_retry c outcome noise = None"
  proof (rule ccontr)
    assume "connect_with_retry c outcome noise \<noteq> None"
    then obtain p where "connect_with_retry c outcome noise = Some p" by blast
    from retry_loop_unlimited[OF this[unfolded connect_with_retry_def] assms] obtain k conn
      where "outcome k = Inr conn" by blast
    with err show False by (metis is_error_simps(2))
  qed
qed

theorem connect_with_retry_never_fails_witness:
  "connect_with_retry (WebSocketClient_new ''ws'') (\<lambda>_. Inl ''403'' :: string + unit) (\<lambda>_. 0) = None"
proof -
  have "wsc_max_retries (WebSocketClient_new ''ws'') = None" by (simp add: WebSocketClient_new_def)
  from connect_with_retry_never_fails[OF this, of "\<lambda>_. Inl ''403'' :: string + unit"] show ?thesis by simp
qed

end
