(* ===== verification/Client.thy ===== *)
theory Client
  imports Connection Watcher Websocket
begin

text \<open>
  \<^verbatim>\<open>client.py\<close>: the client's side of a silo, composed from the transport, the handshake, the
  reconciliation, the watcher and the engine, over the framed connection each of them uses.  The
  outcomes of connection attempts, the events of the watcher, file contents, clock and identifiers are
  arguments.  An asyncio task ends with the exception its coroutine raises.
\<close>

section \<open>State and errors\<close>

record SiloClientConfig =
  scc_silo_id :: uuid
  scc_local_path :: path
  scc_blacklist :: "string list"

record ChiraliteClient =
  cl_url :: string
  cl_http_base_url :: "string option"
  cl_http_mode :: bool
  cl_audit :: "audit_event list"

datatype client_exc =
    ClientHandshakeExc hs_exc
  | ClientLost connection_lost
  | ClientOSError
  | ClientFrame frame_error
  | ClientReconcile reconcile_error
  | ClientInvalid "validation_error list"

text \<open>The exceptions \<^verbatim>\<open>_run_silo_with_retry\<close> catches.  A connection that closes under a \<^verbatim>\<open>recv\<close> is
  \<^verbatim>\<open>ConnectionLostHttp\<close>, which it catches, on the HTTP transport, and the \<^verbatim>\<open>ConnectionClosed\<close> of the
  \<^verbatim>\<open>websockets\<close> package, which it does not, on the other.\<close>

fun retryable :: "bool \<Rightarrow> client_exc \<Rightarrow> bool" where
  "retryable http (ClientHandshakeExc (HandshakeFailed _)) = True"
| "retryable http (ClientHandshakeExc (RecvExc ConnClosed)) = http"
| "retryable http (ClientLost _) = True"
| "retryable http ClientOSError = True"
| "retryable http (ClientFrame ConnClosed) = http"
| "retryable http (ClientReconcile (ReconcileRecv ConnClosed)) = http"
| "retryable http _ = False"

section \<open>Choosing the transport\<close>

text \<open>\<^verbatim>\<open>str.lower\<close> on the characters up to 255 and \<^verbatim>\<open>k in msg\<close>.\<close>

definition lower_char :: "char \<Rightarrow> char" where
  "lower_char c =
     (let n = of_char c :: nat
      in if 65 \<le> n \<and> n \<le> 90 \<or> 192 \<le> n \<and> n \<le> 222 \<and> n \<noteq> 215 then char_of (n + 32) else c)"

definition contains :: "string \<Rightarrow> string \<Rightarrow> bool" where
  "contains k s \<longleftrightarrow> list_ex (\<lambda>n. starts_with k (drop n s)) [0..<Suc (length s)]"

fun is_upgrade_refusal :: "connection_lost \<Rightarrow> bool" where
  "is_upgrade_refusal (ConnectionLost text) =
     list_ex (\<lambda>k. contains k (map lower_char text)) [''403'', ''407'', ''invalid status code'', ''upgrade'']"

text \<open>\<open>http\<close> is what \<^verbatim>\<open>HttpSseClientConn.from_handshake\<close> returns or raises.\<close>

definition has_http_url :: "ChiraliteClient \<Rightarrow> bool" where
  "has_http_url cl \<longleftrightarrow> (case cl_http_base_url cl of None \<Rightarrow> False | Some u \<Rightarrow> u \<noteq> [])"

definition connect_http :: "ChiraliteClient \<Rightarrow> client_exc + conn \<Rightarrow> client_exc + conn" where
  "connect_http cl http =
     (if has_http_url cl then http else Inl (ClientLost (ConnectionLost ''HTTP SSE fallback not configured'')))"

definition connect_transport :: "ChiraliteClient \<Rightarrow> (nat \<Rightarrow> string + conn) \<Rightarrow> (nat \<Rightarrow> int) \<Rightarrow> client_exc + conn
    \<Rightarrow> ((client_exc + conn) \<times> ChiraliteClient) option" where
  "connect_transport cl outcome noise http =
     (if cl_http_mode cl then Some (connect_http cl http, cl)
      else case connect_with_retry (WebSocketClient_new (cl_url cl)) outcome noise of
             None \<Rightarrow> None
           | Some (Inr c, _) \<Rightarrow> Some (Inr c, cl)
           | Some (Inl e, _) \<Rightarrow>
               if has_http_url cl \<and> is_upgrade_refusal e
               then (let cl' = cl\<lparr>cl_http_mode := True\<rparr> in Some (connect_http cl' http, cl'))
               else Some (Inl (ClientLost e), cl))"

section \<open>Sending events\<close>

definition write_event_to_entry :: "WriteEvent \<Rightarrow> FileEntry" where
  "write_event_to_entry e =
     \<lparr>fe_path = we_path e, fe_rapidhash = we_rapidhash e, fe_size = we_size e, fe_mode = we_mode e,
      fe_uid_name = we_uid_name e, fe_gid_name = we_gid_name e, fe_mtime_s = we_mtime_s e,
      fe_mtime_ns = we_mtime_ns e, fe_is_symlink = False, fe_symlink_target = None, fe_is_full = True,
      fe_delta_base_rapidhash = None\<rparr>"

fun event_path :: "SyncEvent \<Rightarrow> string" where
  "event_path (Write e) = we_path e"
| "event_path (Delete p t) = p"
| "event_path (Rename old new t) = old"

record client_env =
  cv_crypto :: crypto
  cv_wire :: wire
  cv_hs :: hs_env
  cv_cert :: certificate
  cv_key :: private_key
  cv_ca :: certificate
  cv_xdelta :: xdelta
  cv_read :: "string \<Rightarrow> bytes option"
  cv_rnd :: bytes
  cv_tid :: uuid
  cv_now_ns :: int

text \<open>The engine's \<open>send_write\<close> on the framed connection: every message is sent, then the answer is read.\<close>

definition framed_transfer :: "client_env \<Rightarrow> FileEntry \<Rightarrow> bytes \<Rightarrow> FramedConnection
    \<Rightarrow> (client_exc + (transfer_error + string)) \<times> FramedConnection" where
  "framed_transfer ev entry content fc =
     (case prepare_payload (cv_xdelta ev) entry content None of
        (wire_entry, payload) \<Rightarrow>
          (case send_all (cv_wire ev) (map (Pair (cv_rnd ev)) (transfer_msgs (cv_tid ev) wire_entry payload)) fc of
             (Inl e, fc1) \<Rightarrow> (Inl (ClientFrame e), fc1)
           | (Inr _, fc1) \<Rightarrow>
               (case framed_recv (cv_wire ev) fc1 of
                  (Inl e, fc2) \<Rightarrow> (Inl (ClientFrame e), fc2)
                | (Inr m, fc2) \<Rightarrow> (Inr (transfer_reply (cv_tid ev) (Inr m)), fc2))))"

text \<open>One message that pydantic validates when it is built.\<close>

definition framed_message :: "client_env \<Rightarrow> AnyMsg \<Rightarrow> FramedConnection \<Rightarrow> (client_exc + unit) \<times> FramedConnection" where
  "framed_message ev m fc =
     (case validate_msg m of
        Inl v \<Rightarrow> (Inl (ClientInvalid v), fc)
      | Inr m' \<Rightarrow>
          (case framed_send (cv_wire ev) (cv_rnd ev) m' fc of
             (Inl e, fc1) \<Rightarrow> (Inl (ClientFrame e), fc1) | (Inr _, fc1) \<Rightarrow> (Inr (), fc1)))"

text \<open>An unreadable file and a refused transfer are logged and passed over.\<close>

definition send_file :: "client_env \<Rightarrow> FileEntry \<Rightarrow> FramedConnection \<Rightarrow> (client_exc + unit) \<times> FramedConnection" where
  "send_file ev entry fc =
     (case cv_read ev (fe_path entry) of
        None \<Rightarrow> (Inr (), fc)
      | Some content \<Rightarrow>
          (case framed_transfer ev entry content fc of
             (Inl e, fc1) \<Rightarrow> (Inl e, fc1) | (Inr _, fc1) \<Rightarrow> (Inr (), fc1)))"

fun dispatch_event :: "client_env \<Rightarrow> SyncEvent \<Rightarrow> FramedConnection \<Rightarrow> (client_exc + unit) \<times> FramedConnection" where
  "dispatch_event ev (Write e) fc =
     (case cv_read ev (we_path e) of
        None \<Rightarrow> (Inr (), fc)
      | Some content \<Rightarrow>
          (case mk_FileEntry (write_event_to_entry e) of
             Inl v \<Rightarrow> (Inl (ClientInvalid v), fc)
           | Inr entry \<Rightarrow>
               (case framed_transfer ev entry content fc of
                  (Inl x, fc1) \<Rightarrow> (Inl x, fc1) | (Inr _, fc1) \<Rightarrow> (Inr (), fc1))))"
| "dispatch_event ev (Delete p t) fc = framed_message ev (FileDeleteMsg p (cv_now_ns ev)) fc"
| "dispatch_event ev (Rename old new t) fc = framed_message ev (FileRenameMsg old new (cv_now_ns ev)) fc"

fun send_entries :: "client_env \<Rightarrow> FileEntry list \<Rightarrow> FramedConnection \<Rightarrow> (client_exc + unit) \<times> FramedConnection" where
  "send_entries ev [] fc = (Inr (), fc)"
| "send_entries ev (x # xs) fc =
     (case send_file ev x fc of (Inl e, fc1) \<Rightarrow> (Inl e, fc1) | (Inr _, fc1) \<Rightarrow> send_entries ev xs fc1)"

text \<open>The loop over the watcher's events, each with the stop flag it sees: \<open>True\<close> when it was stopped,
  \<open>False\<close> when it waits for the next event.\<close>

fun forward_events :: "client_env \<Rightarrow> (bool \<times> SyncEvent) list \<Rightarrow> FramedConnection \<Rightarrow> (client_exc + bool) \<times> FramedConnection" where
  "forward_events ev [] fc = (Inr False, fc)"
| "forward_events ev ((stop, x) # xs) fc =
     (if stop then (Inr True, fc)
      else case dispatch_event ev x fc of
             (Inl e, fc1) \<Rightarrow> (Inl e, fc1) | (Inr _, fc1) \<Rightarrow> forward_events ev xs fc1)"

section \<open>One cycle and the retry loop\<close>

abbreviation client_log :: "audit_event \<Rightarrow> ChiraliteClient \<Rightarrow> ChiraliteClient" where
  "client_log a cl \<equiv> cl\<lparr>cl_audit := cl_audit cl @ [a]\<rparr>"

definition framed_request_sync :: "client_env \<Rightarrow> SiloIndex \<Rightarrow> FramedConnection \<Rightarrow> (client_exc + FileEntry list) \<times> FramedConnection" where
  "framed_request_sync ev ix fc =
     (case framed_send (cv_wire ev) (cv_rnd ev) SyncRequestMsg fc of
        (Inl e, fc1) \<Rightarrow> (Inl (ClientFrame e), fc1)
      | (Inr _, fc1) \<Rightarrow>
          (case framed_recv (cv_wire ev) fc1 of
             (reply, fc2) \<Rightarrow>
               ((case snd (client_request_sync ix reply) of Inl e \<Rightarrow> Inl (ClientReconcile e) | Inr xs \<Rightarrow> Inr xs), fc2)))"

definition watch_and_send :: "client_env \<Rightarrow> SiloClientConfig \<Rightarrow> (bool \<times> SyncEvent) list \<Rightarrow> FramedConnection \<Rightarrow> ChiraliteClient
    \<Rightarrow> (client_exc + bool) \<times> FramedConnection \<times> ChiraliteClient" where
  "watch_and_send ev cfg events fc cl =
     (case framed_request_sync ev (new_SiloIndex (scc_silo_id cfg) ''client'') fc of
        (Inl e, fc1) \<Rightarrow> (Inl e, fc1, cl)
      | (Inr missing, fc1) \<Rightarrow>
          (case send_entries ev missing fc1 of
             (Inl e, fc2) \<Rightarrow> (Inl e, fc2, cl)
           | (Inr _, fc2) \<Rightarrow>
               (case forward_events ev events fc2 of
                  (Inr True, fc3) \<Rightarrow> (Inr True, fc3, client_log (SessionEnd ''(self)'' (scc_silo_id cfg)) cl)
                | (r, fc3) \<Rightarrow> (r, fc3, cl))))"

definition run_silo_once :: "client_env \<Rightarrow> SiloClientConfig \<Rightarrow> conn \<Rightarrow> (bool \<times> SyncEvent) list \<Rightarrow> ChiraliteClient
    \<Rightarrow> (client_exc + bool) \<times> FramedConnection \<times> ChiraliteClient" where
  "run_silo_once ev cfg cn events cl =
     (case perform_client_handshake (cv_crypto ev) (cv_wire ev) (cv_hs ev) (scc_silo_id cfg) (cv_cert ev) (cv_key ev)
             (cv_ca ev) (FramedConnection_new cn) of
        (Inl x, fc1) \<Rightarrow> (Inl (ClientHandshakeExc x), fc1, cl)
      | (Inr _, fc1) \<Rightarrow>
          watch_and_send ev cfg events fc1
            (client_log (SessionStart ''(self)'' (scc_silo_id cfg)) (client_log (AuthOk ''(self)'' (scc_silo_id cfg)) cl)))"

text \<open>\<open>run_silo_with_retry\<close>, from what the successive cycles do, each with the stop flag seen before it.\<close>

datatype cycle = CycleReturned | CycleCancelled | CycleRaised client_exc
datatype task_state = Cycling nat | Ended nat | Died nat client_exc

fun run_silo_with_retry :: "bool \<Rightarrow> nat \<Rightarrow> (bool \<times> cycle) list \<Rightarrow> task_state" where
  "run_silo_with_retry http n [] = Cycling n"
| "run_silo_with_retry http n ((stop, c) # cs) =
     (if stop then Ended n
      else case c of
             CycleReturned \<Rightarrow> run_silo_with_retry http (Suc n) cs
           | CycleCancelled \<Rightarrow> Ended n
           | CycleRaised e \<Rightarrow> if retryable http e then run_silo_with_retry http (Suc n) cs else Died n e)"

section \<open>What the client does\<close>

lemma client_handshake_codec:
  "perform_client_handshake cy w en sid cert key ca fc = (r, fc') \<Longrightarrow> fc_codec fc' = fc_codec fc"
  by (auto simp: perform_client_handshake_def client_accept_def Let_def dest!: recv_plain_codec'
      split: prod.splits sum.splits AnyMsg.splits)

lemma request_sync_inactive:
  "fc_codec fc = None \<Longrightarrow> framed_request_sync ev ix fc = (Inl (ClientFrame NotActivated), fc)"
  by (simp add: framed_request_sync_def framed_send_def)

text \<open>a client that logs in stops syncing.  No code activates the codec of the handshake, so a cycle
  never gets past the handshake: it raises, and when the handshake succeeded it raises an exception
  that the retry loop does not catch; the silo's task is then dead, on either transport, and whatever
  the watcher reports nothing is sent.\<close>

theorem login_kills_the_task:
  assumes "perform_client_handshake (cv_crypto ev) (cv_wire ev) (cv_hs ev) (scc_silo_id cfg) (cv_cert ev) (cv_key ev)
      (cv_ca ev) (FramedConnection_new cn) = (Inr r, fc1)"
  shows "fst (run_silo_once ev cfg cn events cl) = Inl (ClientFrame NotActivated)
    \<and> fst (snd (run_silo_once ev cfg cn events cl)) = fc1
    \<and> run_silo_with_retry http n ((False, CycleRaised (ClientFrame NotActivated)) # cycles)
        = Died n (ClientFrame NotActivated)"
proof -
  have "fc_codec fc1 = None" using client_handshake_codec[OF assms] by (simp add: FramedConnection_new_def)
  with assms show ?thesis by (simp add: run_silo_once_def watch_and_send_def request_sync_inactive)
qed

lemma diff_new_index: "diff (new_SiloIndex sid nid) remote = Inr []"
  by (simp add: diff_def new_SiloIndex_def)

text \<open>the first reconciliation sends nothing.  Every cycle starts from an empty index, so whatever
  state the server reports, the list of files to send is empty: files that changed while the client was
  away, or that the server never had, are not sent until they change again.\<close>

theorem initial_sync_sends_nothing:
  "framed_request_sync ev (new_SiloIndex sid nid) fc = (Inr missing, fc') \<Longrightarrow> missing = []"
  by (auto simp: framed_request_sync_def client_request_sync_def diff_new_index
      split: prod.splits sum.splits AnyMsg.splits)

text \<open>the HTTP fallback is never taken.  The WebSocket client is built without a limit on its retries,
  so connecting returns a WebSocket connection or does not return: from a client in WebSocket mode,
  whatever the attempts raise, no transport error is ever seen and the mode never changes.\<close>

theorem http_fallback_unreachable:
  assumes "\<not> cl_http_mode cl" and "connect_transport cl outcome noise http = Some (r, cl')"
  shows "cl' = cl \<and> (\<exists>k c. r = Inr c \<and> outcome k = Inr c)"
proof -
  let ?w = "WebSocketClient_new (cl_url cl)"
  obtain x waits where x: "connect_with_retry ?w outcome noise = Some (x, waits)"
    using assms by (auto simp: connect_transport_def split: option.splits)
  have "wsc_max_retries ?w = None" by (simp add: WebSocketClient_new_def)
  with retry_loop_unlimited[OF x[unfolded connect_with_retry_def]]
  obtain k c where "x = Inr c" "outcome k = Inr c" by auto
  with assms x show ?thesis by (auto simp: connect_transport_def)
qed

section \<open>From the watcher to the wire\<close>

lemma stat_mode_bounds: "0 \<le> stat_mode m" "stat_mode m \<le> 4095"
  using AND_upper2[of 4095 m] by (simp_all add: stat_mode_def)

text \<open>what the watcher reports can be sent.  For a changed file with a safe relative path, a hash in
  range and named owners, the entry built from the watcher's event passes every check of the wire
  format; it is sent in full, under the path of the file, and when the hash function is the watcher's,
  the hash committed at the end is that of the content.\<close>

theorem watched_write_is_sendable:
  assumes "on_flush wd rel OpWrite = Write e" and "wd_read wd rel = Some content" and "wd_stat wd rel = Some st"
    and "safe_path rel" and "0 \<le> wd_rapidhash wd content" "wd_rapidhash wd content \<le> UINT64_MAX" and "0 \<le> st_size st"
    and "we_uid_name e \<noteq> []" "NUL \<notin> set (we_uid_name e)" "we_gid_name e \<noteq> []" "NUL \<notin> set (we_gid_name e)"
  shows "\<exists>entry. mk_FileEntry (write_event_to_entry e) = Inr entry \<and> fe_path entry = rel
    \<and> prepare_payload xd entry content None = (entry, content)
    \<and> last (transfer_msgs tid entry content) = TransferCommitMsg tid (wd_rapidhash wd content)"
proof -
  let ?entry = "write_event_to_entry e"
  have e: "we_path e = rel" "we_rapidhash e = wd_rapidhash wd content" "we_size e = st_size st"
    "we_mode e = stat_mode (st_mode st)" "we_mtime_ns e = st_mtime_ns st mod 1000000000"
    using assms(1-3) by (auto simp: on_flush_def)
  have m: "0 \<le> st_mtime_ns st mod 1000000000" "st_mtime_ns st mod 1000000000 < 1000000000" by simp_all
  have "FileEntry_errors ?entry = []"
    using assms(4-) stat_mode_bounds[of "st_mode st"] m
    by (simp add: valid_entry_simps write_event_to_entry_def e)
  then show ?thesis
    by (auto simp: mk_FileEntry_def prepare_payload_def write_event_to_entry_def e transfer_msgs_def Let_def)
qed

section \<open>Examples\<close>

definition demo_client_env :: "wire \<Rightarrow> client_env" where
  "demo_client_env w =
     \<lparr>cv_crypto = demo_crypto, cv_wire = w, cv_hs = pt_env demo_client, cv_cert = pt_cert demo_client,
      cv_key = pt_key demo_client, cv_ca = demo_ca, cv_xdelta = demo_xdelta, cv_read = \<lambda>_. None,
      cv_rnd = replicate 12 0, cv_tid = 3, cv_now_ns = 5\<rparr>"

definition demo_silo :: SiloClientConfig where
  "demo_silo = \<lparr>scc_silo_id = 7, scc_local_path = [''s''], scc_blacklist = []\<rparr>"

definition demo_ws_client :: ChiraliteClient where
  "demo_ws_client = \<lparr>cl_url = ''wss://h'', cl_http_base_url = Some ''https://h'', cl_http_mode = False, cl_audit = []\<rparr>"

abbreviation demo_link :: wire where "demo_link \<equiv> demo_wire (replicate 32 1) (replicate 32 2)"

theorem login_kills_the_task_witness:
  "fst (run_silo_once (demo_client_env demo_link) demo_silo
      \<lparr>cn_inbox = map (wr_dump demo_link) [challenge_of demo_crypto demo_peer,
          accept_of demo_crypto demo_client demo_peer (replicate 32 2) 7], cn_sent = []\<rparr>
      [(False, Delete ''a'' 1)] demo_ws_client) = Inl (ClientFrame NotActivated)"
proof -
  let ?ev = "demo_client_env demo_link"
  have r: "perform_client_handshake (cv_crypto ?ev) (cv_wire ?ev) (cv_hs ?ev) (scc_silo_id demo_silo) (cv_cert ?ev)
      (cv_key ?ev) (cv_ca ?ev) (FramedConnection_new \<lparr>cn_inbox = map (wr_dump demo_link) [challenge_of demo_crypto demo_peer,
          accept_of demo_crypto demo_client demo_peer (replicate 32 2) 7], cn_sent = []\<rparr>)
    = (Inr \<lparr>ch_codec = fresh_codec demo_crypto (shared_key demo_crypto demo_client demo_peer (replicate 32 1) (replicate 32 2))
                         (he_token (pt_env demo_peer)),
           ch_session_token = he_token (pt_env demo_peer), ch_server_cn = pt_cn demo_peer\<rparr>,
      finished demo_link [hello_of demo_crypto demo_client 7, response_of demo_crypto demo_client demo_peer (replicate 32 1)])"
    using demo_client_run by (simp add: demo_client_env_def demo_silo_def waiting_def)
  show ?thesis by (rule login_kills_the_task[OF r, THEN conjunct1])
qed

text \<open>A wire on which every frame is the state of an empty server.\<close>

definition state_wire :: wire where
  "state_wire = \<lparr>wr_dump = \<lambda>_. [5], wr_decode = \<lambda>_. Some (SyncStateMsg 7 ''server'' [])\<rparr>"

definition demo_state_conn :: FramedConnection where
  "demo_state_conn = \<lparr>fc_conn = \<lparr>cn_inbox = [the (frame_of demo_gcm [1, 2] 0 [5])], cn_sent = []\<rparr>,
     fc_codec = Some (SeqCodec demo_codec)\<rparr>"

theorem initial_sync_sends_nothing_witness:
  "fst (framed_request_sync (demo_client_env state_wire) (new_SiloIndex 7 ''client'') demo_state_conn) = Inr []"
proof -
  let ?ev = "demo_client_env state_wire" and ?ix = "new_SiloIndex 7 ''client''" and ?f = "the (frame_of demo_gcm [1, 2] 0 [5])"
  have fr: "frame_of demo_gcm [1, 2] 0 [5] = Some ?f" by (simp add: frame_of_def demo_gcm_def)
  have enc: "PayloadCodec_encrypt demo_codec [5] = (Inr ?f, demo_codec\<lparr>pc_send_seq := Suc 0\<rparr>)"
    using fr by (simp add: PayloadCodec_encrypt_iff demo_codec_def)
  have ok: "aesgcm_ok (pc_aesgcm (demo_codec\<lparr>pc_send_seq := Suc 0\<rparr>))" by (simp add: demo_codec_def demo_gcm_ok)
  have dec: "PayloadCodec_decrypt (demo_codec\<lparr>pc_send_seq := Suc 0\<rparr>) ?f = (Inr [5], demo_codec\<lparr>pc_send_seq := Suc 0, pc_recv_seq := Suc 0\<rparr>)"
    by (rule PayloadCodec_decrypt_iff[OF ok, THEN iffD2]) (use fr in \<open>simp add: demo_codec_def\<close>)
  have "\<exists>missing fc'. framed_request_sync ?ev ?ix demo_state_conn = (Inr missing, fc')"
    by (simp add: framed_request_sync_def framed_send_def framed_recv_def conn_recv_def demo_client_env_def
        demo_state_conn_def state_wire_def enc dec parse_json_def validate_msg_def client_request_sync_def diff_new_index)
  then obtain missing fc' where r: "framed_request_sync ?ev ?ix demo_state_conn = (Inr missing, fc')" by blast
  from initial_sync_sends_nothing[OF r] r show ?thesis by simp
qed

theorem http_fallback_unreachable_witness:
  "fst (the (connect_transport demo_ws_client (\<lambda>n. if n = 0 then Inl ''HTTP 403'' else Inr \<lparr>cn_inbox = [], cn_sent = []\<rparr>)
       (\<lambda>_. 0) (Inl ClientOSError))) = Inr \<lparr>cn_inbox = [], cn_sent = []\<rparr>"
proof -
  let ?o = "\<lambda>n :: nat. if n = 0 then Inl ''HTTP 403'' else Inr \<lparr>cn_inbox = [], cn_sent = []\<rparr> :: string + conn"
  let ?w = "WebSocketClient_new ''wss://h''"
  have "connect_with_retry ?w ?o (\<lambda>_. 0) = Some (Inr \<lparr>cn_inbox = [], cn_sent = []\<rparr>, [10])"
    unfolding connect_with_retry_def
    by (subst retry_loop.simps, subst retry_loop.simps) (simp add: connect_def WebSocketClient_new_def)
  then have c: "connect_transport demo_ws_client ?o (\<lambda>_. 0) (Inl ClientOSError)
      = Some (Inr \<lparr>cn_inbox = [], cn_sent = []\<rparr>, demo_ws_client)"
    by (simp add: connect_transport_def demo_ws_client_def)
  have "\<not> cl_http_mode demo_ws_client" by (simp add: demo_ws_client_def)
  from http_fallback_unreachable[OF this c] c show ?thesis by (auto split: if_splits)
qed

theorem watched_write_is_sendable_witness:
  "\<exists>entry. mk_FileEntry (write_event_to_entry \<lparr>we_path = ''a'', we_rapidhash = 0, we_size = 0, we_mtime_s = 0,
       we_mtime_ns = 0, we_recv_ts_ns = 7, we_mode = 0, we_uid_name = ''0'', we_gid_name = ''0''\<rparr>) = Inr entry
     \<and> fe_path entry = ''a''"
proof -
  let ?e = "\<lparr>we_path = ''a'', we_rapidhash = 0, we_size = 0, we_mtime_s = 0, we_mtime_ns = 0, we_recv_ts_ns = 7,
     we_mode = 0, we_uid_name = ''0'', we_gid_name = ''0''\<rparr>"
  have e: "on_flush demo_world ''a'' OpWrite = Write ?e"
    by (simp add: on_flush_def demo_world_def stat_mode_def show_int_def show_nat.simps[of 0] hex_digit_def)
  have "safe_path ''a''" by (simp add: safe_path_def)
  from watched_write_is_sendable[OF e, of "[]" "\<lparr>st_mtime_ns = 0, st_size = 0, st_uid = 0, st_gid = 0, st_mode = 0\<rparr>", OF _ _ this]
  show ?thesis by (simp add: demo_world_def UINT64_MAX_def) blast
qed

end
