(* ===== verification/Base64.thy ===== *)
theory Base64
  imports Prelude
begin

text \<open>
  Python's \<^verbatim>\<open>base64.b64encode\<close> and \<^verbatim>\<open>base64.b64decode\<close>, which carry binary fields inside JSON messages
  (\<^verbatim>\<open>_decode_wirebytes\<close> of \<^verbatim>\<open>protocol/messages.py\<close>) and frames inside server-sent events.  The decoder is the
  state machine of \<^verbatim>\<open>binascii.a2b_base64\<close>: characters outside the alphabet are skipped, a complete padding
  ends the input, and an incomplete last group is an error.
\<close>

section \<open>The alphabet\<close>

definition b64_alphabet :: string where
  "b64_alphabet = ''ABCDEFGHIJKLMNOPQRSTUVWXYZabcdefghijklmnopqrstuvwxyz0123456789+/''"

definition b64_char :: "nat \<Rightarrow> char" where
  "b64_char n = b64_alphabet ! n"

definition b64_index :: "char \<Rightarrow> nat option" where
  "b64_index c = (let n = length (takeWhile (\<lambda>x. x \<noteq> c) b64_alphabet) in if n < 64 then Some n else None)"

lemma b64_table:
  "list_all (\<lambda>n. b64_index (b64_char n) = Some n \<and> b64_char n \<noteq> CHR ''='' \<and> \<not> is_py_space (b64_char n)) [0..<64]"
  by code_simp

lemma b64_index_char: "n < 64 \<Longrightarrow> b64_index (b64_char n) = Some n"
  and b64_char_not_pad: "n < 64 \<Longrightarrow> b64_char n \<noteq> CHR ''=''"
  and b64_char_not_space: "n < 64 \<Longrightarrow> \<not> is_py_space (b64_char n)"
  using b64_table by (simp_all add: list_all_iff)

section \<open>Encoding and decoding\<close>

fun b64encode :: "bytes \<Rightarrow> string" where
  "b64encode [] = []"
| "b64encode [a] = [b64_char (unat a div 4), b64_char (unat a mod 4 * 16), CHR ''='', CHR ''='']"
| "b64encode [a, b] =
     [b64_char (unat a div 4), b64_char (unat a mod 4 * 16 + unat b div 16), b64_char (unat b mod 16 * 4), CHR ''='']"
| "b64encode (a # b # c # rest) =
     [b64_char (unat a div 4), b64_char (unat a mod 4 * 16 + unat b div 16),
      b64_char (unat b mod 16 * 4 + unat c div 64), b64_char (unat c mod 64)] @ b64encode rest"

text \<open>Position in the group of four, the bits left over and the padding seen so far.\<close>

fun a2b :: "nat \<Rightarrow> nat \<Rightarrow> nat \<Rightarrow> string \<Rightarrow> bytes option" where
  "a2b quad left pads [] = (if quad = 0 then Some [] else None)"
| "a2b quad left pads (ch # s) =
     (if ch = CHR ''='' then
        (if quad \<ge> 2 \<and> quad + Suc pads \<ge> 4 then Some []
         else a2b quad left (if quad \<ge> 2 then Suc pads else pads) s)
      else case b64_index ch of
             None \<Rightarrow> a2b quad left pads s
           | Some v \<Rightarrow>
               if quad = 0 then a2b 1 v 0 s
               else if quad = 1 then map_option ((#) (word_of_nat (left * 4 + v div 16))) (a2b 2 (v mod 16) 0 s)
               else if quad = 2 then map_option ((#) (word_of_nat (left * 16 + v div 4))) (a2b 3 (v mod 4) 0 s)
               else map_option ((#) (word_of_nat (left * 64 + v))) (a2b 0 0 0 s))"

definition b64decode :: "string \<Rightarrow> bytes option" where
  "b64decode s = a2b 0 0 0 s"

section \<open>The round trip\<close>

lemma unpack: "y < k \<Longrightarrow> (x * k + y) div k = x" "y < k \<Longrightarrow> (x * k + y) mod k = (y :: nat)"
  by auto

lemma sextets:
  fixes a b c :: nat
  assumes "a < 256" "b < 256" "c < 256"
  shows "a div 4 < 64" "a mod 4 * 16 + b div 16 < 64" "b mod 16 * 4 + c div 64 < 64" "c mod 64 < 64"
    "a mod 4 * 16 < 64" "b mod 16 * 4 < 64"
proof -
  have "a mod 4 < 4" "b div 16 < 16" "b mod 16 < 16" "c div 64 < 4" "a div 4 < 64" "c mod 64 < 64" using assms by auto
  then show "a div 4 < 64" "a mod 4 * 16 + b div 16 < 64" "b mod 16 * 4 + c div 64 < 64" "c mod 64 < 64"
    "a mod 4 * 16 < 64" "b mod 16 * 4 < 64" by linarith+
qed

lemma octets:
  fixes a b c :: nat
  assumes "a < 256" "b < 256" "c < 256"
  shows "a div 4 * 4 + (a mod 4 * 16 + b div 16) div 16 = a"
    "(a mod 4 * 16 + b div 16) mod 16 * 16 + (b mod 16 * 4 + c div 64) div 4 = b"
    "(b mod 16 * 4 + c div 64) mod 4 * 64 + c mod 64 = c"
    "(a mod 4 * 16 + b div 16) mod 16 * 16 + b mod 16 * 4 div 4 = b"
proof -
  have "b div 16 < 16" "c div 64 < 4" using assms by auto
  then show "a div 4 * 4 + (a mod 4 * 16 + b div 16) div 16 = a"
    "(a mod 4 * 16 + b div 16) mod 16 * 16 + (b mod 16 * 4 + c div 64) div 4 = b"
    "(b mod 16 * 4 + c div 64) mod 4 * 64 + c mod 64 = c"
    "(a mod 4 * 16 + b div 16) mod 16 * 16 + b mod 16 * 4 div 4 = b"
    unfolding unpack by simp_all
qed

lemma a2b_step:
  "n < 64 \<Longrightarrow> a2b 0 left pads (b64_char n # s) = a2b (Suc 0) n 0 s"
  "n < 64 \<Longrightarrow> a2b (Suc 0) left pads (b64_char n # s) = map_option ((#) (word_of_nat (left * 4 + n div 16))) (a2b 2 (n mod 16) 0 s)"
  "n < 64 \<Longrightarrow> a2b 2 left pads (b64_char n # s) = map_option ((#) (word_of_nat (left * 16 + n div 4))) (a2b 3 (n mod 4) 0 s)"
  "n < 64 \<Longrightarrow> a2b 3 left pads (b64_char n # s) = map_option ((#) (word_of_nat (left * 64 + n))) (a2b 0 0 0 s)"
  by (simp_all add: b64_index_char b64_char_not_pad)

lemma a2b_Nil: "a2b 0 left pads [] = Some []"
  by simp

lemma a2b_pad: "a2b 2 left 0 (CHR ''='' # CHR ''='' # s) = Some []" "a2b 3 left 0 (CHR ''='' # s) = Some []"
  by simp_all

lemma a2b_encode: "a2b 0 left pads (b64encode bs) = Some bs"
proof (induction bs arbitrary: left pads rule: b64encode.induct)
  case (2 a)
  note u = unat_lt2p_byte[of a]
  have "a2b 0 left pads (b64encode [a]) = Some [word_of_nat (unat a div 4 * 4 + unat a mod 4 * 16 div 16)]"
    unfolding b64encode.simps a2b_step(1)[OF sextets(1)[OF u u u]] a2b_step(2)[OF sextets(5)[OF u u u]] a2b_pad by simp
  then show ?case by simp
next
  case (3 a b)
  note u = unat_lt2p_byte[of a] unat_lt2p_byte[of b]
  note x = sextets[OF u u(2)]
  show ?case
    unfolding b64encode.simps a2b_step(1)[OF x(1)] a2b_step(2)[OF x(2)] a2b_step(3)[OF x(6)] a2b_pad
      octets[OF u u(2)] by simp
next
  case (4 a b c rest)
  note u = unat_lt2p_byte[of a] unat_lt2p_byte[of b] unat_lt2p_byte[of c]
  note x = sextets[OF u]
  show ?case
    unfolding b64encode.simps append.simps a2b_step(1)[OF x(1)] a2b_step(2)[OF x(2)] a2b_step(3)[OF x(3)]
      a2b_step(4)[OF x(4)] octets[OF u] 4 by simp
qed simp

lemma b64_roundtrip: "b64decode (b64encode bs) = Some bs"
  by (simp add: b64decode_def a2b_encode)

definition b64_set :: "char set" where
  "b64_set = insert (CHR ''='') (b64_char ` {..<64})"

lemma b64encode_chars: "set (b64encode bs) \<subseteq> b64_set"
proof (induction bs rule: b64encode.induct)
  case (2 a)
  note u = unat_lt2p_byte[of a]
  show ?case using sextets(1,5)[OF u u u] by (auto simp: b64_set_def)
next
  case (3 a b)
  note u = unat_lt2p_byte[of a] unat_lt2p_byte[of b]
  show ?case using sextets(1,2,6)[OF u u(2)] by (auto simp: b64_set_def)
next
  case (4 a b c rest)
  note u = unat_lt2p_byte[of a] unat_lt2p_byte[of b] unat_lt2p_byte[of c]
  show ?case using 4 sextets(1-4)[OF u] by (auto simp: b64_set_def)
qed simp

lemma b64encode_no_space:
  assumes "ch \<in> set (b64encode bs)"
  shows "\<not> is_py_space ch"
proof -
  have "ch \<in> b64_set" using assms b64encode_chars by blast
  moreover have "\<not> is_py_space (CHR ''='')" by (simp add: is_py_space_def is_linebreak_def)
  ultimately show ?thesis using b64_char_not_space by (auto simp: b64_set_def)
qed

end
