(* ===== verification/Hex.thy ===== *)
theory Hex
  imports Json
begin

text \<open>
  \<^verbatim>\<open>bytes.hex\<close> and \<^verbatim>\<open>bytes.fromhex\<close>, as the session tokens of the HTTP transport and the hash objects
  use them.
\<close>

fun bytes_hex :: "bytes \<Rightarrow> string" where
  "bytes_hex [] = []"
| "bytes_hex (b # bs) = hex_digit (unat b div 16) # hex_digit (unat b mod 16) # bytes_hex bs"

text \<open>Pairs of hexadecimal digits, with white space between the pairs.\<close>

fun from_hex :: "string \<Rightarrow> bytes option" where
  "from_hex [] = Some []"
| "from_hex [c] = (if is_py_space c then Some [] else None)"
| "from_hex (c # d # s) =
     (if is_py_space c then from_hex (d # s)
      else case (hex_val c, hex_val d) of
             (Some x, Some y) \<Rightarrow> map_option (\<lambda>bs. word_of_nat (16 * x + y) # bs) (from_hex s)
           | _ \<Rightarrow> None)"

lemma hex_digit_not_space: "n < 16 \<Longrightarrow> \<not> is_py_space (hex_digit n)"
proof -
  have "list_all (\<lambda>n. \<not> is_py_space (hex_digit n)) [0..<16]" by code_simp
  then show "n < 16 \<Longrightarrow> ?thesis" by (simp add: list_all_iff)
qed

lemma from_hex_bytes_hex: "from_hex (bytes_hex bs) = Some bs"
proof (induction bs)
  case (Cons b bs)
  have "unat b div 16 < 16" "unat b mod 16 < 16" using unat_lt2p_byte[of b] by simp_all
  with Cons show ?case by (simp add: hex_val_digit hex_digit_not_space)
qed simp

lemma length_bytes_hex [simp]: "length (bytes_hex bs) = 2 * length bs"
  by (induction bs) simp_all

lemma bytes_hex_digits: "set (bytes_hex bs) \<subseteq> hex_digit ` {..<16}"
proof (induction bs)
  case (Cons b bs)
  have "unat b div 16 < 16" "unat b mod 16 < 16" using unat_lt2p_byte[of b] by simp_all
  with Cons show ?case by simp
qed simp

end
