(* ===== verification/Http_Sse.thy ===== *)
theory Http_Sse
  imports Base64 Hex
begin

text \<open>
  \<^verbatim>\<open>transport/http_sse.py\<close>: the fallback transport.  Client to server are POST requests, server to client
  a stream of server-sent events.  An asyncio queue is a list; reading an empty one waits, which is
  \<open>None\<close>.  The coroutine that serves a connection is a parameter: the frames it has sent as a function
  of the frames it has received.  Timeouts fire exactly when nothing will arrive.
\<close>

section \<open>The in-memory connection\<close>

record conn_pair =
  q_ab :: "bytes list"
  q_ba :: "bytes list"

datatype side = SideA | SideB

definition make_conn_pair :: conn_pair where
  "make_conn_pair = \<lparr>q_ab = [], q_ba = []\<rparr>"

fun inmem_send :: "side \<Rightarrow> bytes \<Rightarrow> conn_pair \<Rightarrow> conn_pair" where
  "inmem_send SideA data cp = cp\<lparr>q_ab := q_ab cp @ [data]\<rparr>"
| "inmem_send SideB data cp = cp\<lparr>q_ba := q_ba cp @ [data]\<rparr>"

fun inmem_recv :: "side \<Rightarrow> conn_pair \<Rightarrow> (bytes \<times> conn_pair) option" where
  "inmem_recv SideA cp = (case q_ba cp of [] \<Rightarrow> None | d # q \<Rightarrow> Some (d, cp\<lparr>q_ba := q\<rparr>))"
| "inmem_recv SideB cp = (case q_ab cp of [] \<Rightarrow> None | d # q \<Rightarrow> Some (d, cp\<lparr>q_ab := q\<rparr>))"

section \<open>The event stream\<close>

abbreviation newline :: char where "newline \<equiv> CHR 0x0A"

definition SSE_RETRY_MS :: nat where
  "SSE_RETRY_MS = 3000"

definition sse_event :: "bytes \<Rightarrow> string" where
  "sse_event frame = ''data: '' @ b64encode frame @ [newline, newline]"

text \<open>\<^verbatim>\<open>handle_events\<close> for a session: what it writes for the frames of the queue.\<close>

definition sse_stream :: "bytes list \<Rightarrow> string" where
  "sse_stream frames = ''retry: '' @ show_nat SSE_RETRY_MS @ [newline, newline] @ concat (map sse_event frames)"

text \<open>\<^verbatim>\<open>_sse_reader\<close>: what it puts into the inbound queue for the lines it reads.  The lines are handed out by
  aiohttp's stream reader, which raises for one that is longer, with its newline, than \<open>limit\<close> (twice its
  read buffer, 128 KiB by default).  An exception ends the reader with an empty entry; the end of the stream
  ends it without.\<close>

fun sse_lines :: "nat \<Rightarrow> string list \<Rightarrow> bytes list" where
  "sse_lines limit [] = []"
| "sse_lines limit (l # ls) =
     (if limit < length l + (if ls = [] then 0 else 1) then [[]]
      else let line = strip l in
      if starts_with ''data:'' line
      then (case b64decode (strip (drop 5 line)) of None \<Rightarrow> [[]] | Some payload \<Rightarrow> payload # sse_lines limit ls)
      else sse_lines limit ls)"

definition sse_reader :: "nat \<Rightarrow> string \<Rightarrow> bytes list" where
  "sse_reader limit body = sse_lines limit (split_on newline body)"

datatype http_lost = NotConnected | SseClosed | PostFailed

record HttpSseClientConn =
  hs_base :: string
  hs_token_hex :: string
  hs_connected :: bool
  hs_inbound :: "bytes list"
  hs_posted :: "bytes list"

definition HttpSseClientConn_new :: "string \<Rightarrow> bytes \<Rightarrow> HttpSseClientConn" where
  "HttpSseClientConn_new base tok =
     \<lparr>hs_base = rev (dropWhile (\<lambda>c. c = CHR ''/'') (rev base)), hs_token_hex = bytes_hex tok, hs_connected = False,
      hs_inbound = [], hs_posted = []\<rparr>"

text \<open>\<open>ok\<close>: the POST succeeds.\<close>

definition http_send :: "bool \<Rightarrow> bytes \<Rightarrow> HttpSseClientConn \<Rightarrow> (http_lost + unit) \<times> HttpSseClientConn" where
  "http_send ok data c =
     (if \<not> hs_connected c then (Inl NotConnected, c)
      else if ok then (Inr (), c\<lparr>hs_posted := hs_posted c @ [data]\<rparr>)
      else (Inl PostFailed, c))"

definition http_recv :: "HttpSseClientConn \<Rightarrow> ((http_lost + bytes) \<times> HttpSseClientConn) option" where
  "http_recv c =
     (case hs_inbound c of
        [] \<Rightarrow> None
      | d # q \<Rightarrow> Some ((if d = [] then Inl SseClosed else Inr d), c\<lparr>hs_inbound := q\<rparr>))"

definition http_close :: "HttpSseClientConn \<Rightarrow> HttpSseClientConn" where
  "http_close c = c\<lparr>hs_connected := False\<rparr>"

text \<open>\<^verbatim>\<open>_drive_handshake\<close> holds side B of the pair.  \<open>other\<close> is what the holder of side A does while this one
  waits; \<open>post1\<close> and \<open>post2\<close> are the answers to the two requests, body and header, \<open>None\<close> when
  \<^verbatim>\<open>raise_for_status\<close> or the request itself raises.\<close>

datatype 'a drive = Waits | Raised | Returned 'a

definition drive_handshake :: "(conn_pair \<Rightarrow> conn_pair) \<Rightarrow> (bytes \<Rightarrow> (bytes \<times> string) option)
    \<Rightarrow> (string \<Rightarrow> bytes \<Rightarrow> (bytes \<times> string) option) \<Rightarrow> conn_pair \<Rightarrow> (bytes \<times> conn_pair) drive" where
  "drive_handshake other post1 post2 cp =
     (case inmem_recv SideB (other cp) of
        None \<Rightarrow> Waits
      | Some (hello_bytes, cp1) \<Rightarrow>
          (case post1 hello_bytes of
             None \<Rightarrow> Raised
           | Some (body, hid) \<Rightarrow>
               (case inmem_recv SideB (other (inmem_send SideB body cp1)) of
                  None \<Rightarrow> Waits
                | Some (response_bytes, cp2) \<Rightarrow>
                    (case post2 hid response_bytes of
                       None \<Rightarrow> Raised
                     | Some (accept_bytes, token_hex) \<Rightarrow>
                         (case from_hex token_hex of
                            None \<Rightarrow> Raised
                          | Some tok \<Rightarrow> Returned (tok, inmem_send SideB accept_bytes cp2))))))"

text \<open>\<^verbatim>\<open>from_handshake\<close> makes the pair and hands side A out only when it returns, so nobody acts on that side
  while \<^verbatim>\<open>_drive_handshake\<close> waits.\<close>

definition from_handshake :: "string \<Rightarrow> (bytes \<Rightarrow> (bytes \<times> string) option) \<Rightarrow> (string \<Rightarrow> bytes \<Rightarrow> (bytes \<times> string) option)
    \<Rightarrow> (HttpSseClientConn \<times> conn_pair) drive" where
  "from_handshake base post1 post2 =
     (case drive_handshake id post1 post2 make_conn_pair of
        Waits \<Rightarrow> Waits
      | Raised \<Rightarrow> Raised
      | Returned (tok, cp) \<Rightarrow> Returned ((HttpSseClientConn_new base tok)\<lparr>hs_connected := True\<rparr>, cp))"

section \<open>The server application\<close>

record PendingHandshake =
  ph_in :: "bytes list"
  ph_taken :: nat
  ph_session_token :: "bytes option"

record ActiveSession =
  as_in :: "bytes list"

record http_app =
  ha_pending :: "(string, PendingHandshake) dict"
  ha_sessions :: "(string, ActiveSession) dict"

datatype http_response = Ok200 bytes | Accepted202 | Stream200 string | Refused403 | NotFound404 | Timeout504

definition pending_out :: "(bytes list \<Rightarrow> bytes list) \<Rightarrow> PendingHandshake \<Rightarrow> bytes list" where
  "pending_out on_connection st = drop (ph_taken st) (on_connection (ph_in st))"

definition handle_hello :: "(bytes list \<Rightarrow> bytes list) \<Rightarrow> string \<Rightarrow> bytes \<Rightarrow> http_app \<Rightarrow> http_response \<times> http_app" where
  "handle_hello on_connection hid body app =
     (let st = \<lparr>ph_in = [body], ph_taken = 0, ph_session_token = None\<rparr> in
      case pending_out on_connection st of
        [] \<Rightarrow> (Timeout504, app\<lparr>ha_pending := dict_del hid (dict_set hid st (ha_pending app))\<rparr>)
      | c # _ \<Rightarrow> (Ok200 c, app\<lparr>ha_pending := dict_set hid (st\<lparr>ph_taken := 1\<rparr>) (ha_pending app)\<rparr>))"

definition handle_response :: "(bytes list \<Rightarrow> bytes list) \<Rightarrow> string \<Rightarrow> bytes \<Rightarrow> http_app \<Rightarrow> http_response \<times> http_app" where
  "handle_response on_connection hid body app =
     (case dict_get (ha_pending app) hid of
        None \<Rightarrow> (NotFound404, app)
      | Some st \<Rightarrow>
          (let app1 = app\<lparr>ha_pending := dict_del hid (ha_pending app)\<rparr>;
               st1 = st\<lparr>ph_in := ph_in st @ [body]\<rparr>
           in case pending_out on_connection st1 of
                [] \<Rightarrow> (Timeout504, app1)
              | accepted # _ \<Rightarrow>
                  (case ph_session_token st1 of
                     None \<Rightarrow> (Refused403, app1)
                   | Some tok \<Rightarrow>
                       (Ok200 accepted, app1\<lparr>ha_sessions := dict_set (bytes_hex tok) \<lparr>as_in = []\<rparr> (ha_sessions app1)\<rparr>))))"

definition handle_msg :: "string \<Rightarrow> bytes \<Rightarrow> http_app \<Rightarrow> http_response \<times> http_app" where
  "handle_msg tok body app =
     (case dict_get (ha_sessions app) tok of
        None \<Rightarrow> (NotFound404, app)
      | Some s \<Rightarrow> (Accepted202, app\<lparr>ha_sessions := dict_set tok (s\<lparr>as_in := as_in s @ [body]\<rparr>) (ha_sessions app)\<rparr>))"

definition handle_events :: "(bytes list \<Rightarrow> bytes list) \<Rightarrow> string \<Rightarrow> http_app \<Rightarrow> http_response \<times> http_app" where
  "handle_events on_connection tok app =
     (case dict_get (ha_sessions app) tok of
        None \<Rightarrow> (NotFound404, app)
      | Some s \<Rightarrow> (Stream200 (sse_stream (on_connection (as_in s))), app))"

datatype http_request = PostHandshake string bytes | PostHandshakeStep string bytes | PostMsg string bytes | GetEvents string

fun handle_request :: "(bytes list \<Rightarrow> bytes list) \<Rightarrow> http_request \<Rightarrow> http_app \<Rightarrow> http_response \<times> http_app" where
  "handle_request h (PostHandshake hid body) app = handle_hello h hid body app"
| "handle_request h (PostHandshakeStep hid body) app = handle_response h hid body app"
| "handle_request h (PostMsg tok body) app = handle_msg tok body app"
| "handle_request h (GetEvents tok) app = handle_events h tok app"

definition build_http_app :: http_app where
  "build_http_app = \<lparr>ha_pending = [], ha_sessions = []\<rparr>"

section \<open>What the stream carries\<close>

lemma dropWhile_none: "\<forall>c \<in> set s. \<not> P c \<Longrightarrow> dropWhile P s = s"
  by (cases s) auto

lemma strip_no_space: "\<forall>c \<in> set s. \<not> is_py_space c \<Longrightarrow> strip s = s"
  by (simp add: strip_def dropWhile_none)

text \<open>One event line is read back as its frame, whatever the frame.\<close>

lemma strip_data_line:
  assumes "\<forall>c \<in> set s. \<not> is_py_space c"
  shows "strip (drop 5 (strip (''data: '' @ s))) = s" and "starts_with ''data:'' (strip (''data: '' @ s))"
proof -
  have sp: "is_py_space (CHR '' '')" and ns: "\<not> is_py_space (CHR ''d'')" "\<not> is_py_space (CHR '':'')"
    by (simp_all add: is_py_space_def is_linebreak_def)
  have "strip (drop 5 (strip (''data: '' @ s))) = s \<and> starts_with ''data:'' (strip (''data: '' @ s))"
  proof (cases s rule: rev_cases)
    case Nil
    then show ?thesis by (simp add: strip_def sp ns starts_with_def)
  next
    case (snoc t c)
    have l: "strip (''data: '' @ s) = ''data: '' @ s"
      using assms by (simp add: strip_def snoc ns)
    have "strip ('' '' @ s) = strip s" by (simp add: strip_def sp)
    then show ?thesis unfolding l using strip_no_space[OF assms] by (simp add: starts_with_def)
  qed
  then show "strip (drop 5 (strip (''data: '' @ s))) = s" "starts_with ''data:'' (strip (''data: '' @ s))" by simp_all
qed

lemma length_b64encode: "length (b64encode f) = 4 * ((length f + 2) div 3)"
  by (induction f rule: b64encode.induct) (simp_all, presburger)

text \<open>The frames whose event line is within the limit.\<close>

definition frame_fits :: "nat \<Rightarrow> bytes \<Rightarrow> bool" where
  "frame_fits limit f \<longleftrightarrow> 7 + 4 * ((length f + 2) div 3) \<le> limit"

lemma sse_lines_data:
  "ls \<noteq> [] \<Longrightarrow> sse_lines limit ((''data: '' @ b64encode f) # ls) = (if frame_fits limit f then f # sse_lines limit ls else [[]])"
  using strip_data_line[of "b64encode f"] b64encode_no_space b64_roundtrip
  by (simp add: Let_def frame_fits_def length_b64encode)

lemma sse_lines_skip:
  "\<not> starts_with ''data:'' (strip l) \<Longrightarrow> length l < limit \<Longrightarrow> sse_lines limit (l # ls) = sse_lines limit ls"
  by simp

lemma newline_not_in_b64: "newline \<notin> set (b64encode f)"
  using b64encode_no_space[of newline f] by (auto simp: is_py_space_def is_linebreak_def)

lemma split_two: "c \<notin> set p \<Longrightarrow> split_on c (p @ c # c # xs) = p # [] # split_on c xs"
  by (simp add: split_on_append)

lemma sse_lines_blank: "0 < limit \<Longrightarrow> sse_lines limit ([] # ls) = sse_lines limit ls"
  by (rule sse_lines_skip) (simp_all add: strip_def starts_with_def)

text \<open>What the reader queues for a list of frames: all of them, or those before the first one too long and then
  the empty entry.\<close>

definition queued :: "nat \<Rightarrow> bytes list \<Rightarrow> bytes list" where
  "queued limit frames =
     takeWhile (frame_fits limit) frames @ (if list_all (frame_fits limit) frames then [] else [[]])"

lemma queued_Cons: "queued limit (f # frames) = (if frame_fits limit f then f # queued limit frames else [[]])"
  by (simp add: queued_def)

lemma queued_all: "list_all (frame_fits limit) frames \<Longrightarrow> queued limit frames = frames"
  by (induction frames) (simp_all add: queued_Cons queued_def)

lemma split_events:
  assumes "0 < limit"
  shows "sse_lines limit (split_on newline (concat (map sse_event frames))) = queued limit frames"
proof (induction frames)
  case Nil
  then show ?case by (simp add: strip_def starts_with_def queued_def)
next
  case (Cons f frames)
  let ?rest = "concat (map sse_event frames)"
  have "newline \<notin> set (''data: '' @ b64encode f)" using newline_not_in_b64 by simp
  from split_two[OF this, of ?rest] have "split_on newline (concat (map sse_event (f # frames)))
      = (''data: '' @ b64encode f) # [] # split_on newline ?rest"
    by (simp add: sse_event_def)
  then show ?case using sse_lines_data[of "[] # split_on newline ?rest" limit f]
    by (simp only: sse_lines_blank[OF assms] Cons queued_Cons list.distinct not_False_eq_True)
qed

lemma sse_reader_stream:
  assumes "12 \<le> limit"
  shows "sse_reader limit (sse_stream frames) = queued limit frames"
proof -
  let ?head = "''retry: '' @ show_nat SSE_RETRY_MS"
  have head: "?head = ''retry: 3000''"
    by (simp add: SSE_RETRY_MS_def show_nat.simps hex_digit_def)
  have "newline \<notin> set ?head" unfolding head by simp
  from split_two[OF this, of "concat (map sse_event frames)"]
  have s: "split_on newline (sse_stream frames) = ?head # [] # split_on newline (concat (map sse_event frames))"
    by (simp add: sse_stream_def)
  have "\<not> starts_with ''data:'' (strip ?head)" "length ?head < limit"
    unfolding head using assms by (simp_all add: strip_def starts_with_def is_py_space_def is_linebreak_def)
  moreover have "0 < limit" using assms by simp
  ultimately show ?thesis unfolding sse_reader_def s by (simp only: sse_lines_skip sse_lines_blank split_events not_False_eq_True)
qed

text \<open>C32: the event stream is lossless for the frames that fit, and ends at the first that does not.  What the
  client's reader queues from the stream the server writes is the list of frames, in order and whatever
  bytes they hold, if the event line of each, whose length is given, is within the limit of the client
  library; otherwise it is the frames before the first longer one, and an empty entry.  Each frame that fits
  and is not empty is what \<open>recv\<close> returns; at one that does not fit the connection counts as closed.  When
  the stream ends by itself nothing more is queued, so a further \<open>recv\<close> waits.\<close>

theorem sse_roundtrip:
  assumes "12 \<le> limit"
  shows "sse_reader limit (sse_stream frames)
      = takeWhile (frame_fits limit) frames @ (if list_all (frame_fits limit) frames then [] else [[]])
   \<and> (hs_inbound c = sse_reader limit (sse_stream (f # frames)) \<and> f \<noteq> []
        \<longrightarrow> http_recv c = (if frame_fits limit f then Some (Inr f, c\<lparr>hs_inbound := sse_reader limit (sse_stream frames)\<rparr>)
                          else Some (Inl SseClosed, c\<lparr>hs_inbound := []\<rparr>)))
   \<and> (hs_inbound c = sse_reader limit (sse_stream []) \<longrightarrow> http_recv c = None)"
  by (simp add: sse_reader_stream[OF assms] http_recv_def queued_Cons flip: queued_def) (simp add: queued_def)

theorem sse_roundtrip_witness:
  "sse_reader 12 (sse_stream [[1, 2], [0], [1, 2, 3, 4], [5]]) = [[1, 2], [0], []]
   \<and> http_recv ((HttpSseClientConn_new ''h'' [])\<lparr>hs_inbound := sse_reader 12 (sse_stream [[1, 2], [0]])\<rparr>)
       = Some (Inr [1, 2], (HttpSseClientConn_new ''h'' [])\<lparr>hs_inbound := sse_reader 12 (sse_stream [[0]])\<rparr>)"
  using sse_roundtrip[of 12 "[[1, 2], [0], [1, 2, 3, 4], [5]]"]
    sse_roundtrip[of 12 "[[0]]" "(HttpSseClientConn_new ''h'' [])\<lparr>hs_inbound := sse_reader 12 (sse_stream [[1, 2], [0]])\<rparr>" "[1, 2]"]
  by (simp add: frame_fits_def)

section \<open>No session is ever opened\<close>

definition http_inv :: "http_app \<Rightarrow> bool" where
  "http_inv app \<longleftrightarrow> ha_sessions app = [] \<and> (\<forall>x \<in> set (ha_pending app). ph_session_token (snd x) = None)"

lemma set_dict_update: "set (dict_set k v d) \<subseteq> insert (k, v) (set d)"
  by (induction d) auto

lemma set_dict_delete: "set (dict_del k d) \<subseteq> set d"
  by (induction d) auto

lemma http_inv_step: "http_inv app \<Longrightarrow> http_inv (snd (handle_request h r app))"
proof (cases r)
  case (PostHandshake hid body)
  assume i: "http_inv app"
  have "ph_session_token (snd x) = None"
    if "x \<in> set (dict_set hid \<lparr>ph_in = [body], ph_taken = n, ph_session_token = None\<rparr> (ha_pending app))" for x n
    using that i set_dict_update[of hid _ "ha_pending app"] by (fastforce simp: http_inv_def)
  with PostHandshake i show ?thesis
    by (auto simp: handle_hello_def http_inv_def Let_def dest: subsetD[OF set_dict_delete] split: list.split)
next
  case (PostHandshakeStep hid body)
  assume i: "http_inv app"
  then have "ph_session_token st = None" if "dict_get (ha_pending app) hid = Some st" for st
    using map_of_SomeD[OF that] by (auto simp: http_inv_def)
  with PostHandshakeStep i show ?thesis
    using set_dict_delete[of hid "ha_pending app"]
    by (auto simp: handle_response_def http_inv_def Let_def split: option.split list.split)
qed (auto simp: handle_msg_def handle_events_def http_inv_def split: option.split)

interpretation http: invariant_machine "\<lambda>r app. snd (handle_request h r app)" http_inv for h
  by unfold_locales (rule http_inv_step)

text \<open>the HTTP transport never opens a session.  Nothing stores the session token of a completed
  handshake, so whatever the connection handler does and whatever requests came before, the second step of a
  handshake is answered by 404, 504 or 403, and every message and every event stream by 404.\<close>

theorem http_never_opens_a_session:
  assumes "app = fold (\<lambda>r app. snd (handle_request h r app)) requests build_http_app"
  shows "fst (handle_response h hid body app) \<in> {NotFound404, Timeout504, Refused403}
    \<and> handle_msg tok body app = (NotFound404, app) \<and> handle_events h tok app = (NotFound404, app)"
proof -
  have i: "http_inv app" unfolding assms by (rule http.run_inv) (simp add: http_inv_def build_http_app_def)
  then have "ph_session_token st = None" if "dict_get (ha_pending app) hid = Some st" for st
    using map_of_SomeD[OF that] by (auto simp: http_inv_def)
  with i show ?thesis
    by (auto simp: handle_response_def handle_msg_def handle_events_def http_inv_def Let_def split: option.split list.split)
qed

theorem http_never_opens_a_session_witness:
  "fst (handle_response (map rev) ''h1'' [3] (fold (\<lambda>r app. snd (handle_request (map rev) r app))
      [PostHandshake ''h1'' [1, 2]] build_http_app)) \<in> {NotFound404, Timeout504, Refused403}"
  using http_never_opens_a_session[OF refl] by blast

section \<open>The client's side of the handshake\<close>

text \<open>Driven beside a coroutine that sends its message as soon as it has what it waits for, the exchange
  passes both messages and both answers on and ends with the token of the server.\<close>

lemma drive_handshake_completes:
  assumes "post1 hello = Some (challenge, hid)" "post2 hid response = Some (accepted, bytes_hex tok)"
    and "other make_conn_pair = \<lparr>q_ab = [hello], q_ba = []\<rparr>"
    and "other \<lparr>q_ab = [], q_ba = [challenge]\<rparr> = \<lparr>q_ab = [response], q_ba = []\<rparr>"
  shows "drive_handshake other post1 post2 make_conn_pair = Returned (tok, \<lparr>q_ab = [], q_ba = [accepted]\<rparr>)"
  using assms by (simp add: drive_handshake_def make_conn_pair_def from_hex_bytes_hex)

text \<open>as \<open>from_handshake\<close> starts the exchange itself, before the coroutine that would send the first
  message has been given its end of the pair, it waits for ever, whatever the server would answer.\<close>

theorem from_handshake_waits: "from_handshake base post1 post2 = Waits"
  by (simp add: from_handshake_def drive_handshake_def make_conn_pair_def)

end
