(* ===== verification/Cli.thy ===== *)
theory Cli
  imports Handshake Audit_Log
begin

text \<open>
  \<^verbatim>\<open>cli.py\<close>: the operator's commands.  A command returns the lines it prints (with the stream they go to),
  how it ends, and the files it leaves.  The \<^verbatim>\<open>cryptography\<close> package's certificate builder and PEM forms are
  the parameter \<open>pki\<close>; \<^verbatim>\<open>repr\<close>, \<^verbatim>\<open>str\<close>, the YAML reader, expanded paths, the clock, fresh keys and serial
  numbers are arguments.  The output directory exists and is writable; the dash of two messages is written as a
  hyphen.
\<close>

section \<open>Certificates as the builder makes them\<close>

text \<open>What is given to \<^verbatim>\<open>CertificateBuilder\<close>; times in microseconds, as for \<open>certificate\<close>.\<close>

record cert_request =
  cr_subject :: "cn_value list"
  cr_issuer :: "cn_value list"
  cr_public_key :: public_key
  cr_serial :: int
  cr_not_before :: int
  cr_not_after :: int
  cr_ca :: bool

record csr =
  cs_subject :: "cn_value list"
  cs_public_key :: public_key

text \<open>\<open>pk_public\<close>: the public half of an Ed25519 key.  \<open>pk_tbs\<close>: the bytes of a certificate that are signed.
  \<open>pk_name_ok\<close>: the values \<^verbatim>\<open>NameAttribute\<close> takes for a common name.\<close>

record pki =
  pk_crypto :: crypto
  pk_public :: "bytes \<Rightarrow> bytes"
  pk_tbs :: "cert_request \<Rightarrow> bytes"
  pk_name_ok :: "string \<Rightarrow> bool"
  pk_dump_key :: "bytes \<Rightarrow> string"
  pk_load_key :: "string \<Rightarrow> private_key option"
  pk_load_csr :: "string \<Rightarrow> csr option"

definition DAY :: int where
  "DAY = 24 * 60 * 60 * 1000000"

text \<open>Certificates hold times in whole seconds.\<close>

definition to_second :: "int \<Rightarrow> int" where
  "to_second t = t div 1000000 * 1000000"

text \<open>The range of \<^verbatim>\<open>datetime\<close>, from year 1 to year 9999; beyond it \<^verbatim>\<open>now + timedelta(days)\<close> raises.\<close>

definition datetime_ok :: "int \<Rightarrow> bool" where
  "datetime_ok t \<longleftrightarrow> -62135596800000000 \<le> t \<and> t \<le> 253402300799999999"

text \<open>\<^verbatim>\<open>not_valid_after\<close> refuses a time before \<^verbatim>\<open>not_valid_before\<close>, and \<^verbatim>\<open>sign\<close> without an algorithm every key
  that is not an Ed25519 key: \<open>None\<close>.\<close>

definition build_cert :: "pki \<Rightarrow> private_key \<Rightarrow> cert_request \<Rightarrow> certificate option" where
  "build_cert pk key r0 =
     (let r = r0\<lparr>cr_not_before := to_second (cr_not_before r0), cr_not_after := to_second (cr_not_after r0)\<rparr> in
      if \<not> datetime_ok (cr_not_after r0) \<or> cr_not_after r0 < cr_not_before r0 then None
      else case key of
             Ed25519Private k \<Rightarrow>
               Some \<lparr>ce_common_names = cr_subject r, ce_not_before = cr_not_before r, ce_not_after = cr_not_after r,
                     ce_public_key = cr_public_key r, ce_signature = cy_ed_sign (pk_crypto pk) k (pk_tbs pk r),
                     ce_tbs = pk_tbs pk r, ce_hash = None\<rparr>
           | _ \<Rightarrow> None)"

section \<open>Files and output\<close>

record stored_file =
  sf_text :: string
  sf_mode :: int

type_synonym files = "(string, stored_file) dict"

text \<open>\<^verbatim>\<open>write_bytes\<close> keeps the mode of a file that exists and gives a new one the mode \<open>um\<close>.\<close>

definition write_text :: "int \<Rightarrow> string \<Rightarrow> string \<Rightarrow> files \<Rightarrow> files" where
  "write_text um path text fs =
     dict_set path \<lparr>sf_text = text, sf_mode = (case dict_get fs path of None \<Rightarrow> um | Some f \<Rightarrow> sf_mode f)\<rparr> fs"

definition write_private_key :: "pki \<Rightarrow> int \<Rightarrow> string \<Rightarrow> bytes \<Rightarrow> files \<Rightarrow> files" where
  "write_private_key pk um path key fs =
     (let fs1 = write_text um path (pk_dump_key pk key) fs
      in dict_set path \<lparr>sf_text = pk_dump_key pk key, sf_mode = 0x180\<rparr> fs1)"

definition write_cert :: "pki \<Rightarrow> int \<Rightarrow> string \<Rightarrow> certificate \<Rightarrow> files \<Rightarrow> files" where
  "write_cert pk um path cert fs = write_text um path (cy_dump_pem (pk_crypto pk) cert) fs"

datatype echo = Out string | Err string

text \<open>\<open>Crashed\<close>: an exception reaches the top.  \<open>Runs\<close>: until it is interrupted.\<close>

datatype ending = Returned_ok | Exit int | Crashed | Runs

section \<open>keygen\<close>

definition ca_name :: "cn_value list" where
  "ca_name = [CnText ''chiralite-ca'']"

definition keygen_request :: "pki \<Rightarrow> string \<Rightarrow> bytes \<Rightarrow> bytes \<Rightarrow> int \<Rightarrow> int \<Rightarrow> int \<Rightarrow> int \<Rightarrow> cert_request \<times> cert_request" where
  "keygen_request pk cn ca_key client_key ser1 ser2 now days =
     (\<lparr>cr_subject = ca_name, cr_issuer = ca_name, cr_public_key = Ed25519Public (pk_public pk ca_key), cr_serial = ser1,
       cr_not_before = now, cr_not_after = now + 3650 * DAY, cr_ca = True\<rparr>,
      \<lparr>cr_subject = [CnText cn], cr_issuer = ca_name, cr_public_key = Ed25519Public (pk_public pk client_key),
       cr_serial = ser2, cr_not_before = now, cr_not_after = now + days * DAY, cr_ca = False\<rparr>)"

definition keygen :: "pki \<Rightarrow> (string \<Rightarrow> string) \<Rightarrow> int \<Rightarrow> string \<Rightarrow> string \<Rightarrow> int \<Rightarrow> int \<Rightarrow> bytes \<Rightarrow> bytes \<Rightarrow> int \<Rightarrow> int \<Rightarrow> files
    \<Rightarrow> echo list \<times> ending \<times> files" where
  "keygen pk py_repr um out cn days now ca_key client_key ser1 ser2 fs =
     (case keygen_request pk cn ca_key client_key ser1 ser2 now days of (ca_req, client_req) \<Rightarrow>
      case build_cert pk (Ed25519Private ca_key) ca_req of
        None \<Rightarrow> ([], Crashed, fs)
      | Some ca_cert \<Rightarrow>
          (let fs1 = write_cert pk um (out @ ''/ca.crt'') ca_cert (write_private_key pk um (out @ ''/ca.key'') ca_key fs) in
           if \<not> pk_name_ok pk cn then ([], Crashed, fs1)
           else case build_cert pk (Ed25519Private ca_key) client_req of
                  None \<Rightarrow> ([], Crashed, fs1)
                | Some client_cert \<Rightarrow>
                    ([Out (''CA key:      '' @ out @ ''/ca.key''), Out (''CA cert:     '' @ out @ ''/ca.crt''),
                      Out (''Client key:  '' @ out @ ''/client.key''), Out (''Client cert: '' @ out @ ''/client.crt''),
                      Out (''CN: '' @ py_repr cn @ ''  validity: '' @ show_int days @ '' days'')],
                     Returned_ok,
                     write_cert pk um (out @ ''/client.crt'') client_cert
                       (write_private_key pk um (out @ ''/client.key'') client_key fs1))))"

section \<open>sign\<close>

text \<open>\<^verbatim>\<open>Path.with_suffix\<close> on the last component: a dot at its beginning or end starts no suffix.\<close>

definition drop_suffix :: "string \<Rightarrow> string" where
  "drop_suffix name =
     (let ext = rev (takeWhile (\<lambda>c. c \<noteq> CHR ''.'') (rev name)); i = length name - length ext - 1
      in if CHR ''.'' \<in> set name \<and> ext \<noteq> [] \<and> 0 < i then take i name else name)"

definition with_suffix :: "string \<Rightarrow> string \<Rightarrow> string" where
  "with_suffix path ext =
     (let parts = split_on slash path
      in join_on [slash] (butlast parts @ [drop_suffix (last parts) @ ext]))"

fun first_missing :: "files \<Rightarrow> string list \<Rightarrow> string option" where
  "first_missing fs [] = None"
| "first_missing fs (p # ps) = (case dict_get fs p of None \<Rightarrow> Some p | Some _ \<Rightarrow> first_missing fs ps)"

abbreviation text_of :: "files \<Rightarrow> string \<Rightarrow> string" where
  "text_of fs p \<equiv> (case dict_get fs p of None \<Rightarrow> [] | Some f \<Rightarrow> sf_text f)"

text \<open>\<open>exc\<close>: the text of the exception that is printed.\<close>

definition sign :: "pki \<Rightarrow> (cn_value \<Rightarrow> string) \<Rightarrow> string \<Rightarrow> int \<Rightarrow> string \<Rightarrow> string \<Rightarrow> string \<Rightarrow> int \<Rightarrow> string option \<Rightarrow> int \<Rightarrow> int
    \<Rightarrow> files \<Rightarrow> echo list \<times> ending \<times> files" where
  "sign pk py_repr exc um csr_path ca_key_path ca_cert_path days out now ser fs =
     (case first_missing fs [csr_path, ca_key_path, ca_cert_path] of
        Some p \<Rightarrow> ([Err (''Error: file not found: '' @ p)], Exit 1, fs)
      | None \<Rightarrow>
          (case (pk_load_csr pk (text_of fs csr_path), pk_load_key pk (text_of fs ca_key_path),
                 cy_load_pem (pk_crypto pk) (text_of fs ca_cert_path)) of
             (Some req, Some ca_key, Some ca_cert) \<Rightarrow>
               (case build_cert pk ca_key
                       \<lparr>cr_subject = cs_subject req, cr_issuer = ce_common_names ca_cert, cr_public_key = cs_public_key req,
                        cr_serial = ser, cr_not_before = now, cr_not_after = now + days * DAY, cr_ca = False\<rparr> of
                  None \<Rightarrow> ([Err (''Error signing CSR: '' @ exc)], Exit 1, fs)
                | Some cert \<Rightarrow>
                    (let dest = (case out of Some p \<Rightarrow> p | None \<Rightarrow> with_suffix csr_path ''.crt'') in
                     (Out (''Signed certificate written to: '' @ dest)
                        # (case cs_subject req of
                             [] \<Rightarrow> []
                           | cn # _ \<Rightarrow> [Out (''CN: '' @ py_repr cn @ ''  validity: '' @ show_int days @ '' days'')]),
                      Returned_ok, write_cert pk um dest cert fs)))
           | _ \<Rightarrow> ([Err (''Error loading files: '' @ exc)], Exit 1, fs)))"

section \<open>start, status, inspect, force-sync\<close>

text \<open>\<^verbatim>\<open>_run_daemon\<close> prints a line and sleeps; nothing is started.\<close>

definition run_daemon :: "json \<Rightarrow> string \<Rightarrow> string option \<Rightarrow> echo list \<times> ending" where
  "run_daemon raw_config mode silo_filter = ([Out ''Daemon started. Press Ctrl-C to stop.''], Runs)"

definition start :: "(string \<Rightarrow> json option) \<Rightarrow> (string \<Rightarrow> string) \<Rightarrow> string \<Rightarrow> string option \<Rightarrow> string \<Rightarrow> string \<Rightarrow> files
    \<Rightarrow> echo list \<times> ending" where
  "start yaml py_repr exc silo cfg_path mode fs =
     (case dict_get fs cfg_path of
        None \<Rightarrow> ([Err (''Config file not found: '' @ cfg_path),
                  Err ''Run 'chiralite keygen' first, then create a config file.''], Exit 1)
      | Some f \<Rightarrow>
          (case yaml (sf_text f) of
             None \<Rightarrow> ([Err (''Failed to load config: '' @ exc)], Exit 1)
           | Some raw \<Rightarrow>
               (case run_daemon raw mode silo of
                  (out, e) \<Rightarrow>
                    (Out (''Starting chiralite ('' @ mode @ '' mode)...'')
                       # (case silo of
                            None \<Rightarrow> []
                          | Some s \<Rightarrow> if s = [] then [] else [Out (''Silo filter: '' @ py_repr s)])
                       @ out, e))))"

definition get_or :: "(string \<times> json) list \<Rightarrow> string \<Rightarrow> json \<Rightarrow> json" where
  "get_or d k dflt = (case dict_get d k of None \<Rightarrow> dflt | Some v \<Rightarrow> v)"

fun status_lines :: "(json \<Rightarrow> string) \<Rightarrow> json list \<Rightarrow> echo list \<times> ending" where
  "status_lines py_str [] = ([], Returned_ok)"
| "status_lines py_str (JObj s # silos) =
     (case status_lines py_str silos of
        (out, e) \<Rightarrow>
          (Out (''Silo: '' @ py_str (get_or s ''name'' (JStr ''(unnamed)'')) @ '' ('' @ py_str (get_or s ''id'' (JStr ''?'')) @ '')'')
             # Out (''  Path:  '' @ py_str (get_or s ''local_path'' (get_or s ''server_root'' (JStr ''?''))))
             # Out ''  State: configured'' # out, e))"
| "status_lines py_str (_ # silos) = ([], Crashed)"

text \<open>Anything but a list of mappings fails when its first element is asked for a key.\<close>

definition status :: "(string \<Rightarrow> json option) \<Rightarrow> (json \<Rightarrow> string) \<Rightarrow> string \<Rightarrow> string \<Rightarrow> files \<Rightarrow> echo list \<times> ending" where
  "status yaml py_str exc cfg_path fs =
     (case dict_get fs cfg_path of
        None \<Rightarrow> ([Out ''No configuration found. Run 'chiralite start' first.''], Exit 1)
      | Some f \<Rightarrow>
          (case yaml (sf_text f) of
             None \<Rightarrow> ([Err (''Failed to load config: '' @ exc)], Exit 1)
           | Some (JObj raw) \<Rightarrow>
               (let silos = get_or raw ''silos'' (JList []) in
                if falsy silos then ([Out ''No silos configured.''], Returned_ok)
                else case silos of JList ss \<Rightarrow> status_lines py_str ss | _ \<Rightarrow> ([], Crashed))
           | Some _ \<Rightarrow> ([], Crashed)))"

definition inspect :: "string \<Rightarrow> string \<Rightarrow> string \<Rightarrow> files \<Rightarrow> echo list \<times> ending" where
  "inspect silo path index_dir fs =
     (let state_path = index_dir @ ''/'' @ silo @ ''/index.db'';
          head = [Out (''Silo:  '' @ silo), Out (''Path:  '' @ path)]
      in case dict_get fs state_path of
           None \<Rightarrow> (head @ [Out ''No persisted index found for this silo.'',
                            Out ''Hint: attach to the running daemon or use 'chiralite force-sync'.''], Exit 1)
         | Some _ \<Rightarrow> (head @ [Out (''(Index at '' @ state_path @ '' - live query not yet implemented.)'')], Returned_ok))"

definition force_sync :: "(string \<Rightarrow> string) \<Rightarrow> string \<Rightarrow> echo list \<times> ending" where
  "force_sync py_repr silo =
     ([Out (''Requesting force-sync for silo: '' @ py_repr silo),
       Out ''(Control socket not yet implemented - restart the daemon to resync.)''], Returned_ok)"

section \<open>audit tail\<close>

text \<open>With \<open>follow\<close>, \<open>chunks\<close> are what \<^verbatim>\<open>readline\<close> returns from the end of the file on, empty when there is
  nothing new.\<close>

definition audit_tail_command :: "(json \<Rightarrow> string) \<Rightarrow> string \<Rightarrow> int \<Rightarrow> bool \<Rightarrow> string list \<Rightarrow> files \<Rightarrow> echo list \<times> ending" where
  "audit_tail_command py_str log_path lines follow chunks fs =
     (case dict_get fs log_path of
        None \<Rightarrow> ([Err (''Audit log not found: '' @ log_path)], Exit 1)
      | Some f \<Rightarrow>
          (case audit_tail py_str lines (sf_text f) of
             (out, Some _) \<Rightarrow> (map Out out, Crashed)
           | (out, None) \<Rightarrow>
               if \<not> follow then (map Out out, Returned_ok)
               else (case tail_lines py_str chunks of
                       (streamed, e) \<Rightarrow>
                         (map Out (out @ ''--- streaming (Ctrl-C to stop) ---'' # streamed),
                          if e = None then Runs else Crashed))))"

section \<open>What keygen makes is accepted\<close>

lemma to_second_days: "to_second (now + days * DAY) = to_second now + days * DAY"
proof -
  have "now + days * DAY = now + (days * 86400) * 1000000" by (simp add: DAY_def)
  then have "(now + days * DAY) div 1000000 = now div 1000000 + days * 86400" by (simp only: div_mult_self1)
  then show ?thesis by (simp add: to_second_def DAY_def algebra_simps)
qed

lemma build_cert_fields:
  assumes "build_cert pk (Ed25519Private k) r = Some c"
  shows "ce_common_names c = cr_subject r \<and> ce_not_before c = to_second (cr_not_before r)
    \<and> ce_not_after c = to_second (cr_not_after r) \<and> ce_public_key c = cr_public_key r
    \<and> ce_signature c = cy_ed_sign (pk_crypto pk) k (ce_tbs c)"
  using assms by (auto simp: build_cert_def Let_def split: if_splits)

text \<open>A certificate verifies under the authority whose key built it exactly as long as it is valid.\<close>

lemma build_cert_verifies:
  assumes "build_cert pk (Ed25519Private k) r = Some c" and "ce_public_key ca = Ed25519Public (pk_public pk k)"
    and "\<forall>k d. cy_ed_verify (pk_crypto pk) (pk_public pk k) (cy_ed_sign (pk_crypto pk) k d) d"
  shows "verify_chain (pk_crypto pk) t c ca = Inr () \<longleftrightarrow> to_second (cr_not_before r) \<le> t \<and> t \<le> to_second (cr_not_after r)"
  using build_cert_fields[OF assms(1)] assms(2,3) by (auto simp: verify_chain_def split: sum.split)

text \<open>The PEM form of every certificate that keygen builds reads back as it.\<close>

definition pem_faithful :: "pki \<Rightarrow> private_key \<Rightarrow> cert_request \<Rightarrow> bool" where
  "pem_faithful pk key r =
     (case build_cert pk key r of
        None \<Rightarrow> True
      | Some c \<Rightarrow> cy_load_pem (pk_crypto pk) (cy_dump_pem (pk_crypto pk) c) = Some c)"

lemma keygen_success:
  assumes "keygen pk py_repr um out cn days now ca_key client_key ser1 ser2 fs = (msgs, Returned_ok, fs')"
    and "keygen_request pk cn ca_key client_key ser1 ser2 now days = (ca_req, client_req)"
  obtains ca client where "build_cert pk (Ed25519Private ca_key) ca_req = Some ca"
    "build_cert pk (Ed25519Private ca_key) client_req = Some client"
    "text_of fs' (out @ ''/ca.crt'') = cy_dump_pem (pk_crypto pk) ca"
    "text_of fs' (out @ ''/client.crt'') = cy_dump_pem (pk_crypto pk) client"
    "dict_get fs' (out @ ''/ca.key'') = Some \<lparr>sf_text = pk_dump_key pk ca_key, sf_mode = 0x180\<rparr>"
    "dict_get fs' (out @ ''/client.key'') = Some \<lparr>sf_text = pk_dump_key pk client_key, sf_mode = 0x180\<rparr>"
proof -
  obtain ca where ca: "build_cert pk (Ed25519Private ca_key) ca_req = Some ca"
    using assms by (auto simp: keygen_def split: option.splits)
  obtain client where cl: "build_cert pk (Ed25519Private ca_key) client_req = Some client"
    using assms ca by (auto simp: keygen_def Let_def split: option.splits if_splits)
  have "fs' = write_cert pk um (out @ ''/client.crt'') client
       (write_private_key pk um (out @ ''/client.key'') client_key
         (write_cert pk um (out @ ''/ca.crt'') ca (write_private_key pk um (out @ ''/ca.key'') ca_key fs)))"
    using assms ca cl by (auto simp: keygen_def Let_def split: if_splits)
  then show thesis using that[OF ca cl] by (simp add: write_cert_def write_private_key_def write_text_def Let_def)
qed

text \<open>C29: the identity that \<open>keygen\<close> makes is accepted by the handshake.  When the command returns, the
  certificates on disk load; the client's carries the name asked for and verifies under the authority exactly
  from the second of its creation to the requested number of days later; signatures made with the stored
  client key verify with it; and both key files are readable by their owner only.\<close>

theorem keygen_identity_works:
  assumes "keygen pk py_repr um out cn days now ca_key client_key ser1 ser2 fs = (msgs, Returned_ok, fs')"
    and "keygen_request pk cn ca_key client_key ser1 ser2 now days = (ca_req, client_req)"
    and "\<forall>k d. cy_ed_verify (pk_crypto pk) (pk_public pk k) (cy_ed_sign (pk_crypto pk) k d) d"
    and "pem_faithful pk (Ed25519Private ca_key) ca_req" "pem_faithful pk (Ed25519Private ca_key) client_req"
    and "\<forall>k. pk_load_key pk (pk_dump_key pk k) = Some (Ed25519Private k)"
  shows "\<exists>ca client key f g. load_cert (pk_crypto pk) (text_of fs' (out @ ''/ca.crt'')) = Inr ca
    \<and> load_cert (pk_crypto pk) (text_of fs' (out @ ''/client.crt'')) = Inr client
    \<and> get_cn client = Inr cn
    \<and> (\<forall>t. verify_chain (pk_crypto pk) t client ca = Inr () \<longleftrightarrow> to_second now \<le> t \<and> t \<le> to_second now + days * DAY)
    \<and> dict_get fs' (out @ ''/client.key'') = Some f \<and> dict_get fs' (out @ ''/ca.key'') = Some g
    \<and> sf_mode f = 0x180 \<and> sf_mode g = 0x180
    \<and> pk_load_key pk (sf_text f) = Some key
    \<and> (\<forall>d rnd. \<exists>sg. sign_challenge (pk_crypto pk) rnd d key = Inr sg
          \<and> verify_signature (pk_crypto pk) d sg (ce_public_key client) = Inr ())"
proof -
  obtain ca client where c: "build_cert pk (Ed25519Private ca_key) ca_req = Some ca"
    "build_cert pk (Ed25519Private ca_key) client_req = Some client"
    and f: "text_of fs' (out @ ''/ca.crt'') = cy_dump_pem (pk_crypto pk) ca"
    "text_of fs' (out @ ''/client.crt'') = cy_dump_pem (pk_crypto pk) client"
    "dict_get fs' (out @ ''/ca.key'') = Some \<lparr>sf_text = pk_dump_key pk ca_key, sf_mode = 0x180\<rparr>"
    "dict_get fs' (out @ ''/client.key'') = Some \<lparr>sf_text = pk_dump_key pk client_key, sf_mode = 0x180\<rparr>"
    using keygen_success[OF assms(1,2)] by blast
  have req: "cr_public_key ca_req = Ed25519Public (pk_public pk ca_key)" "cr_subject client_req = [CnText cn]"
    "cr_public_key client_req = Ed25519Public (pk_public pk client_key)"
    "cr_not_before client_req = now" "cr_not_after client_req = now + days * DAY"
    using assms(2) by (auto simp: keygen_request_def)
  have "verify_chain (pk_crypto pk) t client ca = Inr () \<longleftrightarrow> to_second now \<le> t \<and> t \<le> to_second now + days * DAY" for t
    using build_cert_verifies[OF c(2) _ assms(3), of ca t] build_cert_fields[OF c(1)] req by (simp add: to_second_days)
  moreover have "load_cert (pk_crypto pk) (text_of fs' (out @ ''/ca.crt'')) = Inr ca"
    "load_cert (pk_crypto pk) (text_of fs' (out @ ''/client.crt'')) = Inr client"
    unfolding f load_cert_def using assms(4,5) c by (simp_all add: pem_faithful_def)
  moreover have "get_cn client = Inr cn" "ce_public_key client = Ed25519Public (pk_public pk client_key)"
    using build_cert_fields[OF c(2)] req by (simp_all add: get_cn_def)
  ultimately show ?thesis using f(3,4) assms(3,6) by (auto simp: sign_challenge_def verify_signature_def)
qed

text \<open>A toy instance: keys are their own public halves, a signature is the key and the data, the PEM forms
  are a table of the two certificates.\<close>

definition demo_pki_with :: "crypto \<Rightarrow> pki" where
  "demo_pki_with cy =
     \<lparr>pk_crypto = cy, pk_public = id, pk_tbs = \<lambda>r. if cr_ca r then [1] else [2], pk_name_ok = \<lambda>s. s \<noteq> [],
      pk_dump_key = map (\<lambda>b. char_of (unat b)),
      pk_load_key = \<lambda>s. Some (Ed25519Private (map (\<lambda>c. word_of_nat (of_char c)) s)), pk_load_csr = \<lambda>_. None\<rparr>"

abbreviation demo_requests :: "cert_request \<times> cert_request" where
  "demo_requests \<equiv> keygen_request (demo_pki_with demo_crypto) ''bob'' [5] [6] 10 11 1700000000123456 90"

definition demo_pki :: pki where
  "demo_pki = demo_pki_with (demo_crypto
     \<lparr>cy_load_pem := \<lambda>s. build_cert (demo_pki_with demo_crypto) (Ed25519Private [5])
                           (if s = ''A'' then fst demo_requests else snd demo_requests),
      cy_dump_pem := \<lambda>c. if ce_tbs c = [1] then ''A'' else ''B''\<rparr>)"

lemma demo_pki_simps:
  "pk_public demo_pki = id" "pk_tbs demo_pki = (\<lambda>r. if cr_ca r then [1] else [2])" "pk_name_ok demo_pki = (\<lambda>s. s \<noteq> [])"
  "cy_ed_sign (pk_crypto demo_pki) = cy_ed_sign demo_crypto" "cy_ed_verify (pk_crypto demo_pki) = cy_ed_verify demo_crypto"
  "pk_dump_key demo_pki = map (\<lambda>b. char_of (unat b))"
  "pk_load_key demo_pki = (\<lambda>s. Some (Ed25519Private (map (\<lambda>c. word_of_nat (of_char c)) s)))"
  by (simp_all add: demo_pki_def demo_pki_with_def)

lemma build_demo: "build_cert demo_pki = build_cert (demo_pki_with demo_crypto)"
  by (intro ext) (simp add: build_cert_def demo_pki_simps demo_pki_with_def Let_def cong: private_key.case_cong)

lemma demo_signs: "\<forall>k d. cy_ed_verify (pk_crypto demo_pki) (pk_public demo_pki k) (cy_ed_sign (pk_crypto demo_pki) k d) d"
  by (simp add: demo_pki_simps demo_crypto_def)

lemma demo_keys: "\<forall>k. pk_load_key demo_pki (pk_dump_key demo_pki k) = Some (Ed25519Private k)"
  using unat_lt2p_byte by (auto simp: demo_pki_simps comp_def)

lemma demo_pem:
  "pem_faithful demo_pki (Ed25519Private [5]) (fst demo_requests)"
  "pem_faithful demo_pki (Ed25519Private [5]) (snd demo_requests)"
  unfolding pem_faithful_def build_demo
  by (simp_all add: build_cert_def keygen_request_def demo_pki_def demo_pki_with_def Let_def split: option.split)

lemma demo_keygen:
  "\<exists>msgs fs'. keygen demo_pki id 0x1A4 ''d'' ''bob'' 90 1700000000123456 [5] [6] 10 11 [] = (msgs, Returned_ok, fs')"
  by (simp add: keygen_def keygen_request_def build_cert_def datetime_ok_def DAY_def demo_pki_simps)

theorem keygen_identity_works_witness:
  "\<exists>msgs fs' client ca. keygen demo_pki id 0x1A4 ''d'' ''bob'' 90 1700000000123456 [5] [6] 10 11 [] = (msgs, Returned_ok, fs')
    \<and> load_cert (pk_crypto demo_pki) (text_of fs' (''d'' @ ''/client.crt'')) = Inr client \<and> get_cn client = Inr ''bob''
    \<and> verify_chain (pk_crypto demo_pki) 1700000000000000 client ca = Inr ()"
proof -
  obtain msgs fs' where k: "keygen demo_pki id 0x1A4 ''d'' ''bob'' 90 1700000000123456 [5] [6] 10 11 [] = (msgs, Returned_ok, fs')"
    using demo_keygen by blast
  have req: "keygen_request demo_pki ''bob'' [5] [6] 10 11 1700000000123456 90 = (fst demo_requests, snd demo_requests)"
    by (simp add: keygen_request_def demo_pki_simps demo_pki_with_def)
  obtain ca client where c: "load_cert (pk_crypto demo_pki) (text_of fs' (''d'' @ ''/client.crt'')) = Inr client"
    "get_cn client = Inr ''bob''"
    and v: "verify_chain (pk_crypto demo_pki) t client ca = Inr ()
      \<longleftrightarrow> to_second 1700000000123456 \<le> t \<and> t \<le> to_second 1700000000123456 + 90 * DAY" for t
    using keygen_identity_works[OF k req demo_signs demo_pem demo_keys] by blast
  have "verify_chain (pk_crypto demo_pki) 1700000000000000 client ca = Inr ()"
    unfolding v by (simp add: to_second_def DAY_def)
  with k c show ?thesis by blast
qed

section \<open>Failures\<close>

text \<open>A negative number of days ends \<open>keygen\<close> with an exception after it has replaced the authority's key and
  certificate, so the certificates issued before no longer verify and there is no new one.\<close>

theorem keygen_negative_days:
  assumes "days < 0" "datetime_ok (now + 3650 * DAY)"
  shows "\<exists>fs'. keygen pk py_repr um out cn days now ca_key client_key ser1 ser2 fs = ([], Crashed, fs')
    \<and> text_of fs' (out @ ''/ca.key'') = pk_dump_key pk ca_key
    \<and> dict_get fs' (out @ ''/client.crt'') = dict_get fs (out @ ''/client.crt'')"
proof -
  have "days * DAY < 0" "0 \<le> 3650 * DAY" using assms(1) by (simp_all add: DAY_def)
  then show ?thesis using assms(2)
    by (simp add: keygen_def keygen_request_def build_cert_def Let_def write_cert_def write_private_key_def write_text_def)
qed

text \<open>\<open>sign\<close> writes nothing unless it succeeds, and changes only the file it names.\<close>

theorem sign_writes_one_file:
  assumes "sign pk py_repr exc um csr_path ca_key_path ca_cert_path days out now ser fs = (msgs, e, fs')"
  shows "e = Exit 1 \<and> fs' = fs
    \<or> e = Returned_ok \<and> (\<forall>p. p \<noteq> (case out of Some p \<Rightarrow> p | None \<Rightarrow> with_suffix csr_path ''.crt'') \<longrightarrow> dict_get fs' p = dict_get fs p)"
  using assms by (auto simp: sign_def Let_def write_cert_def write_text_def split: option.splits)

end
