(* ===== verification/Tmpfs.thy ===== *)
theory Tmpfs
  imports Jail
begin

text \<open>
  \<^verbatim>\<open>sandbox/tmpfs.py\<close>: the workspace a transfer may use below the sandbox's mount point.  The mount has no
  symbolic links: a file system is a finite table from physical paths to a file's bytes or, for a directory,
  \<open>None\<close>, and \<^verbatim>\<open>..\<close> is resolved by the text.  \<open>stuck\<close> says which files and directories the system refuses to remove.
\<close>

type_synonym tmp_fs = "(path, bytes option) dict"

datatype sandbox_fault = NoMountPoint | WorkspaceExists | CreateFailed | NotEntered | OsFault

record TmpfsWorkspace =
  ws_path :: path
  ws_entered :: bool

text \<open>\<^verbatim>\<open>base / s\<close>, and the path the system calls reach.\<close>

definition join_path :: "path \<Rightarrow> string \<Rightarrow> path" where
  "join_path base s = fold (\<lambda>c p. path_join p c) (path_parts s) base"

definition os_path :: "path \<Rightarrow> path" where
  "os_path p = fold (\<lambda>c acc. if c = ''..'' then butlast acc else acc @ [c]) p []"

definition TmpfsWorkspace_new :: "tmp_fs \<Rightarrow> path \<Rightarrow> string \<Rightarrow> string \<Rightarrow> sandbox_fault + TmpfsWorkspace" where
  "TmpfsWorkspace_new fs mount_point session_id transfer_id =
     (if dict_get fs (os_path mount_point) = None then Inl NoMountPoint
      else Inr \<lparr>ws_path = join_path (join_path mount_point session_id) transfer_id, ws_entered = False\<rparr>)"

text \<open>\<^verbatim>\<open>mkdir(parents=True, exist_ok=False)\<close>.\<close>

fun make_parents :: "tmp_fs \<Rightarrow> path \<Rightarrow> string list \<Rightarrow> tmp_fs option" where
  "make_parents fs acc [] = Some fs"
| "make_parents fs acc (c # cs) =
     (case dict_get fs (acc @ [c]) of
        None \<Rightarrow> make_parents (dict_set (acc @ [c]) None fs) (acc @ [c]) cs
      | Some None \<Rightarrow> make_parents fs (acc @ [c]) cs
      | Some (Some _) \<Rightarrow> None)"

definition ws_enter :: "tmp_fs \<Rightarrow> TmpfsWorkspace \<Rightarrow> sandbox_fault + (TmpfsWorkspace \<times> tmp_fs)" where
  "ws_enter fs ws =
     (let p = os_path (ws_path ws) in
      if dict_get fs p \<noteq> None then Inl WorkspaceExists
      else case make_parents fs [] p of
             None \<Rightarrow> Inl CreateFailed
           | Some fs' \<Rightarrow> Inr (ws\<lparr>ws_entered := True\<rparr>, fs'))"

definition ws_get_path :: "TmpfsWorkspace \<Rightarrow> sandbox_fault + path" where
  "ws_get_path ws = (if ws_entered ws then Inr (ws_path ws) else Inl NotEntered)"

text \<open>\<^verbatim>\<open>write_bytes\<close> needs a directory to write into and raises on a directory.\<close>

definition ws_write :: "TmpfsWorkspace \<Rightarrow> string \<Rightarrow> bytes \<Rightarrow> tmp_fs \<Rightarrow> sandbox_fault + tmp_fs" where
  "ws_write ws name data fs =
     (case ws_get_path ws of
        Inl e \<Rightarrow> Inl e
      | Inr p \<Rightarrow>
          (let dest = os_path (join_path p name) in
           if dict_get fs (butlast dest) \<noteq> Some None \<or> dict_get fs dest = Some None then Inl OsFault
           else Inr (dict_set dest (Some data) fs)))"

definition ws_read :: "TmpfsWorkspace \<Rightarrow> string \<Rightarrow> tmp_fs \<Rightarrow> sandbox_fault + bytes" where
  "ws_read ws name fs =
     (case ws_get_path ws of
        Inl e \<Rightarrow> Inl e
      | Inr p \<Rightarrow> (case dict_get fs (os_path (join_path p name)) of Some (Some d) \<Rightarrow> Inr d | _ \<Rightarrow> Inl OsFault))"

text \<open>\<^verbatim>\<open>shutil.rmtree\<close> with \<^verbatim>\<open>ignore_errors=True\<close>: what cannot be removed stays, and so do the directories above it;
  everything else below the path goes.\<close>

definition rmtree :: "(path \<Rightarrow> bool) \<Rightarrow> path \<Rightarrow> tmp_fs \<Rightarrow> tmp_fs" where
  "rmtree stuck p fs =
     filter (\<lambda>x. \<not> prefix p (fst x) \<or> list_ex (\<lambda>y. prefix (fst x) (fst y) \<and> stuck (fst y)) fs) fs"

definition rmdir :: "(path \<Rightarrow> bool) \<Rightarrow> path \<Rightarrow> tmp_fs \<Rightarrow> tmp_fs" where
  "rmdir stuck p fs =
     (if dict_get fs p = Some None \<and> \<not> stuck p \<and> \<not> list_ex (\<lambda>x. strict_prefix p (fst x)) fs then dict_del p fs else fs)"

definition ws_cleanup :: "(path \<Rightarrow> bool) \<Rightarrow> TmpfsWorkspace \<Rightarrow> tmp_fs \<Rightarrow> tmp_fs" where
  "ws_cleanup stuck ws fs = rmdir stuck (os_path (butlast (ws_path ws))) (rmtree stuck (os_path (ws_path ws)) fs)"

text \<open>The body of a \<^verbatim>\<open>with\<close> statement: writes, until one raises.  The cleanup runs in every case, except when
  entering raises.\<close>

fun run_writes :: "TmpfsWorkspace \<Rightarrow> (string \<times> bytes) list \<Rightarrow> tmp_fs \<Rightarrow> (sandbox_fault + unit) \<times> tmp_fs" where
  "run_writes ws [] fs = (Inr (), fs)"
| "run_writes ws ((name, data) # ops) fs =
     (case ws_write ws name data fs of Inl e \<Rightarrow> (Inl e, fs) | Inr fs' \<Rightarrow> run_writes ws ops fs')"

definition with_workspace :: "(path \<Rightarrow> bool) \<Rightarrow> path \<Rightarrow> string \<Rightarrow> string \<Rightarrow> (string \<times> bytes) list \<Rightarrow> tmp_fs
    \<Rightarrow> (sandbox_fault + unit) \<times> tmp_fs" where
  "with_workspace stuck mount session_id transfer_id ops fs =
     (case TmpfsWorkspace_new fs mount session_id transfer_id of
        Inl e \<Rightarrow> (Inl e, fs)
      | Inr ws \<Rightarrow>
          (case ws_enter fs ws of
             Inl e \<Rightarrow> (Inl e, fs)
           | Inr (ws', fs1) \<Rightarrow> (case run_writes ws' ops fs1 of (r, fs2) \<Rightarrow> (r, ws_cleanup stuck ws' fs2))))"

section \<open>Nothing is left behind\<close>

text \<open>A name that is one path component; directories hold what is below them.\<close>

definition plain_name :: "string \<Rightarrow> bool" where
  "plain_name s \<longleftrightarrow> s \<noteq> [] \<and> s \<noteq> ''.'' \<and> s \<noteq> ''..'' \<and> slash \<notin> set s"

definition tree_ok :: "tmp_fs \<Rightarrow> bool" where
  "tree_ok fs \<longleftrightarrow> dict_ok fs \<and> (\<forall>p c. dict_get fs (p @ [c]) \<noteq> None \<longrightarrow> p = [] \<or> dict_get fs p = Some None)"

lemma join_plain: "plain_name s \<Longrightarrow> join_path p s = p @ [s]"
  by (cases s) (auto simp: plain_name_def join_path_def path_parts_def path_join_def starts_with_def split_on_single)

lemma os_path_plain: "''..'' \<notin> set p \<Longrightarrow> os_path p = p"
proof -
  have "''..'' \<notin> set p \<Longrightarrow> fold (\<lambda>c acc. if c = ''..'' then butlast acc else acc @ [c]) p acc = acc @ p" for acc
    by (induction p arbitrary: acc) auto
  then show "''..'' \<notin> set p \<Longrightarrow> os_path p = p" by (simp add: os_path_def)
qed

text \<open>Nothing is below a path that does not exist.\<close>

lemma tree_ok_below:
  assumes "tree_ok fs" "dict_get fs p = None" "p \<noteq> []"
  shows "dict_get fs (p @ q) = None"
proof (induction q rule: rev_induct)
  case (snoc c q)
  then show ?case using assms(1,3) unfolding tree_ok_def by (metis append_is_Nil_conv append_assoc option.distinct(1))
qed (simp add: assms)

lemma prefix_two: "prefix q (m @ [a, b]) \<Longrightarrow> prefix q m \<or> q = m @ [a] \<or> q = m @ [a, b]"
  using prefix_snoc[of q "m @ [a]" b] prefix_snoc[of q m a] by auto

lemma make_parents_get:
  "make_parents fs acc cs = Some fs' \<Longrightarrow> dict_get fs' p =
     (if dict_get fs p = None \<and> strict_prefix acc p \<and> prefix p (acc @ cs) then Some None else dict_get fs p)"
proof (induction fs acc cs arbitrary: fs' rule: make_parents.induct)
  case (1 fs acc)
  then show ?case by (auto simp: strict_prefix_def dest: prefix_order.antisym)
next
  case (2 fs acc c cs)
  have pre: "strict_prefix acc p \<and> prefix p (acc @ c # cs)
      \<longleftrightarrow> p = acc @ [c] \<or> strict_prefix (acc @ [c]) p \<and> prefix p ((acc @ [c]) @ cs)"
    by (auto simp: strict_prefix_def prefix_def append_eq_append_conv2 Cons_eq_append_conv)
  show ?case using "2.prems" "2.IH"(1)[of fs'] "2.IH"(2)[of None fs'] unfolding pre
    by (auto split: option.splits if_splits)
qed

lemma make_parents_dirs:
  "make_parents fs acc cs = Some fs' \<Longrightarrow> strict_prefix acc p \<Longrightarrow> prefix p (acc @ cs) \<Longrightarrow> dict_get fs' p = Some None"
proof (induction fs acc cs arbitrary: fs' rule: make_parents.induct)
  case (2 fs acc c cs)
  show ?case
  proof (cases "p = acc @ [c]")
    case True
    then show ?thesis using "2.prems"(1) make_parents_get[of _ "acc @ [c]" cs fs' p] by (auto split: option.splits)
  next
    case False
    then have "strict_prefix (acc @ [c]) p" using "2.prems"(2,3)
      by (auto simp: strict_prefix_def prefix_def append_eq_append_conv2 Cons_eq_append_conv)
    then show ?thesis using "2.prems" "2.IH" by (auto split: option.splits)
  qed
qed (auto simp: strict_prefix_def dest: prefix_order.antisym)

lemma run_writes_get:
  assumes "ws_entered ws" "''..'' \<notin> set (ws_path ws)" "\<forall>x \<in> set ops. plain_name (fst x)" "\<not> prefix (ws_path ws) p"
  shows "dict_get (snd (run_writes ws ops fs)) p = dict_get fs p"
  using assms
proof (induction ws ops fs rule: run_writes.induct)
  case (2 ws name data ops fs)
  have "os_path (join_path (ws_path ws) name) = ws_path ws @ [name]"
    using "2.prems" join_plain[of name] os_path_plain[of "ws_path ws @ [name]"] by (auto simp: plain_name_def)
  with 2 show ?case
    by (auto simp: ws_write_def ws_get_path_def Let_def split: sum.split if_splits)
qed simp

lemma rmtree_get:
  "dict_get (rmtree stuck p fs) q =
     (if prefix p q \<and> \<not> (\<exists>r. prefix q r \<and> stuck r \<and> dict_get fs r \<noteq> None) then None else dict_get fs q)"
proof -
  have get: "dict_get (filter (\<lambda>x. P (fst x)) d) q = (if P q then dict_get d q else None)" for P and d :: tmp_fs
    by (induction d) auto
  have ex: "list_ex (\<lambda>y. prefix q (fst y) \<and> stuck (fst y)) fs \<longleftrightarrow> (\<exists>r. prefix q r \<and> stuck r \<and> dict_get fs r \<noteq> None)"
    by (auto simp: list_ex_iff dict_get_None image_iff)
  show ?thesis unfolding rmtree_def get[of "\<lambda>x. \<not> prefix p x \<or> list_ex (\<lambda>y. prefix x (fst y) \<and> stuck (fst y)) fs"] ex by argo
qed

lemma rmdir_get:
  "dict_get (rmdir stuck p fs) q =
     (if q = p \<and> dict_get fs p = Some None \<and> \<not> stuck p \<and> (\<forall>r. strict_prefix p r \<longrightarrow> dict_get fs r = None) then None
      else dict_get fs q)"
proof -
  have "list_ex (\<lambda>x. strict_prefix p (fst x)) fs \<longleftrightarrow> (\<exists>r. strict_prefix p r \<and> dict_get fs r \<noteq> None)"
    by (auto simp: list_ex_iff dict_get_None image_iff)
  then show ?thesis by (auto simp: rmdir_def)
qed

text \<open>C30: a workspace leaves nothing behind and disturbs nothing.  For names that are single components,
  whatever is written and whether or not a write fails, after the \<^verbatim>\<open>with\<close> statement every path below and outside
  the mount point is as before; only an empty directory of the session may be gone.  What may stay, silently, is a file or directory of
  the session that the system refused to remove, and the directories of the session above it.\<close>

theorem workspace_leaves_nothing:
  assumes ok: "tree_ok fs" and names: "plain_name session_id" "plain_name transfer_id" "\<forall>x \<in> set ops. plain_name (fst x)"
    and mount: "''..'' \<notin> set mount" "mount \<noteq> []"
    and run: "with_workspace stuck mount session_id transfer_id ops fs = (r, fs')"
  shows "dict_get fs' p = dict_get fs p
    \<or> p = mount @ [session_id] \<and> dict_get fs' p = None \<and> (\<forall>q. strict_prefix p q \<longrightarrow> dict_get fs q = None)
    \<or> prefix (mount @ [session_id]) p \<and> (\<exists>q. stuck q \<and> prefix p q)"
proof (cases "fs' = fs \<or> prefix (mount @ [session_id]) p \<and> (\<exists>q. stuck q \<and> prefix p q)")
  case False
  let ?S = "mount @ [session_id]"
  let ?W = "mount @ [session_id, transfer_id]"
  let ?ws = "\<lparr>ws_path = ?W, ws_entered = True\<rparr>"
  have dots: "''..'' \<notin> set ?W" "''..'' \<notin> set ?S" using names(1,2) mount(1) by (auto simp: plain_name_def)
  have new: "dict_get fs mount \<noteq> None"
    "TmpfsWorkspace_new fs mount session_id transfer_id = Inr \<lparr>ws_path = ?W, ws_entered = False\<rparr>"
    using False run mount names by (auto simp: with_workspace_def TmpfsWorkspace_new_def join_plain os_path_plain split: if_splits)
  obtain fs1 where en: "make_parents fs [] ?W = Some fs1" "dict_get fs ?W = None"
    "fs' = ws_cleanup stuck ?ws (snd (run_writes ?ws ops fs1))"
    using False run dots unfolding with_workspace_def new(2)
    by (auto simp: ws_enter_def Let_def os_path_plain split: if_splits option.splits prod.splits)
  define fs2 where "fs2 = rmtree stuck ?W (snd (run_writes ?ws ops fs1))"
  have f': "fs' = rmdir stuck ?S fs2" unfolding en(3) ws_cleanup_def fs2_def using dots by (simp add: os_path_plain butlast_append)
  have S: "dict_get fs2 ?S = Some None"
    unfolding fs2_def rmtree_get using make_parents_dirs[OF en(1), of ?S] run_writes_get[of ?ws ops ?S fs1] names(3) dots
    by (auto simp: strict_prefix_def)
  have above: "dict_get fs q \<noteq> None" if "prefix q mount" "q \<noteq> []" for q
    using tree_ok_below[OF ok _ that(2)] new(1) that(1) by (metis prefix_def)
  have fs2: "dict_get fs2 q = dict_get fs q" if "q \<noteq> ?S" "prefix ?S q \<Longrightarrow> \<forall>r. prefix q r \<longrightarrow> \<not> stuck r" for q
  proof (cases "prefix ?W q")
    case True
    moreover have "prefix ?S q" using True by (auto simp: prefix_def)
    ultimately show ?thesis unfolding fs2_def rmtree_get using tree_ok_below[OF ok en(2)] that(2) by (auto simp: prefix_def)
  next
    case F: False
    then have "\<not> (dict_get fs q = None \<and> strict_prefix [] q \<and> prefix q ?W)"
      using above[of q] that(1) prefix_two[of q mount session_id transfer_id] by auto
    then show ?thesis unfolding fs2_def rmtree_get
      using run_writes_get[of ?ws ops q fs1] make_parents_get[OF en(1), of q] names(3) dots F by (simp split: if_splits)
  qed
  show ?thesis
  proof (cases "p = ?S")
    case True
    then have free: "\<forall>r. prefix ?S r \<longrightarrow> \<not> stuck r" using False by auto
    then have fs2': "dict_get fs2 q = dict_get fs q" if "q \<noteq> ?S" for q
      using fs2[OF that] by (meson prefix_order.trans)
    have "dict_get fs ?S = Some None" if "\<exists>q. strict_prefix ?S q \<and> dict_get fs2 q \<noteq> None"
      using that fs2' tree_ok_below[OF ok, of ?S] make_parents_dirs[OF en(1), of ?S] make_parents_get[OF en(1), of ?S]
      by (fastforce simp: strict_prefix_def prefix_def split: if_splits)
    then show ?thesis unfolding f' rmdir_get using S fs2' True free by (auto simp: strict_prefix_def)
  next
    case p: False
    then show ?thesis unfolding f' rmdir_get using fs2[OF p] False by auto
  qed
qed (use run in auto)

text \<open>Two transfers of a session: the first is still there, the second comes and goes.\<close>

definition demo_mount :: tmp_fs where
  "demo_mount = [([''run''], None), ([''run'', ''s''], None), ([''run'', ''s'', ''t1''], None), ([''run'', ''s'', ''t1'', ''f''], Some [1])]"

lemma demo_mount_ok: "tree_ok demo_mount"
  by (auto simp: tree_ok_def demo_mount_def dict_ok_def append_eq_Cons_conv split: if_splits)

theorem workspace_leaves_nothing_witness:
  "dict_get (snd (with_workspace (\<lambda>_. False) [''run''] ''s'' ''t2'' [(''payload'', [7])] demo_mount)) [''run'', ''s'', ''t1'', ''f''] = Some (Some [1])"
proof -
  obtain r fs' where run: "with_workspace (\<lambda>_. False) [''run''] ''s'' ''t2'' [(''payload'', [7])] demo_mount = (r, fs')" by fastforce
  have "dict_get fs' [''run'', ''s'', ''t1'', ''f''] = dict_get demo_mount [''run'', ''s'', ''t1'', ''f'']"
    using workspace_leaves_nothing[OF demo_mount_ok _ _ _ _ _ run, of "[''run'', ''s'', ''t1'', ''f'']"]
    by (simp add: plain_name_def)
  then show ?thesis unfolding run by (simp add: demo_mount_def)
qed

text \<open>Names are not checked: a name that climbs leaves the workspace, and what it wrote is not removed.\<close>

lemma workspace_name_escapes:
  "with_workspace (\<lambda>_. False) [''run''] ''s'' ''t2'' [(''../../x'', [7])] demo_mount = (Inr (), demo_mount @ [([''run'', ''x''], Some [7])])"
  by code_simp

end
