(* ===== verification/Rapidhash.thy ===== *)
theory Rapidhash
  imports Hex "HOL-Library.Monad_Syntax"
begin

text \<open>
  \<^verbatim>\<open>hash.py\<close> and the part of \<^verbatim>\<open>vendor/rapidhash.h\<close> it calls: the 64-bit hash that identifies file
  contents.  A pointer into the buffer is an offset, an integer; reading eight bytes that are not all inside
  the buffer is \<open>None\<close>, so that a result \<open>Some h\<close> means that every read was in bounds.  The
  preprocessor's choices are those of the build script: \<^verbatim>\<open>RAPIDHASH_FAST\<close>, \<^verbatim>\<open>RAPIDHASH_COMPACT\<close> and a
  little-endian machine with 128-bit integers; the portable multiplication and the unrolled loop are
  modelled beside them.
\<close>

unbundle bit_operations_syntax

type_synonym u64 = "64 word"

section \<open>Multiplication and reading\<close>

definition rapid_secret :: "u64 list" where
  "rapid_secret =
     [0x2d358dccaa6c78a5, 0x8bb84b93962eacc9, 0x4b33a62ed433d4a3, 0x4d5a2da51de1aa47,
      0xa0761d6478bd642f, 0xe7037ed1a0b428db, 0x90ed1765281c388c, 0xaaaaaaaaaaaaaaaa]"

definition rapid_mum :: "u64 \<Rightarrow> u64 \<Rightarrow> u64 \<times> u64" where
  "rapid_mum A B =
     (let r = (ucast A :: 128 word) * ucast B
      in (ucast r, ucast (drop_bit 64 r)))"

text \<open>The branch for machines without 128-bit integers.\<close>

definition rapid_mum_portable :: "u64 \<Rightarrow> u64 \<Rightarrow> u64 \<times> u64" where
  "rapid_mum_portable A B =
     (let ha = drop_bit 32 A; hb = drop_bit 32 B; la = take_bit 32 A; lb = take_bit 32 B;
          rh = ha * hb; rm0 = ha * lb; rm1 = hb * la; rl = la * lb;
          t = rl + push_bit 32 rm0; c = (if t < rl then 1 else 0);
          lo = t + push_bit 32 rm1;
          c' = c + (if lo < t then 1 else 0);
          hi = rh + drop_bit 32 rm0 + drop_bit 32 rm1 + c'
      in (lo, hi))"

definition rapid_mix :: "u64 \<Rightarrow> u64 \<Rightarrow> u64" where
  "rapid_mix A B = (case rapid_mum A B of (lo, hi) \<Rightarrow> lo XOR hi)"

definition le_word :: "bytes \<Rightarrow> u64" where
  "le_word bs = word_of_nat (be_nat (rev bs))"

definition rapid_read :: "nat \<Rightarrow> bytes \<Rightarrow> int \<Rightarrow> u64 option" where
  "rapid_read n key p =
     (if 0 \<le> p \<and> p + int n \<le> int (length key) then Some (le_word (take n (drop (nat p) key))) else None)"

abbreviation rapid_read64 :: "bytes \<Rightarrow> int \<Rightarrow> u64 option" where "rapid_read64 \<equiv> rapid_read 8"
abbreviation rapid_read32 :: "bytes \<Rightarrow> int \<Rightarrow> u64 option" where "rapid_read32 \<equiv> rapid_read 4"
abbreviation read_byte :: "bytes \<Rightarrow> int \<Rightarrow> u64 option" where "read_byte \<equiv> rapid_read 1"

section \<open>The hash function\<close>

text \<open>\<^verbatim>\<open>rapid_mix(rapid_read64(p) ^ s, rapid_read64(p + 8) ^ acc)\<close>, the shape of every absorbing line.\<close>

definition absorb :: "bytes \<Rightarrow> int \<Rightarrow> u64 \<Rightarrow> u64 \<Rightarrow> u64 option" where
  "absorb key p s acc = do {
     x \<leftarrow> rapid_read64 key p;
     y \<leftarrow> rapid_read64 key (p + 8);
     Some (rapid_mix (x XOR s) (y XOR acc))
   }"

text \<open>One round over the seven seeds \<^verbatim>\<open>seed\<close>, \<^verbatim>\<open>see1\<close> to \<^verbatim>\<open>see6\<close>, with one secret each.\<close>

fun absorb_lanes :: "bytes \<Rightarrow> int \<Rightarrow> u64 list \<Rightarrow> u64 list \<Rightarrow> u64 list option" where
  "absorb_lanes key p (s # secrets) (acc # lanes) = do {
     acc' \<leftarrow> absorb key p s acc;
     lanes' \<leftarrow> absorb_lanes key (p + 16) secrets lanes;
     Some (acc' # lanes')
   }"
| "absorb_lanes key p _ _ = Some []"

definition rapid_round :: "bytes \<Rightarrow> int \<Rightarrow> u64 list \<Rightarrow> u64 list option" where
  "rapid_round key p lanes = absorb_lanes key p (take 7 rapid_secret) lanes"

text \<open>The loop, at least once and then as long as more than 112 bytes are left: the position, the
  bytes left and the seeds.\<close>

function compact_loop :: "bytes \<Rightarrow> int \<Rightarrow> nat \<Rightarrow> u64 list \<Rightarrow> (int \<times> nat \<times> u64 list) option" where
  "compact_loop key p i lanes = do {
     lanes' \<leftarrow> rapid_round key p lanes;
     if i - 112 > 112 then compact_loop key (p + 112) (i - 112) lanes' else Some (p + 112, i - 112, lanes')
   }"
  by pat_completeness auto
termination
  by (relation "measure (\<lambda>(_, _, i, _). i)") auto

declare compact_loop.simps [simp del]

text \<open>The form of \<^verbatim>\<open>RAPIDHASH_UNROLLED\<close>.\<close>

function unrolled_loop :: "bytes \<Rightarrow> int \<Rightarrow> nat \<Rightarrow> u64 list \<Rightarrow> (int \<times> nat \<times> u64 list) option" where
  "unrolled_loop key p i lanes =
     (if i > 224 then do {
        lanes1 \<leftarrow> rapid_round key p lanes;
        lanes2 \<leftarrow> rapid_round key (p + 112) lanes1;
        unrolled_loop key (p + 224) (i - 224) lanes2
      }
      else if i > 112 then do {
        lanes' \<leftarrow> rapid_round key p lanes;
        Some (p + 112, i - 112, lanes')
      }
      else Some (p, i, lanes))"
  by pat_completeness auto
termination
  by (relation "measure (\<lambda>(_, _, i, _). i)") auto

declare unrolled_loop.simps [simp del]

fun merge_lanes :: "u64 list \<Rightarrow> u64" where
  "merge_lanes [seed, see1, see2, see3, see4, see5, see6] =
     (let seed = seed XOR see1;
          see2 = see2 XOR see3;
          see4 = see4 XOR see5;
          seed = seed XOR see6;
          see2 = see2 XOR see4
      in seed XOR see2)"
| "merge_lanes _ = 0"

text \<open>The nested conditionals for what is left: bound, offset and index of the secret.\<close>

definition tail_plan :: "(nat \<times> int \<times> nat) list" where
  "tail_plan = [(16, 0, 2), (32, 16, 2), (48, 32, 1), (64, 48, 1), (80, 64, 2), (96, 80, 1)]"

fun rapid_tail :: "bytes \<Rightarrow> int \<Rightarrow> nat \<Rightarrow> (nat \<times> int \<times> nat) list \<Rightarrow> u64 \<Rightarrow> u64 option" where
  "rapid_tail key p i [] seed = Some seed"
| "rapid_tail key p i ((bound, off, k) # plan) seed =
     (if i > bound then do {
        seed' \<leftarrow> absorb key (p + off) (rapid_secret ! k) seed;
        rapid_tail key p i plan seed'
      }
      else Some seed)"

text \<open>Up to sixteen bytes: seed, a and b.\<close>

definition rapid_short :: "bytes \<Rightarrow> u64 \<Rightarrow> (u64 \<times> u64 \<times> u64) option" where
  "rapid_short key seed =
     (let len = length key in
      if len \<ge> 4 then
        let seed' = seed XOR word_of_nat len in
        if len \<ge> 8 then do {
          a \<leftarrow> rapid_read64 key 0;
          b \<leftarrow> rapid_read64 key (int len - 8);
          Some (seed', a, b)
        }
        else do {
          a \<leftarrow> rapid_read32 key 0;
          b \<leftarrow> rapid_read32 key (int len - 4);
          Some (seed', a, b)
        }
      else if len > 0 then do {
        x \<leftarrow> read_byte key 0;
        y \<leftarrow> read_byte key (int len - 1);
        b \<leftarrow> read_byte key (int (len div 2));
        Some (seed, push_bit 45 x OR y, b)
      }
      else Some (seed, 0, 0))"

text \<open>More than sixteen: seed, a, b and what is left of the length.\<close>

definition rapid_long :: "bytes \<Rightarrow> u64 \<Rightarrow> (u64 \<times> u64 \<times> u64 \<times> nat) option" where
  "rapid_long key seed = do {
     (p, i, seed1) \<leftarrow>
       (if length key > 112 then do {
          (p, i, lanes) \<leftarrow> compact_loop key 0 (length key) (replicate 7 seed);
          Some (p, i, merge_lanes lanes)
        }
        else Some (0, length key, seed));
     seed2 \<leftarrow> rapid_tail key p i tail_plan seed1;
     a \<leftarrow> rapid_read64 key (p + int i - 16);
     b \<leftarrow> rapid_read64 key (p + int i - 8);
     Some (seed2, a XOR word_of_nat i, b, i)
   }"

definition rapid_finish :: "u64 \<Rightarrow> u64 \<Rightarrow> u64 \<Rightarrow> nat \<Rightarrow> u64" where
  "rapid_finish seed a b i =
     (case rapid_mum (a XOR rapid_secret ! 1) (b XOR seed) of
        (a', b') \<Rightarrow> rapid_mix (a' XOR rapid_secret ! 7) (b' XOR rapid_secret ! 1 XOR word_of_nat i))"

definition rapidhash_withSeed :: "bytes \<Rightarrow> u64 \<Rightarrow> u64 option" where
  "rapidhash_withSeed key seed0 =
     (let seed = seed0 XOR rapid_mix (seed0 XOR rapid_secret ! 2) (rapid_secret ! 1) in
      if length key \<le> 16 then do {
        (seed', a, b) \<leftarrow> rapid_short key seed;
        Some (rapid_finish seed' a b (length key))
      }
      else do {
        (seed', a, b, i) \<leftarrow> rapid_long key seed;
        Some (rapid_finish seed' a b i)
      })"

section \<open>The Python wrapper\<close>

text \<open>\<open>WildRead\<close> stands for a read outside the buffer, which is shown not to happen; \<open>SeedOverflow\<close> is the
  \<^verbatim>\<open>OverflowError\<close> of the conversion to \<^verbatim>\<open>uint64_t\<close>.\<close>

datatype hash_error = SeedOverflow | WildRead

definition rh_call :: "bytes \<Rightarrow> u64 option" where
  "rh_call buf = rapidhash_withSeed buf 0"

definition rapidhash :: "bytes \<Rightarrow> int \<Rightarrow> hash_error + int" where
  "rapidhash buf seed =
     (if seed = 0 then (case rh_call buf of None \<Rightarrow> Inl WildRead | Some h \<Rightarrow> Inr (uint h))
      else if seed < 0 \<or> seed \<ge> 2 ^ 64 then Inl SeedOverflow
      else (case rapidhash_withSeed buf (word_of_int seed) of None \<Rightarrow> Inl WildRead | Some h \<Rightarrow> Inr (uint h)))"

record RapidHash =
  rh_buf :: bytes
  rh_seed :: int

definition new_hash :: "bytes \<Rightarrow> int \<Rightarrow> RapidHash" where
  "new_hash data seed = \<lparr>rh_buf = data, rh_seed = seed\<rparr>"

definition update_hash :: "bytes \<Rightarrow> RapidHash \<Rightarrow> RapidHash" where
  "update_hash data obj = obj\<lparr>rh_buf := rh_buf obj @ data\<rparr>"

definition intdigest :: "RapidHash \<Rightarrow> hash_error + int" where
  "intdigest obj = rapidhash (rh_buf obj) (rh_seed obj)"

text \<open>\<^verbatim>\<open>struct.pack("<Q", h)\<close>.\<close>

definition digest :: "RapidHash \<Rightarrow> hash_error + bytes" where
  "digest obj =
     (case rapidhash (rh_buf obj) (rh_seed obj) of Inl e \<Rightarrow> Inl e | Inr h \<Rightarrow> Inr (rev (be_bytes 8 (nat h))))"

definition hexdigest :: "RapidHash \<Rightarrow> hash_error + string" where
  "hexdigest obj = (case digest obj of Inl e \<Rightarrow> Inl e | Inr d \<Rightarrow> Inr (bytes_hex d))"

definition copy_hash :: "RapidHash \<Rightarrow> RapidHash" where
  "copy_hash obj = (new_hash [] (rh_seed obj))\<lparr>rh_buf := rh_buf obj\<rparr>"

section \<open>Every read is in bounds\<close>

lemma rapid_read_some: "0 \<le> p \<Longrightarrow> p + int n \<le> int (length key) \<Longrightarrow> \<exists>x. rapid_read n key p = Some x"
  by (simp add: rapid_read_def)

lemma absorb_some: "0 \<le> p \<Longrightarrow> p + 16 \<le> int (length key) \<Longrightarrow> \<exists>x. absorb key p s acc = Some x"
  using rapid_read_some[of p 8 key] rapid_read_some[of "p + 8" 8 key] by (auto simp: absorb_def)

lemma absorb_lanes_some:
  "0 \<le> p \<Longrightarrow> length secrets = length lanes \<Longrightarrow> p + 16 * int (length lanes) \<le> int (length key)
    \<Longrightarrow> \<exists>l. absorb_lanes key p secrets lanes = Some l \<and> length l = length lanes"
proof (induction key p secrets lanes rule: absorb_lanes.induct)
  case (1 key p s secrets acc lanes)
  obtain acc' where a: "absorb key p s acc = Some acc'" using absorb_some[of p key s acc] "1.prems" by auto
  then obtain l where "absorb_lanes key (p + 16) secrets lanes = Some l" "length l = length lanes"
    using "1.IH" "1.prems" by auto
  with a show ?case by simp
qed auto

lemma rapid_round_some:
  "0 \<le> p \<Longrightarrow> length lanes = 7 \<Longrightarrow> p + 112 \<le> int (length key) \<Longrightarrow> \<exists>l. rapid_round key p lanes = Some l \<and> length l = 7"
  using absorb_lanes_some[of p "take 7 rapid_secret" lanes key] by (simp add: rapid_round_def rapid_secret_def)

text \<open>The loop stops with between 1 and 112 bytes left, at the position that belongs to them.\<close>

lemma compact_loop_some:
  "0 \<le> p \<Longrightarrow> p + int i = int (length key) \<Longrightarrow> i > 112 \<Longrightarrow> length lanes = 7
    \<Longrightarrow> \<exists>q l. compact_loop key p i lanes = Some (q, (i - 1) mod 112 + 1, l) \<and> 0 \<le> q
          \<and> q + int ((i - 1) mod 112 + 1) = int (length key) \<and> length l = 7"
proof (induction key p i lanes rule: compact_loop.induct)
  case (1 key p i lanes)
  obtain l where l: "rapid_round key p lanes = Some l" "length l = 7"
    using rapid_round_some[of p lanes key] "1.prems" by auto
  have m: "(i - 1) mod 112 = (i - 112 - 1) mod 112"
    using le_mod_geq[of 112 "i - 1"] "1.prems" by (simp add: diff_right_commute)
  show ?case
  proof (cases "i - 112 > 112")
    case True
    have "\<exists>q l'. compact_loop key (p + 112) (i - 112) l = Some (q, (i - 112 - 1) mod 112 + 1, l') \<and> 0 \<le> q
        \<and> q + int ((i - 112 - 1) mod 112 + 1) = int (length key) \<and> length l' = 7"
      using "1.IH"[OF l(1) True] "1.prems" True l by simp
    then show ?thesis unfolding compact_loop.simps[of key p i] using l True m by simp
  next
    case False
    then have "(i - 112 - 1) mod 112 + 1 = i - 112" using "1.prems" by simp
    then show ?thesis unfolding compact_loop.simps[of key p i] using l False m "1.prems" by simp
  qed
qed

lemma rapid_tail_some:
  "0 \<le> p \<Longrightarrow> p + int i \<le> int (length key) \<Longrightarrow> \<forall>(bound, off, k) \<in> set plan. 0 \<le> off \<and> off + 16 \<le> int bound
    \<Longrightarrow> \<exists>x. rapid_tail key p i plan seed = Some x"
proof (induction key p i plan seed rule: rapid_tail.induct)
  case (2 key p i bound off k plan seed)
  show ?case
  proof (cases "i > bound")
    case True
    obtain x where "absorb key (p + off) (rapid_secret ! k) seed = Some x"
      using absorb_some[of "p + off" key "rapid_secret ! k" seed] "2.prems" True by auto
    with "2.IH"[OF True this] "2.prems" True show ?thesis by simp
  qed simp
qed simp

lemma rapid_short_some: "length key \<le> 16 \<Longrightarrow> \<exists>x. rapid_short key seed = Some x"
  by (cases key) (auto simp: rapid_short_def rapid_read_def Let_def)

text \<open>What is left of the length depends on the length only; the last two words are the last sixteen bytes.\<close>

lemma rapid_long_some:
  assumes "length key > 16"
  shows "\<exists>seed'. rapid_long key seed = Some
     (seed', le_word (take 8 (drop (length key - 16) key)) XOR word_of_nat ((length key - 1) mod 112 + 1),
      le_word (take 8 (drop (length key - 8) key)), (length key - 1) mod 112 + 1)"
proof -
  let ?i = "(length key - 1) mod 112 + 1"
  have "\<exists>q l. (if length key > 112 then do { (p, i, lanes) \<leftarrow> compact_loop key 0 (length key) (replicate 7 seed);
                                      Some (p, i, merge_lanes lanes) }
        else Some (0, length key, seed)) = Some (q, ?i, l) \<and> 0 \<le> q \<and> q + int ?i = int (length key)"
    using compact_loop_some[of 0 "length key" key "replicate 7 seed"] assms by fastforce
  then obtain q s where q: "(if length key > 112 then do { (p, i, lanes) \<leftarrow> compact_loop key 0 (length key) (replicate 7 seed);
                                      Some (p, i, merge_lanes lanes) }
        else Some (0, length key, seed)) = Some (q, ?i, s)" "0 \<le> q" "q + int ?i = int (length key)" by blast
  obtain s' where "rapid_tail key q ?i tail_plan s = Some s'"
    using rapid_tail_some[of q ?i key tail_plan s] q by (auto simp: tail_plan_def)
  moreover have "rapid_read64 key (q + int ?i - 16) = Some (le_word (take 8 (drop (length key - 16) key)))"
    "rapid_read64 key (q + int ?i - 8) = Some (le_word (take 8 (drop (length key - 8) key)))"
    using q(3) assms by (simp_all add: rapid_read_def nat_diff_distrib)
  ultimately show ?thesis unfolding rapid_long_def q(1) by simp
qed

lemma rapidhash_withSeed_some: "\<exists>h. rapidhash_withSeed key seed = Some h"
proof -
  let ?seed = "seed XOR rapid_mix (seed XOR rapid_secret ! 2) (rapid_secret ! 1)"
  show ?thesis
  proof (cases "length key \<le> 16")
    case True
    then obtain s a b where "rapid_short key ?seed = Some (s, a, b)" using rapid_short_some by fast
    with True show ?thesis unfolding rapidhash_withSeed_def Let_def by simp
  next
    case False
    then obtain s a b i where "rapid_long key ?seed = Some (s, a, b, i)" using rapid_long_some[of key ?seed] by auto
    with False show ?thesis unfolding rapidhash_withSeed_def Let_def by simp
  qed
qed

lemma rapidhash_result:
  "rapidhash key seed = Inl SeedOverflow \<and> (seed < 0 \<or> 2 ^ 64 \<le> seed)
   \<or> (\<exists>h. rapidhash key seed = Inr h \<and> 0 \<le> h \<and> h < 2 ^ 64 \<and> 0 \<le> seed \<and> seed < 2 ^ 64)"
proof -
  obtain h h' where "rh_call key = Some h" "rapidhash_withSeed key (word_of_int seed) = Some h'"
    using rapidhash_withSeed_some unfolding rh_call_def by blast
  moreover have "uint h < 2 ^ 64" "uint h' < 2 ^ 64" using uint_bounded[of h] uint_bounded[of h'] by simp_all
  ultimately show ?thesis by (simp add: rapidhash_def)
qed

section \<open>The portable multiplication and the unrolled loop\<close>

lemma add_carry:
  "unat x + unat y = unat (x + y) + 2 ^ 64 * (if x + y < x then 1 else 0)" for x y :: u64
proof -
  have b: "unat x < 2 ^ 64" "unat y < 2 ^ 64" using unsigned_less[of x, where ?'a = nat] unsigned_less[of y, where ?'a = nat] by simp_all
  have s: "unat (x + y) = (unat x + unat y) mod 2 ^ 64" by (simp add: unat_word_ariths)
  show ?thesis
  proof (cases "unat x + unat y < 2 ^ 64")
    case True
    then show ?thesis using s by (simp add: word_less_nat_alt)
  next
    case False
    then have "unat (x + y) = unat x + unat y - 2 ^ 64" using s b by (simp add: mod_if)
    then show ?thesis using False b by (simp add: word_less_nat_alt)
  qed
qed

lemma u64_lt: "unat x < 2 ^ 64" for x :: u64
  using unsigned_less[of x, where ?'a = nat] by simp

lemma unat_halves:
  "unat (drop_bit 32 x) = unat x div 2 ^ 32" "unat (take_bit 32 x) = unat x mod 2 ^ 32"
  "unat (push_bit 32 x) = 2 ^ 32 * (unat x mod 2 ^ 32)" for x :: u64
proof -
  have "unat (drop_bit 32 x) = drop_bit 32 (unat x)" by (rule unat_drop_bit_eq)
  then show "unat (drop_bit 32 x) = unat x div 2 ^ 32" by (simp only: drop_bit_eq_div)
  have "unat (take_bit 32 x) = take_bit 32 (unat x)" by (simp only: unsigned_take_bit_eq)
  then show "unat (take_bit 32 x) = unat x mod 2 ^ 32" by (simp only: take_bit_eq_mod)
  have "unat (push_bit 32 x) = take_bit 64 (push_bit 32 (unat x))" by (simp only: unsigned_push_bit_eq) simp
  also have "\<dots> = 2 ^ 32 * unat x mod (2 ^ 32 * 2 ^ 32)" by (simp add: take_bit_eq_mod push_bit_eq_mult mult.commute)
  finally show "unat (push_bit 32 x) = 2 ^ 32 * (unat x mod 2 ^ 32)" by (simp only: mod_mult_mult1)
qed

lemma unat_mul32:
  fixes x y :: u64
  assumes "unat x < 2 ^ 32" "unat y < 2 ^ 32"
  shows "unat (x * y) = unat x * unat y"
proof -
  have "unat x * unat y < 2 ^ 32 * 2 ^ 32" using assms by (intro mult_strict_mono) simp_all
  then show ?thesis by (simp add: unat_word_ariths)
qed

lemma rapid_mum_product:
  assumes "rapid_mum A B = (lo, hi)"
  shows "unat lo + 2 ^ 64 * unat hi = unat A * unat B"
proof -
  let ?r = "(ucast A :: 128 word) * ucast B"
  have "unat A * unat B < 2 ^ 64 * 2 ^ 64" using u64_lt[of A] u64_lt[of B] by (intro mult_strict_mono) simp_all
  moreover have "unat (ucast A :: 128 word) = unat A" "unat (ucast B :: 128 word) = unat B"
    using u64_lt[of A] u64_lt[of B] by (simp_all add: unsigned_ucast_eq take_bit_eq_mod)
  ultimately have r: "unat ?r = unat A * unat B" by (simp add: unat_word_ariths)
  have "unat ?r div 2 ^ 64 < 2 ^ 64" using unsigned_less[of ?r, where ?'a = nat] by (simp add: div_less_iff_less_mult)
  moreover have d: "unat (drop_bit 64 ?r) = unat ?r div 2 ^ 64"
    using unat_drop_bit_eq[of 64 ?r] unfolding drop_bit_eq_div[of 64 "unat ?r"] .
  have lo: "lo = ucast ?r" and hi: "hi = ucast (drop_bit 64 ?r)" using assms by (simp_all add: rapid_mum_def Let_def)
  moreover have "unat lo = unat ?r mod 2 ^ 64" unfolding lo by (simp add: unsigned_ucast_eq take_bit_eq_mod)
  moreover have "unat hi = unat ?r div 2 ^ 64 mod 2 ^ 64" unfolding hi d[symmetric]
    by (simp add: unsigned_ucast_eq take_bit_eq_mod)
  ultimately show ?thesis by (simp add: r)
qed

text \<open>A product determines its two halves.\<close>

lemma halves_unique:
  fixes lo hi lo' hi' :: u64
  assumes "unat lo + 2 ^ 64 * unat hi = unat lo' + 2 ^ 64 * unat hi'"
  shows "lo = lo' \<and> hi = hi'"
proof -
  have "unat hi = unat hi'" using arg_cong[OF assms, of "\<lambda>n. n div 2 ^ 64"] u64_lt[of lo] u64_lt[of lo'] by simp
  with assms show ?thesis by (simp add: word_unat_eq_iff)
qed

lemma split32: "unat x = 2 ^ 32 * unat (drop_bit 32 x) + unat (take_bit 32 x)" for x :: u64
  by (simp add: unat_halves)

lemma shift32: "2 ^ 32 * n = 2 ^ 32 * (n mod 2 ^ 32) + 2 ^ 64 * (n div 2 ^ 32)" for n :: nat
proof -
  have "2 ^ 32 * n = 2 ^ 32 * (2 ^ 32 * (n div 2 ^ 32) + n mod 2 ^ 32)" by (simp only: mult_div_mod_eq)
  then show ?thesis by (simp only: distrib_left mult.assoc[symmetric]) simp
qed

lemma half_lt: "unat (drop_bit 32 x) < 2 ^ 32" "unat (take_bit 32 x) < 2 ^ 32" for x :: u64
  using u64_lt[of x] by (simp_all add: unat_halves div_less_iff_less_mult)

lemma rapid_mum_portable_product:
  assumes "rapid_mum_portable A B = (lo, hi)"
  shows "unat lo + 2 ^ 64 * unat hi = unat A * unat B"
proof -
  define ha la hb lb where h: "ha = drop_bit 32 A" "la = take_bit 32 A" "hb = drop_bit 32 B" "lb = take_bit 32 B"
  define rh rm0 rm1 rl where r: "rh = ha * hb" "rm0 = ha * lb" "rm1 = hb * la" "rl = la * lb"
  define t where t: "t = rl + push_bit 32 rm0"
  define c c' :: u64 where c: "c = (if t < rl then 1 else 0)" "c' = c + (if lo < t then 1 else 0)"
  have res: "lo = t + push_bit 32 rm1" "hi = rh + drop_bit 32 rm0 + drop_bit 32 rm1 + c'"
    using assms unfolding rapid_mum_portable_def Let_def h r t c by auto
  have prods: "unat rh = unat ha * unat hb" "unat rm0 = unat ha * unat lb" "unat rm1 = unat hb * unat la" "unat rl = unat la * unat lb"
    unfolding r h using half_lt by (simp_all only: unat_mul32)
  have AB: "unat A * unat B = 2 ^ 64 * unat rh + 2 ^ 32 * unat rm0 + 2 ^ 32 * unat rm1 + unat rl"
    unfolding prods split32[of A] split32[of B] h[symmetric] by (simp add: algebra_simps)
  have m: "2 ^ 32 * unat x = unat (push_bit 32 x) + 2 ^ 64 * unat (drop_bit 32 x)" for x :: u64
    by (simp only: unat_halves shift32[of "unat x"])
  let ?H = "unat rh + unat (drop_bit 32 rm0) + unat (drop_bit 32 rm1) + unat c'"
  have c': "unat c' = (if t < rl then 1 else 0) + (if lo < t then 1 else 0)" unfolding c by simp
  have sum: "unat lo + 2 ^ 64 * ?H = unat A * unat B"
    using add_carry[of rl "push_bit 32 rm0"] add_carry[of t "push_bit 32 rm1"] m[of rm0] m[of rm1]
    unfolding AB c' t[symmetric] res(1)[symmetric] by auto
  have "unat A * unat B < 2 ^ 64 * 2 ^ 64" using u64_lt[of A] u64_lt[of B] by (intro mult_strict_mono) simp_all
  then have H: "?H < 2 ^ 64" using sum by simp
  then have "unat hi = ?H" unfolding res(2) by (simp add: unat_word_ariths mod_add_left_eq mod_add_eq)
  then show ?thesis using sum by simp
qed

text \<open>C27: the portable multiplication, built from four 32-bit products with the carries tracked by
  comparisons, computes exactly the two halves of the 128-bit product that the other branch computes.\<close>

theorem rapid_mum_portable_correct: "rapid_mum_portable A B = rapid_mum A B"
proof -
  obtain lo hi lo' hi' where e: "rapid_mum A B = (lo, hi)" "rapid_mum_portable A B = (lo', hi')" by fastforce
  show ?thesis using halves_unique[of lo hi lo' hi'] rapid_mum_product[OF e(1)] rapid_mum_portable_product[OF e(2)] e by simp
qed

text \<open>the unrolled form of the main loop computes what the compact form computes.\<close>

theorem unrolled_loop_correct:
  "i > 112 \<Longrightarrow> unrolled_loop key p i lanes = compact_loop key p i lanes"
proof (induction key p i lanes rule: unrolled_loop.induct)
  case (1 key p i lanes)
  show ?case
  proof (cases "i > 224")
    case True
    have "unrolled_loop key (p + 224) (i - 224) l2 =
        (if i - 112 - 112 > 112 then compact_loop key (p + 112 + 112) (i - 112 - 112) l2
         else Some (p + 112 + 112, i - 112 - 112, l2))"
      if "rapid_round key p lanes = Some l1" "rapid_round key (p + 112) l1 = Some l2" for l1 l2
      using "1.IH"[OF True, of l1 l2] that True unrolled_loop.simps[of key "p + 224" "i - 224" l2]
      by (auto simp: add.assoc)
    then show ?thesis
      unfolding unrolled_loop.simps[of key p i] compact_loop.simps[of key p i] using True
      by (auto simp: compact_loop.simps[of key "p + 112" "i - 112"] split: option.splits Option.bind_splits)
  next
    case False
    then have "\<not> 112 < i - 112" by simp
    then show ?thesis
      unfolding unrolled_loop.simps[of key p i] compact_loop.simps[of key p i] using False "1.prems" by simp
  qed
qed

theorem unrolled_loop_correct_witness:
  "unrolled_loop (replicate 300 1) 0 300 (replicate 7 0) = compact_loop (replicate 300 1) 0 300 (replicate 7 0)"
  using unrolled_loop_correct[of 300 "replicate 300 1" 0 "replicate 7 0"] by simp

section \<open>The hash object\<close>

lemma digest_roundtrip: "0 \<le> h \<Longrightarrow> h < 2 ^ 64 \<Longrightarrow> int (be_nat (rev (rev (be_bytes 8 (nat h))))) = h"
  by (simp add: be_nat_bytes)

lemma fold_update_hash:
  "fold update_hash parts obj = obj\<lparr>rh_buf := rh_buf obj @ concat parts\<rparr>"
  by (induction parts arbitrary: obj) (simp_all add: update_hash_def)

text \<open>C28: hashing in pieces is hashing at once.  With a seed of 64 bits, however the data is cut into updates,
  also after a copy, the digest is the hash of the whole; the function always returns, so no read leaves
  the buffer; the digest is the hash in eight little-endian bytes, and the hexadecimal digest is sixteen digits
  that read back as it.  Any other seed is refused.\<close>

theorem RapidHash_incremental:
  assumes "0 \<le> seed" "seed < 2 ^ 64"
  shows "\<exists>h. rapidhash (data @ concat parts @ concat rest) seed = Inr h \<and> 0 \<le> h \<and> h < 2 ^ 64
    \<and> (let obj = fold update_hash rest (copy_hash (fold update_hash parts (new_hash data seed))) in
        intdigest obj = Inr h
        \<and> (\<exists>d x. digest obj = Inr d \<and> length d = 8 \<and> int (be_nat (rev d)) = h
              \<and> hexdigest obj = Inr x \<and> length x = 16 \<and> set x \<subseteq> hex_digit ` {..<16} \<and> from_hex x = Some d))"
proof -
  obtain h where h: "rapidhash (data @ concat parts @ concat rest) seed = Inr h" "0 \<le> h" "h < 2 ^ 64"
    using rapidhash_result[of "data @ concat parts @ concat rest" seed] assms by auto
  then show ?thesis
    using bytes_hex_digits[of "rev (be_bytes 8 (nat h))"] digest_roundtrip[of h]
    by (simp add: Let_def fold_update_hash copy_hash_def new_hash_def intdigest_def digest_def hexdigest_def from_hex_bytes_hex)
qed

theorem RapidHash_incremental_witness:
  "\<exists>h. rapidhash ([1, 2] @ concat [[3], []] @ concat [[4]]) 7 = Inr h \<and> 0 \<le> h \<and> h < 2 ^ 64
    \<and> (let obj = fold update_hash [[4]] (copy_hash (fold update_hash [[3], []] (new_hash [1, 2] 7))) in
        intdigest obj = Inr h
        \<and> (\<exists>d x. digest obj = Inr d \<and> length d = 8 \<and> int (be_nat (rev d)) = h
              \<and> hexdigest obj = Inr x \<and> length x = 16 \<and> set x \<subseteq> hex_digit ` {..<16} \<and> from_hex x = Some d))"
  by (rule RapidHash_incremental) simp_all

lemma seed_out_of_range: "seed < 0 \<or> 2 ^ 64 \<le> seed \<Longrightarrow> rapidhash key seed = Inl SeedOverflow"
  by (auto simp: rapidhash_def)

section \<open>Contents with the same hash\<close>

lemma rapid_mum_zero: "rapid_mum 0 B = (0, 0)"
  by (simp add: rapid_mum_def Let_def)

lemma le_word_bytes: "le_word (rev (be_bytes 8 (unat w))) = w"
  using u64_lt[of w] by (simp add: le_word_def be_nat_bytes)

definition blinding_bytes :: "nat \<Rightarrow> bytes" where
  "blinding_bytes i = rev (be_bytes 8 (unat (rapid_secret ! 1 XOR word_of_nat i)))"

text \<open>If the eight bytes that start sixteen bytes before the end of a content longer than sixteen bytes hold a
  public constant (a secret of the header, mixed with the length), then the hash depends on the length only:
  not on the other bytes, nor on the seed.\<close>

lemma rapidhash_withSeed_forced:
  assumes "u \<noteq> []" "length x = 8" "i = (length u + 15) mod 112 + 1"
  shows "rapidhash_withSeed (u @ blinding_bytes i @ x) seed
    = Some (rapid_mix (rapid_secret ! 7) (rapid_secret ! 1 XOR word_of_nat i))"
proof -
  let ?key = "u @ blinding_bytes i @ x"
  let ?seed = "seed XOR rapid_mix (seed XOR rapid_secret ! 2) (rapid_secret ! 1)"
  have l8: "length (blinding_bytes i) = 8" by (simp add: blinding_bytes_def)
  have len: "length ?key = length u + 16" "length ?key > 16" using assms l8 by auto
  then have i: "(length ?key - 1) mod 112 + 1 = i" using assms(3) by (simp add: add.commute)
  have w: "le_word (take 8 (drop (length ?key - 16) ?key)) = rapid_secret ! 1 XOR word_of_nat i"
    using len(1) l8 le_word_bytes by (simp add: blinding_bytes_def)
  obtain s b where "rapid_long ?key ?seed = Some (s, (rapid_secret ! 1 XOR word_of_nat i) XOR word_of_nat i, b, i)"
    using rapid_long_some[OF len(2), of ?seed] unfolding w i by blast
  then show ?thesis using len(2)
    by (simp add: rapidhash_withSeed_def Let_def rapid_finish_def xor.assoc rapid_mum_zero)
qed

lemma rapidhash_forced:
  assumes "u \<noteq> []" "length x = 8" "i = (length u + 15) mod 112 + 1"
  shows "rapidhash (u @ blinding_bytes i @ x) 0 = Inr (uint (rapid_mix (rapid_secret ! 7) (rapid_secret ! 1 XOR word_of_nat i)))"
  unfolding rapidhash_def rh_call_def rapidhash_withSeed_forced[OF assms] by simp

end
