(* ===== verification/Index_Types.thy ===== *)
theory Index_Types
  imports Reconciler
begin

text \<open>
  The field types that \<^verbatim>\<open>protocol/messages.py\<close> declares for file metadata, as an invariant of the index of
  \<^verbatim>\<open>sync/index.py\<close>: the dataclass \<^verbatim>\<open>FileRecord\<close> checks nothing, and the values are validated only when a
  message is built from them.  Events whose fields have the declared types keep the index typed, and
  typed indexes always give messages that pass validation.
\<close>

definition record_typed :: "FileRecord \<Rightarrow> bool" where
  "record_typed r \<longleftrightarrow>
     0 \<le> fr_rapidhash r \<and> fr_rapidhash r \<le> UINT64_MAX \<and> 0 \<le> fr_size r
     \<and> 0 \<le> fr_mode r \<and> fr_mode r \<le> 4095 \<and> 0 \<le> fr_mtime_ns r \<and> fr_mtime_ns r \<le> 999999999
     \<and> 0 \<le> fr_recv_ts_ns r \<and> name_errors (fr_uid_name r) = [] \<and> name_errors (fr_gid_name r) = []"

fun event_typed :: "SyncEvent \<Rightarrow> bool" where
  "event_typed (Write e) = (safe_path (we_path e) \<and> record_typed (write_record e))"
| "event_typed (Delete p t) = (0 \<le> t)"
| "event_typed (Rename old new t) = (safe_path new \<and> 0 \<le> t)"

definition ix_typed :: "SiloIndex \<Rightarrow> bool" where
  "ix_typed ix \<longleftrightarrow> ix_wf ix \<and> (\<forall>p r. dict_get (ix_records ix) p = Some r \<longrightarrow> safe_path p \<and> record_typed r)"

lemma ix_typedD:
  assumes "ix_typed ix" "(p, r) \<in> set (ix_records ix)"
  shows "safe_path p" "record_typed r"
  using assms by (auto simp: ix_typed_def ix_wf_def dict_get_mem)

lemma ix_typed_put: "ix_typed ix \<Longrightarrow> safe_path p \<Longrightarrow> record_typed r \<Longrightarrow> ix_typed (put_record p r ix)"
  by (auto simp: ix_typed_def ix_wf_def)

lemma ix_typed_move:
  "ix_typed ix \<Longrightarrow> safe_path q \<Longrightarrow> record_typed r
    \<Longrightarrow> ix_typed (ix\<lparr>ix_records := dict_set q r (dict_del p (ix_records ix))\<rparr>)"
  by (auto simp: ix_typed_def ix_wf_def split: if_splits)

lemma ix_typed_get: "ix_typed ix \<Longrightarrow> dict_get (ix_records ix) p = Some r \<Longrightarrow> safe_path p \<and> record_typed r"
  by (auto simp: ix_typed_def)

lemma record_typed_upd:
  "record_typed r \<Longrightarrow> 0 \<le> t \<Longrightarrow> record_typed (r\<lparr>fr_recv_ts_ns := t\<rparr>)"
  "record_typed r \<Longrightarrow> record_typed (r\<lparr>fr_deleted := b\<rparr>)"
  by (simp_all add: record_typed_def)

lemma ix_typed_step:
  assumes "ix_typed ix" "event_typed e"
  shows "ix_typed (ix_step e ix)"
proof (cases e)
  case (Write w)
  then show ?thesis using assms by (auto simp: apply_write_def Let_def ix_typed_put split: option.split)
next
  case (Delete p t)
  then show ?thesis using assms ix_typed_get[OF assms(1), of p]
    by (auto simp: apply_delete_def split: option.split
        intro!: ix_typed_put record_typed_upd(1)[of "r\<lparr>fr_deleted := True\<rparr>" for r] record_typed_upd(2))
next
  case (Rename old new t)
  then show ?thesis using assms ix_typed_get[OF assms(1), of old]
    by (auto simp: apply_rename_def Let_def split: option.split intro!: ix_typed_move record_typed_upd)
qed

interpretation typed_index: guarded_machine ix_step ix_typed event_typed
  by unfold_locales (rule ix_typed_step)

lemma ix_typed_new: "ix_typed (new_SiloIndex sid nid)"
  by (simp add: ix_typed_def new_SiloIndex_def ix_wf_def)

section \<open>Messages built from a typed index are valid\<close>

lemma snapshot_valid: "ix_typed ix \<Longrightarrow> x \<in> set (to_snapshot ix) \<Longrightarrow> FileEntrySnapshot_errors (snd x) = []"
  by (auto simp: to_snapshot_def FileEntrySnapshot_errors_def record_to_snapshot_def range_errors_def ge_errors_def
      record_typed_def dest!: ix_typedD(2))

lemma entry_valid:
  assumes "safe_path p" "record_typed r" "b = None \<longleftrightarrow> full" "\<forall>h. b = Some h \<longrightarrow> 0 \<le> h \<and> h \<le> UINT64_MAX"
  shows "\<exists>e. to_file_entry p r full b = Inr e \<and> FileEntry_errors e = []"
  using assms by (auto simp: to_file_entry_def mk_FileEntry_def valid_entry_simps record_typed_def split: option.split)

lemma diff_loop_typed:
  assumes "\<forall>(p, r) \<in> set rs. safe_path p \<and> record_typed r"
    and "\<forall>(p, s) \<in> set remote. FileEntrySnapshot_errors s = []"
  shows "\<exists>xs. diff_loop remote rs = Inr xs \<and> (\<forall>e \<in> set xs. FileEntry_errors e = [])"
  using assms(1)
proof (induction rs)
  case (Cons x rs)
  obtain p r where x: "x = (p, r)" by fastforce
  have hash: "0 \<le> get_rapidhash s \<and> get_rapidhash s \<le> UINT64_MAX" if "dict_get remote p = Some s" for s
    using assms(2) map_of_SomeD[OF that]
    by (auto simp: FileEntrySnapshot_errors_def range_errors_def get_rapidhash_def split: if_splits)
  have "diff_one remote p r = None \<or> (\<exists>e. diff_one remote p r = Some (Inr e) \<and> FileEntry_errors e = [])"
    using entry_valid[of p r None True] entry_valid[of p r "Some (get_rapidhash s)" False for s] hash Cons.prems x
    unfolding diff_one_def by (auto split: option.split)
  with Cons x show ?case by fastforce
qed simp

text \<open>C19: type soundness of the exchange.  If the events applied on both sides have fields of the declared
  types, both indexes stay typed; then the server's answer always passes the validation on both ends, the
  client can always build its entries, and every one of them is valid: no validation error can occur
  in a reconciliation.\<close>

theorem typed_indexes_exchange:
  assumes "\<forall>e \<in> set local_events. event_typed e" "\<forall>e \<in> set remote_events. event_typed e"
    and "client = apply_events local_events (new_SiloIndex sid n1)"
    and "server = apply_events remote_events (new_SiloIndex sid n2)"
  shows "ix_typed client \<and> ix_typed server
    \<and> (\<exists>state xs. server_handle_sync_request server (Inr SyncRequestMsg) = ([state], Inr ()) \<and> valid_msg state
        \<and> client_request_sync client (Inr state) = ([SyncRequestMsg], Inr xs)
        \<and> (\<forall>e \<in> set xs. FileEntry_errors e = []))"
proof -
  have t: "ix_typed client" "ix_typed server"
    unfolding assms(3,4) by (rule typed_index.guarded_run[OF ix_typed_new]; use assms(1,2) in blast)+
  have v: "\<forall>x \<in> set (to_snapshot server). FileEntrySnapshot_errors (snd x) = []" using snapshot_valid[OF t(2)] by blast
  then have "validate_records (to_snapshot server) = Inr (to_snapshot server)" by (simp add: validate_records_Inr)
  moreover obtain xs where "diff client (to_snapshot server) = Inr xs" "\<forall>e \<in> set xs. FileEntry_errors e = []"
    using diff_loop_typed[of "ix_records client" "to_snapshot server"] ix_typedD[OF t(1)] v unfolding diff_def by fastforce
  moreover have "valid_msg (SyncStateMsg (ix_silo_id server) (ix_node_id server) (to_snapshot server))"
    using v by (auto simp: case_prod_beta)
  ultimately show ?thesis using t by (simp add: server_handle_sync_request_def client_request_sync_def)
qed

theorem typed_indexes_exchange_witness:
  "\<exists>state xs. server_handle_sync_request (new_SiloIndex 1 ''s'') (Inr SyncRequestMsg) = ([state], Inr ())
     \<and> client_request_sync (apply_events [Delete ''a'' 3] (new_SiloIndex 1 ''c'')) (Inr state) = ([SyncRequestMsg], Inr xs)"
  using typed_indexes_exchange[of "[Delete ''a'' 3]" "[]" _ 1 "''c''" _ "''s''", OF _ _ refl refl] by auto

end
