(* ===== verification/Silo_Isolation.thy ===== *)
theory Silo_Isolation
  imports Server_Safety
begin

text \<open>
  What the sessions of different silos on one server need not to influence each other: file systems that agree on a silo, on
  which the system calls of the handlers do the same, and silos without symbolic links, which the calls keep so and in which a
  client's path means the root followed by its components.
\<close>

section \<open>File systems that agree on a silo\<close>

definition near :: "path \<Rightarrow> path \<Rightarrow> bool" where
  "near root p \<longleftrightarrow> prefix root p \<or> prefix p root"

definition agree :: "path \<Rightarrow> file_system \<Rightarrow> file_system \<Rightarrow> bool" where
  "agree root fs fs2 \<longleftrightarrow> (\<forall>p. near root p \<longrightarrow> fs p = fs2 p)"

text \<open>The files and directories of a silo, by their paths from the root.\<close>

definition silo_tree :: "path \<Rightarrow> file_system \<Rightarrow> file_system" where
  "silo_tree root fs = (\<lambda>q. fs (root @ q))"

lemma agreeD: "agree root fs fs2 \<Longrightarrow> near root p \<Longrightarrow> fs p = fs2 p"
  by (simp add: agree_def)

lemma agree_under: "agree root fs fs2 \<Longrightarrow> fs (root @ q) = fs2 (root @ q)"
  by (simp add: agree_def near_def)

lemma agree_tree: "agree root fs fs2 \<Longrightarrow> silo_tree root fs = silo_tree root fs2"
  by (simp add: silo_tree_def agree_under)

lemma agree_upd: "agree root fs fs2 \<Longrightarrow> agree root (fs(p := n)) (fs2(p := n))"
  by (simp add: agree_def)

lemma near_take: "near root (take n (root @ ps))"
  using prefix_same_cases[OF take_is_prefix[of n "root @ ps"], of root] by (auto simp: near_def)

lemma mkdirs_agree:
  assumes "agree root fs fs2" "\<And>p. prefix p (acc @ cs) \<Longrightarrow> near root p"
  shows "rel_option (agree root) (mkdirs fs acc cs) (mkdirs fs2 acc cs)"
  using assms
proof (induction cs arbitrary: acc fs fs2)
  case (Cons c cs)
  have e: "fs (acc @ [c]) = fs2 (acc @ [c])" by (rule agreeD[OF Cons.prems(1)], rule Cons.prems(2)) simp
  have ih: "rel_option (agree root) (mkdirs f1 (acc @ [c]) cs) (mkdirs f2 (acc @ [c]) cs)" if "agree root f1 f2" for f1 f2
    using Cons.IH[OF that, of "acc @ [c]"] Cons.prems(2) by simp
  show ?case using ih[OF Cons.prems(1)] ih[OF agree_upd[OF Cons.prems(1)]] by (simp add: e split: option.split node.split)
qed simp

lemma near_parent: "prefix p (butlast (root @ ps)) \<Longrightarrow> near root p"
  using prefix_order.trans[OF _ prefixeq_butlast, of p "root @ ps"] prefix_same_cases[of p "root @ ps" root]
  by (auto simp: near_def)

lemma mkdirs_agree_dest:
  assumes "agree root fs fs2"
  shows "rel_option (agree root) (mkdirs fs [] (butlast (root @ ps))) (mkdirs fs2 [] (butlast (root @ ps)))"
  by (rule mkdirs_agree[OF assms]) (simp add: near_parent)

lemma unlink_agree:
  assumes "agree root fs fs2"
  shows "rel_option (agree root) (unlink env fs (root @ ps)) (unlink env fs2 (root @ ps))"
proof -
  have "under_file fs (root @ ps) = under_file fs2 (root @ ps)"
    unfolding under_file_def agreeD[OF assms near_take] by (rule refl)
  then show ?thesis using agree_under[OF assms, of ps] assms by (simp add: unlink_def agree_upd)
qed

lemma move_tree_agree:
  assumes "agree root fs fs2"
  shows "agree root (move_tree fs (root @ ps) (root @ qs)) (move_tree fs2 (root @ ps) (root @ qs))"
  using agreeD[OF assms] agree_under[OF assms] by (simp add: agree_def move_tree_def)

lemma os_rename_agree:
  assumes "agree root fs fs2"
  shows "rel_option (agree root) (os_rename env fs (root @ ps) (root @ qs)) (os_rename env fs2 (root @ ps) (root @ qs))"
  using assms agree_under[OF assms] move_tree_agree[OF assms, of ps qs]
  by (simp add: os_rename_def agree_upd split: option.split node.split)

lemma find_base_in: "find_base h rs = Some p \<Longrightarrow> list_all (\<lambda>(p, r). P p) rs \<Longrightarrow> P p"
  by (induction h rs rule: find_base.induct) (auto split: if_splits)

section \<open>Silos without links\<close>

abbreviation root_of :: "SiloSession \<Rightarrow> path" where
  "root_of ss \<equiv> pj_root (ss_jail ss)"

definition linkfree :: "path \<Rightarrow> file_system \<Rightarrow> bool" where
  "linkfree root fs \<longleftrightarrow> silo_ok root fs \<and> (\<forall>q t. fs (root @ q) \<noteq> Some (Symlink t))"

lemma linkfree_silo_ok: "linkfree root fs \<Longrightarrow> silo_ok root fs"
  by (simp add: linkfree_def)

lemma linkfree_root: "linkfree root fs \<Longrightarrow> fs root = Some Directory"
  by (simp add: linkfree_def silo_ok_def)

lemma linkfree_dirs: "linkfree root fs \<Longrightarrow> prefix q root \<Longrightarrow> fs q = Some Directory"
  by (simp add: linkfree_def silo_ok_def)

lemma linkfree_resolve:
  "linkfree root fs \<Longrightarrow> pj_root jail = root \<Longrightarrow> safe_path p \<Longrightarrow> resolve fuel fs jail p = Inr (root @ path_parts p)"
  using jail_resolves_plain[of p fs jail fuel] by (auto simp: linkfree_def is_link_def split: option.split node.split)

lemma linkfree_physical:
  assumes "linkfree root fs"
  shows "physical fs (root @ ps)"
proof -
  have "\<not> is_link fs q" if "prefix q (root @ ps)" for q
    using prefix_same_cases[OF that prefixI[OF refl]] assms linkfree_dirs[OF assms, of q]
    by (auto simp: linkfree_def is_link_def prefix_def split: option.split node.split)
  then show ?thesis by (simp add: physical_def)
qed

lemma path_parts_clean: "safe_path p \<Longrightarrow> clean_path (path_parts p)"
  using path_parts_relative[of p] by (auto simp: safe_path_def starts_with_singleton clean_path_def list_all_iff path_parts_def)

text \<open>In such a silo the system calls act on the path the jail returns.\<close>

lemma linkfree_kernel:
  assumes "linkfree root fs" "safe_path p"
  shows "kernel_path n fs (root @ path_parts p) = Some (root @ path_parts p)"
    "realpath n fs [] (root @ path_parts p) = Some (root @ path_parts p)"
proof -
  have "clean_path (root @ path_parts p)" using assms path_parts_clean by (simp add: linkfree_def silo_ok_def)
  then show "kernel_path n fs (root @ path_parts p) = Some (root @ path_parts p)"
    "realpath n fs [] (root @ path_parts p) = Some (root @ path_parts p)"
    using kernel_path_self realpath_self[of _ fs "[]"] linkfree_physical[OF assms(1)] by simp_all
qed

lemmas linkfree_lands = linkfree_resolve linkfree_kernel

text \<open>Changes strictly below the root that add no link keep a silo without links.\<close>

lemma linkfreeI:
  assumes "linkfree root fs" "\<And>p. fs' p \<noteq> fs p \<Longrightarrow> strict_prefix root p \<or> \<not> near root p"
    and "\<And>q t. fs' (root @ q) = Some (Symlink t) \<Longrightarrow> fs' (root @ q) = fs (root @ q) \<or> (\<exists>r. fs (root @ r) = Some (Symlink t))"
  shows "linkfree root fs'"
proof -
  have "fs' q = fs q" if "prefix q root" for q
    using assms(2)[of q] that prefix_order.antisym[of root q] by (auto simp: near_def strict_prefix_def)
  from silo_ok_keep[OF linkfree_silo_ok[OF assms(1)] this] have "silo_ok root fs'" by blast
  moreover have "fs' (root @ q) \<noteq> Some (Symlink t)" for q t
    using assms(1) assms(3)[of q t] unfolding linkfree_def by metis
  ultimately show ?thesis by (simp add: linkfree_def)
qed

lemma unlink_linkfree:
  assumes "linkfree root fs" "unlink env fs (root @ ps) = Some fs'"
  shows "linkfree root fs'"
proof (rule linkfreeI[OF assms(1)])
  show "strict_prefix root p \<or> \<not> near root p" if "fs' p \<noteq> fs p" for p
    using unlink_below[OF linkfree_root[OF assms(1)] _ assms(2) that] by simp
qed (use assms(2) in \<open>auto simp: unlink_def split: if_splits\<close>)

lemma mkdirs_linkfree:
  assumes "linkfree root fs" "mkdirs fs [] (butlast (root @ ps)) = Some fs'"
  shows "linkfree root fs'"
proof (rule linkfreeI[OF assms(1)])
  show "strict_prefix root p \<or> \<not> near root p" if "fs' p \<noteq> fs p" for p
    using mkdirs_below[OF linkfree_dirs[OF assms(1)] _ assms(2) that] by simp
  show "fs' (root @ q) = fs (root @ q) \<or> (\<exists>r. fs (root @ r) = Some (Symlink t))" if "fs' (root @ q) = Some (Symlink t)" for q t
    using mkdirs_only_adds[OF assms(2), of "root @ q"] that by auto
qed

lemma os_rename_linkfree:
  assumes "linkfree root fs" "os_rename env fs (root @ ps) (root @ qs) = Some fs'"
  shows "linkfree root fs'"
proof (rule linkfreeI[OF assms(1)])
  show "strict_prefix root p \<or> \<not> near root p" if "fs' p \<noteq> fs p" for p
    using os_rename_below[OF linkfree_root[OF assms(1)] _ _ assms(2) that] by simp
  show "fs' (root @ q) = fs (root @ q) \<or> (\<exists>r. fs (root @ r) = Some (Symlink t))" if "fs' (root @ q) = Some (Symlink t)" for q t
    using assms(2) that by (auto simp: os_rename_def move_tree_def split: if_splits option.splits node.splits)
qed

section \<open>The handlers keep a silo without links\<close>

text \<open>A deletion and a renaming, once the paths are resolved.\<close>

lemma handle_delete_linkfree:
  assumes "linkfree root (sv_fs sv)" "root_of ss = root" "safe_path p"
  shows "handle_delete cf ss p sv =
    (case unlink (cf_env cf) (sv_fs sv) (root @ path_parts p) of
       None \<Rightarrow> (Inr (), sv)
     | Some fs' \<Rightarrow> (Inr (), log_audit (FileDeleted (ss_client_cn ss) (ss_silo_id ss) p) (sv\<lparr>sv_fs := fs'\<rparr>)))"
  by (simp add: handle_delete_def linkfree_resolve[OF assms] linkfree_kernel[OF assms(1,3)])

lemma handle_rename_linkfree:
  assumes "linkfree root (sv_fs sv)" "root_of ss = root" "safe_path p" "safe_path q"
  shows "handle_rename cf ss p q sv =
    (case parents_made (cf_env cf) (sv_fs sv) (root @ path_parts q) of
       None \<Rightarrow> (Inr (), sv)
     | Some fs1 \<Rightarrow>
         (case os_rename (cf_env cf) fs1 (root @ path_parts p) (root @ path_parts q) of
            None \<Rightarrow> (Inr (), sv\<lparr>sv_fs := fs1\<rparr>)
          | Some fs2 \<Rightarrow> (Inr (), log_audit (FileRenamed (ss_client_cn ss) (ss_silo_id ss) p q) (sv\<lparr>sv_fs := fs2\<rparr>))))"
proof (cases "parents_made (cf_env cf) (sv_fs sv) (root @ path_parts q)")
  case None
  then show ?thesis
    by (simp add: handle_rename_def linkfree_resolve[OF assms(1,2)] linkfree_kernel[OF assms(1)] assms(3,4) flip: parents_made_def)
next
  case (Some fs1)
  then have "linkfree root fs1" using mkdirs_linkfree[OF assms(1)] by (simp add: parents_made_def split: if_splits)
  from linkfree_kernel[OF this assms(3)] Some show ?thesis
    by (simp add: handle_rename_def linkfree_resolve[OF assms(1,2)] linkfree_kernel[OF assms(1)] assms(3,4) flip: parents_made_def)
qed

lemma parents_made_linkfree:
  "linkfree root fs \<Longrightarrow> parents_made env fs (root @ ps) = Some fs1 \<Longrightarrow> linkfree root fs1"
  using mkdirs_linkfree by (auto simp: parents_made_def split: if_splits)

lemma delete_linkfree:
  assumes "linkfree root (sv_fs sv)" "root_of ss = root" "safe_path p"
  shows "linkfree root (sv_fs (snd (handle_delete cf ss p sv)))"
  using unlink_linkfree[OF assms(1)] assms(1) by (auto simp: handle_delete_linkfree[OF assms] split: option.split)

lemma rename_linkfree:
  assumes "linkfree root (sv_fs sv)" "root_of ss = root" "safe_path p" "safe_path q"
  shows "linkfree root (sv_fs (snd (handle_rename cf ss p q sv)))"
  using parents_made_linkfree[OF assms(1)] os_rename_linkfree[where root = root] assms(1)
  by (auto simp: handle_rename_linkfree[OF assms] split: option.split) blast

lemma tmp_path_below: "q \<noteq> [] \<Longrightarrow> strict_prefix root (tmp_path (root @ q) hex)"
  by (simp add: tmp_path_def butlast_append strict_prefix_def)

lemma tmp_beside: "silo_ok root fs \<Longrightarrow> \<not> near root (tmp_path root hex)"
  using silo_ok_tmp[of root fs hex]
  by (cases root rule: rev_cases) (auto simp: silo_ok_def tmp_path_def near_def prefix_snoc dest: prefix_length_le)

lemma transfer_linkfree:
  assumes "linkfree root (sv_fs sv)" "root_of ss = root" "safe_path (fe_path entry)"
  shows "linkfree root (sv_fs (oc_server (handle_transfer cf ss ix tid entry n i sv)))"
proof -
  let ?d = "root @ path_parts (fe_path entry)"
  have w: "linkfree root (last sts)"
    if out: "atomic_write (cf_env cf) (cf_tmp_hex cf) (cf_fuel cf) (sv_fs sv) (ss_jail ss) (fe_path entry) content entry = (r, sts)" for content r sts
  proof (cases "parents_made (cf_env cf) (sv_fs sv) ?d")
    case None
    then show ?thesis using atomic_write_last[OF linkfree_resolve[OF assms] linkfree_kernel(1)[OF assms(1,3)] out] assms(1) by simp
  next
    case (Some fs1)
    note lf = parents_made_linkfree[OF assms(1) Some]
    have "confined root UNIV (sv_fs sv) (last sts)"
      by (rule atomic_write_confined[OF linkfree_silo_ok[OF assms(1)] assms(2,3) out UNIV_I[of "\<lparr>mo_env = cf_env cf, mo_tmp_hex = cf_tmp_hex cf, mo_clamd = None\<rparr>"]]) simp_all
    then have "silo_ok root (last sts)" by (rule confined_silo_ok)
    moreover have "last sts (root @ q) \<noteq> Some (Symlink t)" for q t
      using atomic_write_nodes[OF linkfree_resolve[OF assms] linkfree_kernel(1)[OF assms(1,3)] out Some, of "root @ q"] lf by (auto simp: linkfree_def)
    ultimately show ?thesis by (simp add: linkfree_def)
  qed
  show ?thesis
    using assms(1) w
    by (auto simp: handle_transfer_def check_content_def store_content_def drain_and_nack_def simp del: drain.simps
        split: sum.split jail_error.split prod.split collected.split AnyMsg.split base_error.split write_error.split)
qed

section \<open>Paths that are no temporary files\<close>

text \<open>A path that is not named like a temporary file of the session.\<close>

definition avoids :: "config \<Rightarrow> string \<Rightarrow> bool" where
  "avoids cf p \<longleftrightarrow> safe_path p \<and> (\<forall>n. ''.chiralite_tmp_'' @ mo_tmp_hex (cf_later cf n) \<notin> set (path_parts p))"

definition inbox_avoids :: "config \<Rightarrow> inbox \<Rightarrow> bool" where
  "inbox_avoids cf i \<longleftrightarrow> (\<forall>m. Inr m \<in> set i \<longrightarrow> (\<forall>p \<in> set (msg_paths m). avoids cf p))"

lemma inbox_avoids_subset: "inbox_avoids cf i \<Longrightarrow> set j \<subseteq> set i \<Longrightarrow> inbox_avoids cf j"
  by (auto simp: inbox_avoids_def)

lemma inbox_avoids_Cons: "inbox_avoids cf (Inr m # i) \<longleftrightarrow> (\<forall>p \<in> set (msg_paths m). avoids cf p) \<and> inbox_avoids cf i"
  by (auto simp: inbox_avoids_def)

lemma avoids_safe: "avoids cf p \<Longrightarrow> safe_path p"
  by (simp add: avoids_def)

lemma avoids_tmp:
  assumes "linkfree root fs" "avoids cf p"
  shows "tmp_path (root @ path_parts p) (mo_tmp_hex (cf_later cf n)) \<noteq> root @ path_parts p"
proof (cases "path_parts p = []")
  case True
  then show ?thesis using silo_ok_tmp[OF linkfree_silo_ok[OF assms(1)]] by simp
next
  case False
  then have "last (path_parts p) \<in> set (path_parts p)" by simp
  with assms(2) have "last (path_parts p) \<noteq> ''.chiralite_tmp_'' @ mo_tmp_hex (cf_later cf n)" unfolding avoids_def by metis
  then show ?thesis using False by (metis last_appendR last_snoc tmp_path_def)
qed

section \<open>Two silos\<close>

definition apart :: "path \<Rightarrow> path \<Rightarrow> bool" where
  "apart a b \<longleftrightarrow> \<not> prefix a b \<and> \<not> prefix b a"

definition plain_fs :: file_system where
  "plain_fs = [[] \<mapsto> Directory, [''silo''] \<mapsto> Directory, [''silo'', ''old''] \<mapsto> Regular (os_new demo_env)]"

definition two_silos :: server where
  "two_silos = demo_server\<lparr>sv_fs := plain_fs([''other''] \<mapsto> Directory, [''other'', ''x''] \<mapsto> Regular (os_new demo_env))\<rparr>"

definition other_session :: SiloSession where
  "other_session = demo_session\<lparr>ss_silo_id := 2, ss_jail := (ss_jail demo_session)\<lparr>pj_root := [''other'']\<rparr>\<rparr>"

end
