(* ===== verification/Store_Refinement.thy ===== *)
theory Store_Refinement
  imports Silo_Isolation
begin

text \<open>
  What a session promises its client, without jail, links, temporary files and write pipeline: a silo is a file system of its
  own, on which deletions and renamings are the plain system calls and a transfer is one atomic update or nothing.  The
  specification is a relation between the messages of the client and the answers, the file events logged and the store; it
  says exactly when a transfer is accepted.  The session loop refines it.
\<close>

section \<open>The store of a silo\<close>

definition has_temp :: "path \<Rightarrow> bool" where
  "has_temp q \<longleftrightarrow> list_ex is_temp q"

text \<open>The files and directories under the root, temporary files and what is below them left out.\<close>

definition silo_store :: "path \<Rightarrow> file_system \<Rightarrow> file_system" where
  "silo_store root fs = (\<lambda>q. if has_temp q then None else fs (root @ q))"

text \<open>The operating system seen from the root.\<close>

definition env_below :: "path \<Rightarrow> os_env \<Rightarrow> os_env" where
  "env_below root env = env\<lparr>os_dir_empty := \<lambda>p. os_dir_empty env (root @ p)\<rparr>"

definition plain :: "string \<Rightarrow> bool" where
  "plain p \<longleftrightarrow> safe_path p \<and> \<not> has_temp (path_parts p)"

lemma has_temp_simps [simp]: "\<not> has_temp []" "has_temp (p @ q) \<longleftrightarrow> has_temp p \<or> has_temp q" "has_temp (c # q) \<longleftrightarrow> is_temp c \<or> has_temp q"
  by (simp_all add: has_temp_def)

lemma has_temp_prefix: "prefix p q \<Longrightarrow> \<not> has_temp q \<Longrightarrow> \<not> has_temp p"
  by (auto simp: prefix_def)

lemma env_below_simps [simp]:
  "os_fail (env_below root env) = os_fail env" "os_pwd (env_below root env) = os_pwd env" "os_grp (env_below root env) = os_grp env"
  "os_new (env_below root env) = os_new env" "os_unlink_fails (env_below root env) = os_unlink_fails env"
  "os_rename_fails (env_below root env) = os_rename_fails env"
  "os_dir_empty (env_below root env) p = os_dir_empty env (root @ p)"
  by (simp_all add: env_below_def)

lemma written_node_below [simp]: "written_node (env_below root env) = written_node env"
  by (simp add: written_node_def fun_eq_iff)

lemma store_at: "\<not> has_temp q \<Longrightarrow> silo_store root fs q = fs (root @ q)"
  by (simp add: silo_store_def)

lemma store_upd: "\<not> has_temp q \<Longrightarrow> silo_store root (fs(root @ q := n)) = (silo_store root fs)(q := n)"
  by (auto simp: silo_store_def fun_eq_iff)

text \<open>The system calls on a path under the root are those calls on the store.\<close>

lemma under_file_iff: "under_file fs p \<longleftrightarrow> (\<exists>n < length p. \<exists>x. fs (take n p) = Some (Regular x))"
proof -
  have "(case x of Some (Regular _) \<Rightarrow> True | _ \<Rightarrow> False) \<longleftrightarrow> (\<exists>y. x = Some (Regular y))" for x :: "node option"
    by (simp split: option.split node.split)
  then show ?thesis by (auto simp: under_file_def list_ex_iff)
qed

lemma under_file_store:
  assumes "linkfree root fs" "\<not> has_temp ps"
  shows "under_file fs (root @ ps) \<longleftrightarrow> under_file (silo_store root fs) ps"
proof -
  have st: "silo_store root fs (take m ps) = fs (root @ take m ps)" for m
    using has_temp_prefix[OF take_is_prefix assms(2)] by (rule store_at)
  have dir: "fs (take n root) = Some Directory" for n by (rule linkfree_dirs[OF assms(1) take_is_prefix])
  show ?thesis
  proof
    assume "under_file fs (root @ ps)"
    then obtain n x where n: "n < length root + length ps" "fs (take n (root @ ps)) = Some (Regular x)" by (auto simp: under_file_iff)
    with dir[of n] have "length root \<le> n" by (cases "length root \<le> n") auto
    with n show "under_file (silo_store root fs) ps"
      unfolding under_file_iff st by (intro exI[of _ "n - length root"]) auto
  next
    assume "under_file (silo_store root fs) ps"
    then obtain n x where "n < length ps" "fs (root @ take n ps) = Some (Regular x)" by (auto simp: under_file_iff st)
    then show "under_file fs (root @ ps)" unfolding under_file_iff by (intro exI[of _ "length root + n"]) auto
  qed
qed

lemma unlink_store:
  assumes "linkfree root fs" "\<not> has_temp ps"
  shows "map_option (silo_store root) (unlink env fs (root @ ps)) = unlink (env_below root env) (silo_store root fs) ps"
  by (simp add: unlink_def under_file_store[OF assms] store_at[OF assms(2)] store_upd[OF assms(2)])

lemma mkdirs_along:
  "(\<And>q. prefix q (acc @ ds) \<Longrightarrow> fs q = Some Directory) \<Longrightarrow> mkdirs fs acc (ds @ cs) = mkdirs fs (acc @ ds) cs"
proof (induction ds arbitrary: acc)
  case (Cons d ds)
  have "fs (acc @ [d]) = Some Directory" by (rule Cons.prems) simp
  then show ?case using Cons.IH[of "acc @ [d]"] Cons.prems by simp
qed simp

lemma mkdirs_store:
  "\<not> has_temp (acc @ cs) \<Longrightarrow> map_option (silo_store root) (mkdirs fs (root @ acc) cs) = mkdirs (silo_store root fs) acc cs"
proof (induction cs arbitrary: acc fs)
  case (Cons c cs)
  have nt: "\<not> has_temp (acc @ [c])" "\<not> has_temp ((acc @ [c]) @ cs)" using Cons.prems by simp_all
  define f where "f = fs(root @ acc @ [c] \<mapsto> Directory)"
  have f: "silo_store root f = (silo_store root fs)(acc @ [c] \<mapsto> Directory)" unfolding f_def by (rule store_upd[OF nt(1)])
  show ?case
    using Cons.IH[OF nt(2), of fs] Cons.IH[OF nt(2), of f]
    by (simp add: store_at[OF nt(1)] f del: fun_upd_apply flip: f_def split: option.split node.split)
qed simp

lemma parents_store:
  assumes "linkfree root fs" "\<not> has_temp ps"
  shows "map_option (silo_store root) (parents_made env fs (root @ ps)) = parents_made (env_below root env) (silo_store root fs) ps"
proof (cases "ps = []")
  case True
  have "mkdirs fs [] (butlast root @ []) = mkdirs fs (butlast root) []"
    using mkdirs_along[of "[]" "butlast root" fs "[]"] linkfree_dirs[OF assms(1)] prefix_order.trans[OF _ prefixeq_butlast] by simp blast
  with True show ?thesis by (simp add: parents_made_def)
next
  case False
  have "mkdirs fs [] (root @ butlast ps) = mkdirs fs root (butlast ps)"
    using mkdirs_along[of "[]" root fs "butlast ps"] linkfree_dirs[OF assms(1)] by simp
  moreover have "\<not> has_temp (butlast ps)" using has_temp_prefix[OF prefixeq_butlast assms(2)] .
  ultimately show ?thesis using False mkdirs_store[of "[]" "butlast ps" root fs] by (simp add: parents_made_def butlast_append)
qed

lemma move_tree_store:
  assumes "\<not> has_temp ps" "\<not> has_temp qs"
  shows "silo_store root (move_tree fs (root @ ps) (root @ qs)) = move_tree (silo_store root fs) ps qs"
proof
  fix q
  show "silo_store root (move_tree fs (root @ ps) (root @ qs)) q = move_tree (silo_store root fs) ps qs q"
    using assms by (cases "prefix qs q") (auto simp: silo_store_def move_tree_def prefix_def)
qed

lemma rename_store:
  assumes "\<not> has_temp ps" "\<not> has_temp qs"
  shows "map_option (silo_store root) (os_rename env fs (root @ ps) (root @ qs)) = os_rename (env_below root env) (silo_store root fs) ps qs"
proof -
  have "strict_prefix (root @ a) (root @ b) \<longleftrightarrow> strict_prefix a b" for a b by (simp add: strict_prefix_def)
  then show ?thesis
    by (simp add: os_rename_def store_at assms move_tree_store[OF assms] store_upd[OF assms(1)] store_upd[OF assms(2)]
        split: option.split node.split)
qed

section \<open>A write is one update of the store\<close>

text \<open>When a file can be written: no call fails, the owner names are known, the time fits, the parents can be made and the
  destination is not a directory.\<close>

definition can_write :: "os_env \<Rightarrow> file_system \<Rightarrow> path \<Rightarrow> FileEntry \<Rightarrow> bool" where
  "can_write env fs d e \<longleftrightarrow>
     (\<forall>s. s \<noteq> WLookup \<longrightarrow> \<not> os_fail env s) \<and> os_pwd env (fe_uid_name e) \<noteq> None \<and> os_grp env (fe_gid_name e) \<noteq> None
     \<and> \<not> utime_overflows e \<and> parents_made env fs d \<noteq> None \<and> fs d \<noteq> Some Directory"

lemma run_stages_Inr: "run_stages env e fails tmp stages fs = (Inr fs2, sts) \<Longrightarrow> (s, n) \<in> set stages \<Longrightarrow> \<not> fails s"
  by (induction stages arbitrary: fs sts) (auto simp: Let_def split: if_splits prod.splits)

lemma write_stages_steps: "s \<noteq> WMkdir \<Longrightarrow> s \<noteq> WRename \<Longrightarrow> \<exists>n. (s, n) \<in> set (write_stages env content e)"
  by (cases s) (auto simp: write_stages_def Let_def)

lemma atomic_write_iff:
  assumes "resolve fuel fs jail rel = Inr dest" and "kernel_path fuel fs dest = Some d"
    and "atomic_write env hex fuel fs jail rel content e = (r, sts)"
  shows "r = Inr () \<longleftrightarrow> can_write env fs d e"
proof (cases "parents_made env fs d")
  case None
  then show ?thesis using atomic_write_last[OF assms] by (simp add: can_write_def)
next
  case (Some fs1)
  let ?fails = "step_fails env fs1 d e"
  let ?run = "run_stages env e ?fails (tmp_path d hex) (write_stages env content e) fs1"
  obtain r0 sts0 where run: "?run = (r0, sts0)" by (cases ?run)
  note out = assms(3)[unfolded atomic_write_unfold[OF assms(1,2)], folded parents_made_def, unfolded Some option.case run prod.case]
  have mk: "\<not> os_fail env WMkdir" "fs1 d = fs d"
    using Some mkdirs_parent(1)[of fs d fs1] by (auto simp: parents_made_def split: if_splits)
  have steps: "can_write env fs d e \<longleftrightarrow> (\<forall>s. \<not> ?fails s)"
  proof
    assume "can_write env fs d e"
    then show "\<forall>s. \<not> ?fails s" using mk
      by (auto simp: can_write_def step_fails_def lookup_uid_def lookup_gid_def split: write_step.split)
  next
    assume no: "\<forall>s. \<not> ?fails s"
    have "\<not> os_fail env s" if "s \<noteq> WLookup" for s using no[rule_format, of s] that by (cases s) (auto simp: step_fails_def)
    moreover have "os_pwd env (fe_uid_name e) \<noteq> None" "os_grp env (fe_gid_name e) \<noteq> None" "\<not> utime_overflows e" "fs d \<noteq> Some Directory"
      using no[rule_format, of WLookup] no[rule_format, of WUtime] no[rule_format, of WRename] mk
      by (auto simp: step_fails_def lookup_uid_def lookup_gid_def split: option.splits)
    ultimately show "can_write env fs d e" using Some by (auto simp: can_write_def)
  qed
  show ?thesis
  proof
    assume "r = Inr ()"
    with out obtain fs2 where r0: "r0 = Inr fs2" "\<not> ?fails WRename" by (cases r0) (auto split: if_splits prod.splits)
    have "\<not> ?fails s" for s
      using run_stages_Inr[OF run[unfolded r0(1)]] write_stages_steps[of s env content e] r0(2) mk(1)
      by (cases "s = WMkdir \<or> s = WRename") (auto simp: step_fails_def)
    then show "can_write env fs d e" using steps by blast
  next
    assume "can_write env fs d e"
    then have no: "\<not> ?fails s" for s using steps by blast
    then obtain fs2 where "r0 = Inr fs2" using run_stages_ok[of "write_stages env content e" ?fails env e "tmp_path d hex" fs1] run by auto
    with out no show "r = Inr ()" by auto
  qed
qed

lemma tmp_hidden:
  assumes "silo_ok root fs" "\<not> has_temp q"
  shows "root @ q \<noteq> tmp_path (root @ ps) hex"
proof (cases "ps = []")
  case True
  have "length (tmp_path root hex) = length root"
    using assms(1) by (cases root rule: rev_cases) (auto simp: tmp_path_def silo_ok_def)
  then have "root @ q = tmp_path root hex \<Longrightarrow> q = []" by (metis append_self_conv length_append add_cancel_right_right length_0_conv)
  then show ?thesis using silo_ok_tmp[OF assms(1), of hex] True by auto
next
  case False
  then have "tmp_path (root @ ps) hex = root @ butlast ps @ [''.chiralite_tmp_'' @ hex]" by (simp add: tmp_path_def butlast_append)
  moreover have "has_temp (butlast ps @ [''.chiralite_tmp_'' @ hex])" by (simp add: is_temp_def starts_with_def)
  ultimately show ?thesis using assms(2) by auto
qed

text \<open>What becomes of the store when nothing is put into it: it stays, or the directories on the way to the path are made.\<close>

definition at_most_parents :: "os_env \<Rightarrow> path \<Rightarrow> file_system \<Rightarrow> file_system \<Rightarrow> bool" where
  "at_most_parents env q st st' \<longleftrightarrow> st' = st \<or> parents_made env st q = Some st'"

definition stored_at :: "os_env \<Rightarrow> path \<Rightarrow> file_node \<Rightarrow> file_system \<Rightarrow> file_system \<Rightarrow> bool" where
  "stored_at env q n st st' \<longleftrightarrow> (\<exists>st1. parents_made env st q = Some st1 \<and> st' = st1(q \<mapsto> Regular n))"

lemma write_store:
  assumes "linkfree root fs" "pj_root jail = root" "plain p"
    and "atomic_write env hex fuel fs jail p content e = (r, sts)"
  defines "q \<equiv> path_parts p"
  shows "r = Inr () \<longleftrightarrow> can_write (env_below root env) (silo_store root fs) q e"
    "r = Inr () \<Longrightarrow> stored_at (env_below root env) q (written_node env content e) (silo_store root fs) (silo_store root (last sts))"
    "r \<noteq> Inr () \<Longrightarrow> at_most_parents (env_below root env) q (silo_store root fs) (silo_store root (last sts))"
proof -
  have p: "safe_path p" "\<not> has_temp q" using assms(3) by (simp_all add: plain_def q_def)
  note land = linkfree_resolve[OF assms(1,2) p(1), folded q_def] linkfree_kernel(1)[OF assms(1) p(1), folded q_def]
  note pm = parents_store[OF assms(1) p(2), of env, symmetric]
  note last = atomic_write_last[OF land assms(4)]
  have ok: "silo_ok root fs" by (rule linkfree_silo_ok[OF assms(1)])
  show "r = Inr () \<longleftrightarrow> can_write (env_below root env) (silo_store root fs) q e"
    using atomic_write_iff[OF land assms(4)] by (simp add: can_write_def pm store_at[OF p(2)])
  have st: "silo_store root (last sts) = (if is_error r then silo_store root fs1 else (silo_store root fs1)(q \<mapsto> Regular (written_node env content e)))"
    if fs1: "parents_made env fs (root @ q) = Some fs1" for fs1
  proof
    fix x
    note last = last[unfolded fs1 option.case]
    show "silo_store root (last sts) x
        = (if is_error r then silo_store root fs1 else (silo_store root fs1)(q \<mapsto> Regular (written_node env content e))) x"
    proof (cases "has_temp x")
      case False
      have ne: "root @ x \<noteq> tmp_path (root @ q) hex" "tmp_path (root @ q) hex \<noteq> root @ q"
        using tmp_hidden[OF ok False, of q hex] tmp_hidden[OF ok p(2), of q hex] by auto
      then show ?thesis using last p(2) False by (cases "x = q") (auto simp: silo_store_def)
    qed (use p(2) in \<open>auto simp: silo_store_def\<close>)
  qed
  show "stored_at (env_below root env) q (written_node env content e) (silo_store root fs) (silo_store root (last sts))" if "r = Inr ()"
    using that last st by (cases "parents_made env fs (root @ q)") (auto simp: stored_at_def pm)
  show "at_most_parents (env_below root env) q (silo_store root fs) (silo_store root (last sts))" if "r \<noteq> Inr ()"
    using that last st by (cases "parents_made env fs (root @ q)"; cases r) (auto simp: at_most_parents_def pm)
qed

section \<open>The specification of a session\<close>

text \<open>The messages of a whole transfer: as many chunks as announced, and the commit.\<close>

definition transfer_of :: "uuid \<Rightarrow> int \<Rightarrow> inbox \<Rightarrow> (int \<times> bytes) list \<Rightarrow> int \<Rightarrow> inbox \<Rightarrow> bool" where
  "transfer_of tid n i pieces h i' \<longleftrightarrow>
     i = map (\<lambda>(s, d). Inr (TransferChunkMsg tid s d)) pieces @ Inr (TransferCommitMsg tid h) # i' \<and> length pieces = nat n"

text \<open>The pieces in the order of their numbers; of two with the same number the later one counts.\<close>

definition payload_of :: "(int \<times> bytes) list \<Rightarrow> bytes" where
  "payload_of pieces = join_chunks (fold (\<lambda>(s, d). dict_set s d) pieces [])"

text \<open>The content a payload stands for: itself, or the change of a file of the store that the index lists with the base hash.\<close>

definition stands_for :: "xdelta \<Rightarrow> SiloIndex \<Rightarrow> file_system \<Rightarrow> FileEntry \<Rightarrow> bytes \<Rightarrow> bytes \<Rightarrow> bool" where
  "stands_for xd ix st e payload content \<longleftrightarrow>
     (if fe_is_full e then content = payload
      else \<exists>h p n. fe_delta_base_rapidhash e = Some h \<and> find_base h (ix_records ix) = Some p
             \<and> st (path_parts p) = Some (Regular n) \<and> apply_delta xd (fn_content n) payload = Inr content)"

definition accepted ::
  "config \<Rightarrow> SiloSession \<Rightarrow> SiloIndex \<Rightarrow> file_system \<Rightarrow> uuid \<Rightarrow> FileEntry \<Rightarrow> int \<Rightarrow> inbox \<Rightarrow> bytes \<Rightarrow> inbox \<Rightarrow> bool" where
  "accepted cf ss ix st tid e n i content i' \<longleftrightarrow>
     (\<exists>pieces. transfer_of tid n i pieces (cf_rapidhash cf content) i' \<and> stands_for (cf_xdelta cf) ix st e (payload_of pieces) content)
     \<and> server_scan cf content = Inr make_clean \<and> owner_ok cf ss e
     \<and> can_write (env_below (root_of ss) (cf_env cf)) st (path_parts (fe_path e)) e"

fun is_file_event :: "audit_event \<Rightarrow> bool" where
  "is_file_event (FileWritten cn sid p) = True"
| "is_file_event (FileDeleted cn sid p) = True"
| "is_file_event (FileRenamed cn sid p q) = True"
| "is_file_event ev = False"

definition spec_delete :: "os_env \<Rightarrow> path \<Rightarrow> file_system \<Rightarrow> bool \<times> file_system" where
  "spec_delete env q st = (case unlink env st q of None \<Rightarrow> (False, st) | Some st' \<Rightarrow> (True, st'))"

definition spec_rename :: "os_env \<Rightarrow> path \<Rightarrow> path \<Rightarrow> file_system \<Rightarrow> bool \<times> file_system" where
  "spec_rename env q1 q2 st =
     (case parents_made env st q2 of
        None \<Rightarrow> (False, st)
      | Some st1 \<Rightarrow> (case os_rename env st1 q1 q2 of None \<Rightarrow> (False, st1) | Some st2 \<Rightarrow> (True, st2)))"

text \<open>\<open>spec_loop cf ss ix i sent st e sent' log st'\<close>: from the store \<open>st\<close>, after the messages \<open>sent\<close>, a session that receives \<open>i\<close> may end with
  the exception \<open>e\<close>, the messages \<open>sent'\<close>, the file events \<open>log\<close> and the store \<open>st'\<close>.  An accepted transfer is stored and logged, and acknowledged unless the send fails, which ends
  the session; any other leaves the store but for missing directories, logs no file event, and is refused or ends the session.\<close>

inductive spec_loop :: "config \<Rightarrow> SiloSession \<Rightarrow> SiloIndex \<Rightarrow> inbox \<Rightarrow> AnyMsg list \<Rightarrow> file_system
    \<Rightarrow> server_exc \<Rightarrow> AnyMsg list \<Rightarrow> audit_event list \<Rightarrow> file_system \<Rightarrow> bool"
  for cf ss ix where
  closed: "spec_loop cf ss ix [] sent st (ExcRecv ConnClosed) sent [] st"
| broken: "spec_loop cf ss ix (Inl e # i) sent st (ExcRecv e) sent [] st"
| ignored: "spec_loop cf ss ix i sent st e sent' log st'
    \<Longrightarrow> msg_type m \<noteq> TRANSFER_BEGIN \<Longrightarrow> msg_type m \<noteq> FILE_DELETE \<Longrightarrow> msg_type m \<noteq> FILE_RENAME
    \<Longrightarrow> spec_loop cf ss ix (Inr m # i) sent st e sent' log st'"
| delete: "spec_delete (env_below (root_of ss) (mo_env (cf_later cf (length i)))) (path_parts p) st = (ok, st1)
    \<Longrightarrow> spec_loop cf ss ix i sent st1 e sent' log st'
    \<Longrightarrow> spec_loop cf ss ix (Inr (FileDeleteMsg p t) # i) sent st e sent'
          ((if ok then [FileDeleted (ss_client_cn ss) (ss_silo_id ss) p] else []) @ log) st'"
| rename: "spec_rename (env_below (root_of ss) (mo_env (cf_later cf (length i)))) (path_parts p) (path_parts q) st = (ok, st1)
    \<Longrightarrow> spec_loop cf ss ix i sent st1 e sent' log st'
    \<Longrightarrow> spec_loop cf ss ix (Inr (FileRenameMsg p q t) # i) sent st e sent'
          ((if ok then [FileRenamed (ss_client_cn ss) (ss_silo_id ss) p q] else []) @ log) st'"
| stored: "accepted (at_message cf (length i)) ss ix st tid en n i content i'
    \<Longrightarrow> stored_at (env_below (root_of ss) (mo_env (cf_later cf (length i)))) (path_parts (fe_path en))
          (written_node (mo_env (cf_later cf (length i))) content en) st st1
    \<Longrightarrow> \<not> cf_send_fails cf (length sent)
    \<Longrightarrow> spec_loop cf ss ix i' (sent @ [TransferAckMsg tid ''CLEAN'']) st1 e sent' log st'
    \<Longrightarrow> spec_loop cf ss ix (Inr (TransferBeginMsg tid en sz n) # i) sent st e sent'
          (FileWritten (ss_client_cn ss) (ss_silo_id ss) (fe_path en) # log) st'"
| stored_unsent: "accepted (at_message cf (length i)) ss ix st tid en n i content i'
    \<Longrightarrow> stored_at (env_below (root_of ss) (mo_env (cf_later cf (length i)))) (path_parts (fe_path en))
          (written_node (mo_env (cf_later cf (length i))) content en) st st1
    \<Longrightarrow> cf_send_fails cf (length sent)
    \<Longrightarrow> spec_loop cf ss ix (Inr (TransferBeginMsg tid en sz n) # i) sent st ExcSend sent
          [FileWritten (ss_client_cn ss) (ss_silo_id ss) (fe_path en)] st1"
| refused: "(\<And>content j. \<not> accepted (at_message cf (length i)) ss ix st tid en n i content j)
    \<Longrightarrow> at_most_parents (env_below (root_of ss) (mo_env (cf_later cf (length i)))) (path_parts (fe_path en)) st st1
    \<Longrightarrow> suffix i' i \<Longrightarrow> \<not> cf_send_fails cf (length sent)
    \<Longrightarrow> spec_loop cf ss ix i' (sent @ [TransferNackMsg tid reason]) st1 e sent' log st'
    \<Longrightarrow> spec_loop cf ss ix (Inr (TransferBeginMsg tid en sz n) # i) sent st e sent' log st'"
| aborted: "(\<And>content j. \<not> accepted (at_message cf (length i)) ss ix st tid en n i content j)
    \<Longrightarrow> at_most_parents (env_below (root_of ss) (mo_env (cf_later cf (length i)))) (path_parts (fe_path en)) st st1
    \<Longrightarrow> spec_loop cf ss ix (Inr (TransferBeginMsg tid en sz n) # i) sent st e sent [] st1"

definition spec_session :: "config \<Rightarrow> SiloSession \<Rightarrow> SiloIndex \<Rightarrow> inbox \<Rightarrow> file_system
    \<Rightarrow> server_exc \<Rightarrow> AnyMsg list \<Rightarrow> audit_event list \<Rightarrow> file_system \<Rightarrow> bool" where
  "spec_session cf ss ix i st e sent log st' \<longleftrightarrow>
     (case server_handle_sync_request ix (case i of [] \<Rightarrow> Inl ConnClosed | r # _ \<Rightarrow> r) of
        (msgs, Inl x) \<Rightarrow> e = ExcReconcile x \<and> sent = msgs \<and> log = [] \<and> st' = st
      | (msgs, Inr _) \<Rightarrow>
          if cf_send_fails cf 0 then e = ExcSend \<and> sent = [] \<and> log = [] \<and> st' = st
          else spec_loop cf ss ix (tl i) msgs st e sent log st')"

section \<open>The handlers refine the specification\<close>

lemma collect_pieces:
  "collect_chunks tid k d i = (Chunks d', i1) \<longleftrightarrow>
     (\<exists>pieces. i = map (\<lambda>(s, b). Inr (TransferChunkMsg tid s b)) pieces @ i1 \<and> length pieces = k \<and> d' = fold (\<lambda>(s, b). dict_set s b) pieces d)"
proof (induction k arbitrary: d i)
  case (Suc k)
  show ?case
  proof (cases "\<exists>s b i0. i = Inr (TransferChunkMsg tid s b) # i0")
    case True
    then obtain s b i0 where i: "i = Inr (TransferChunkMsg tid s b) # i0" by blast
    show ?thesis
    proof
      assume "collect_chunks tid (Suc k) d i = (Chunks d', i1)"
      with Suc[of "dict_set s b d" i0] i obtain pieces where
        "i0 = map (\<lambda>(s, b). Inr (TransferChunkMsg tid s b)) pieces @ i1" "length pieces = k" "d' = fold (\<lambda>(s, b). dict_set s b) pieces (dict_set s b d)"
        by (auto simp: next_msg_def)
      with i show "\<exists>pieces. i = map (\<lambda>(s, b). Inr (TransferChunkMsg tid s b)) pieces @ i1 \<and> length pieces = Suc k \<and> d' = fold (\<lambda>(s, b). dict_set s b) pieces d"
        by (intro exI[of _ "(s, b) # pieces"]) simp
    next
      assume "\<exists>pieces. i = map (\<lambda>(s, b). Inr (TransferChunkMsg tid s b)) pieces @ i1 \<and> length pieces = Suc k \<and> d' = fold (\<lambda>(s, b). dict_set s b) pieces d"
      then obtain pieces where "i = map (\<lambda>(s, b). Inr (TransferChunkMsg tid s b)) ((s, b) # pieces) @ i1" "length pieces = k"
          "d' = fold (\<lambda>(s, b). dict_set s b) ((s, b) # pieces) d" using i by (auto simp: length_Suc_conv)
      with Suc[of "dict_set s b d" i0] i show "collect_chunks tid (Suc k) d i = (Chunks d', i1)" by (auto simp: next_msg_def)
    qed
  next
    case False
    then have "collect_chunks tid (Suc k) d i \<noteq> (Chunks d', i1)"
      by (cases "next_msg i") (auto simp: next_msg_Inr split: sum.splits AnyMsg.splits)
    with False show ?thesis by (auto simp: length_Suc_conv)
  qed
qed auto

definition index_plain :: "SiloIndex \<Rightarrow> bool" where
  "index_plain ix \<longleftrightarrow> list_all (\<lambda>(p, r). plain p) (ix_records ix)"

lemma rebuild_store:
  assumes "linkfree root (sv_fs sv)" "root_of ss = root" "index_plain ix"
  shows "rebuild cf sv ss ix e payload = Inr content \<longleftrightarrow> stands_for (cf_xdelta cf) ix (silo_store root (sv_fs sv)) e payload content"
proof (cases "fe_is_full e")
  case True
  then show ?thesis by (auto simp: rebuild_def reconstruct_def stands_for_def)
next
  case False
  have base: "read_base cf sv ss ix b = Inr c \<longleftrightarrow> (\<exists>h p n. b = Some h \<and> find_base h (ix_records ix) = Some p
      \<and> silo_store root (sv_fs sv) (path_parts p) = Some (Regular n) \<and> fn_content n = c)" for b c
  proof (cases "\<exists>h p. b = Some h \<and> find_base h (ix_records ix) = Some p")
    case True
    then obtain h p where b: "b = Some h" "find_base h (ix_records ix) = Some p" by blast
    then have p: "safe_path p" "\<not> has_temp (path_parts p)" using assms(3) find_base_in[OF b(2), of plain] by (auto simp: index_plain_def plain_def)
    show ?thesis
      by (auto simp: read_base_def b linkfree_resolve[OF assms(1,2) p(1)] linkfree_kernel(2)[OF assms(1) p(1)] store_at[OF p(2)]
          split: option.split node.split)
  qed (auto simp: read_base_def split: option.split)
  show ?thesis
  proof
    assume "rebuild cf sv ss ix e payload = Inr content"
    with False obtain c where "read_base cf sv ss ix (fe_delta_base_rapidhash e) = Inr c" "apply_delta (cf_xdelta cf) c payload = Inr content"
      by (cases "read_base cf sv ss ix (fe_delta_base_rapidhash e)") (auto simp: rebuild_def reconstruct_def map_sum_Inr)
    with False show "stands_for (cf_xdelta cf) ix (silo_store root (sv_fs sv)) e payload content" by (auto simp: stands_for_def base)
  next
    assume "stands_for (cf_xdelta cf) ix (silo_store root (sv_fs sv)) e payload content"
    with False obtain h p n where c: "fe_delta_base_rapidhash e = Some h" "find_base h (ix_records ix) = Some p"
      "silo_store root (sv_fs sv) (path_parts p) = Some (Regular n)" "apply_delta (cf_xdelta cf) (fn_content n) payload = Inr content"
      by (auto simp: stands_for_def)
    then have "read_base cf sv ss ix (fe_delta_base_rapidhash e) = Inr (fn_content n)" using base by blast
    with False c(4) show "rebuild cf sv ss ix e payload = Inr content" by (simp add: rebuild_def reconstruct_def)
  qed
qed

text \<open>What a handler leaves behind when it stored the file, and when it did not.\<close>

definition put_done :: "config \<Rightarrow> SiloSession \<Rightarrow> uuid \<Rightarrow> FileEntry \<Rightarrow> bytes \<Rightarrow> server \<Rightarrow> outcome \<Rightarrow> bool" where
  "put_done cf ss tid en content sv oc \<longleftrightarrow>
     oc_result oc = Inr () \<and> oc_sent oc = [TransferAckMsg tid ''CLEAN'']
     \<and> stored_at (env_below (root_of ss) (cf_env cf)) (path_parts (fe_path en)) (written_node (cf_env cf) content en)
         (silo_store (root_of ss) (sv_fs sv)) (silo_store (root_of ss) (sv_fs (oc_server oc)))
     \<and> sv_audit (oc_server oc) = sv_audit sv @ [FileWritten (ss_client_cn ss) (ss_silo_id ss) (fe_path en)]"

definition put_not :: "config \<Rightarrow> SiloSession \<Rightarrow> uuid \<Rightarrow> FileEntry \<Rightarrow> server \<Rightarrow> outcome \<Rightarrow> bool" where
  "put_not cf ss tid en sv oc \<longleftrightarrow>
     at_most_parents (env_below (root_of ss) (cf_env cf)) (path_parts (fe_path en))
       (silo_store (root_of ss) (sv_fs sv)) (silo_store (root_of ss) (sv_fs (oc_server oc)))
     \<and> (\<exists>evs. sv_audit (oc_server oc) = sv_audit sv @ evs \<and> filter is_file_event evs = [])
     \<and> (oc_result oc = Inr () \<longrightarrow> (\<exists>reason. oc_sent oc = [TransferNackMsg tid reason]))"

lemma put_notI:
  "put_not cf ss tid en sv (finish (Inl x) i [] sv)"
  "put_not cf ss tid en sv (finish (Inr ()) i [TransferNackMsg tid reason] sv)"
  "\<not> is_file_event ev \<Longrightarrow> put_not cf ss tid en sv (finish (Inr ()) i [TransferNackMsg tid reason] (log_audit ev sv))"
  by (simp_all add: put_not_def at_most_parents_def)

lemma store_refines:
  assumes "linkfree (root_of ss) (sv_fs sv)" "plain (fe_path en)" "owner_ok cf ss en"
  shows "if can_write (env_below (root_of ss) (cf_env cf)) (silo_store (root_of ss) (sv_fs sv)) (path_parts (fe_path en)) en
    then put_done cf ss tid en content sv (store_content cf ss tid en content make_clean i sv)
    else put_not cf ss tid en sv (store_content cf ss tid en content make_clean i sv)"
proof -
  obtain r sts where out: "atomic_write (cf_env cf) (cf_tmp_hex cf) (cf_fuel cf) (sv_fs sv) (ss_jail ss) (fe_path en) content en = (r, sts)" by fastforce
  note w = write_store[OF assms(1) refl assms(2) out]
  show ?thesis
  proof (cases "r = Inr ()")
    case True
    then show ?thesis using w assms(3)
      by (simp add: store_content_def out owner_ok_def put_done_def scan_str_def) (simp add: make_clean_def)
  next
    case False
    then obtain err where err: "r = Inl err" by (cases r) auto
    have "at_most_parents (env_below (root_of ss) (cf_env cf)) (path_parts (fe_path en)) (silo_store (root_of ss) (sv_fs sv)) (silo_store (root_of ss) (sv_fs sv))"
      by (simp add: at_most_parents_def)
    with False show ?thesis using w assms(3)
      by (simp add: store_content_def out owner_ok_def err put_not_def split: write_error.split jail_error.split)
  qed
qed

lemma check_refines:
  assumes "linkfree (root_of ss) (sv_fs sv)" "plain (fe_path en)"
  shows "if cf_rapidhash cf content = h \<and> server_scan cf content = Inr make_clean \<and> owner_ok cf ss en
       \<and> can_write (env_below (root_of ss) (cf_env cf)) (silo_store (root_of ss) (sv_fs sv)) (path_parts (fe_path en)) en
    then put_done cf ss tid en content sv (check_content cf ss tid en h content i sv)
    else put_not cf ss tid en sv (check_content cf ss tid en h content i sv)"
proof (cases "cf_rapidhash cf content = h \<and> server_scan cf content = Inr make_clean \<and> owner_ok cf ss en")
  case True
  then have "check_content cf ss tid en h content i sv = store_content cf ss tid en content make_clean i sv"
    by (simp add: check_content_def) (simp add: make_clean_def)
  then show ?thesis using store_refines[OF assms, of cf tid content i] True by simp
next
  case False
  have "put_not cf ss tid en sv (check_content cf ss tid en h content i sv)"
  proof (cases "cf_rapidhash cf content = h")
    case True
    show ?thesis
    proof (cases "server_scan cf content")
      case (Inl x)
      then show ?thesis using True put_notI(1) by (simp add: check_content_def)
    next
      case (Inr scan)
      show ?thesis
      proof (cases "sc_is_clean scan")
        case clean: True
        then have "\<not> owner_ok cf ss en" using False True Inr server_scan_clean[OF Inr clean] by simp
        then show ?thesis using True Inr clean put_notI(3)[of "UidDeniedEvent (ss_client_cn ss) (ss_silo_id ss)"]
          by (auto simp: check_content_def store_content_def owner_ok_def)
      next
        case dirty: False
        then show ?thesis using True Inr put_notI(3)[of "Quarantine (ss_client_cn ss) (ss_silo_id ss) (fe_path en)"]
          by (simp add: check_content_def)
      qed
    qed
  qed (use put_notI(2) in \<open>simp add: check_content_def\<close>)
  with False show ?thesis by auto
qed

lemma transfer_accepted:
  assumes "linkfree (root_of ss) (sv_fs sv)" "plain (fe_path en)" "index_plain ix"
    and acc: "accepted cf ss ix (silo_store (root_of ss) (sv_fs sv)) tid en n i content i'"
  shows "put_done cf ss tid en content sv (handle_transfer cf ss ix tid en n i sv) \<and> oc_inbox (handle_transfer cf ss ix tid en n i sv) = i'"
proof -
  obtain pieces where p: "transfer_of tid n i pieces (cf_rapidhash cf content) i'"
      "rebuild cf sv ss ix en (payload_of pieces) = Inr content"
    using acc rebuild_store[OF assms(1) refl assms(3)] by (auto simp: accepted_def)
  have col: "collect_chunks tid (nat n) [] i
      = (Chunks (fold (\<lambda>(s, b). dict_set s b) pieces []), Inr (TransferCommitMsg tid (cf_rapidhash cf content)) # i')"
    unfolding collect_pieces using p(1) by (intro exI[of _ pieces]) (simp add: transfer_of_def)
  have "safe_path (fe_path en)" using assms(2) by (simp add: plain_def)
  then have "handle_transfer cf ss ix tid en n i sv = check_content cf ss tid en (cf_rapidhash cf content) content i' sv"
    using p(2) by (simp add: handle_transfer_def linkfree_resolve[OF assms(1) refl] col next_msg_def payload_of_def)
  then show ?thesis using check_refines[OF assms(1,2), of cf content "cf_rapidhash cf content" tid i'] acc by (simp add: accepted_def)
qed

lemma transfer_refused:
  assumes "linkfree (root_of ss) (sv_fs sv)" "plain (fe_path en)" "index_plain ix"
    and no: "\<And>content i'. \<not> accepted cf ss ix (silo_store (root_of ss) (sv_fs sv)) tid en n i content i'"
  shows "put_not cf ss tid en sv (handle_transfer cf ss ix tid en n i sv)"
proof -
  have res: "resolve (cf_fuel cf) (sv_fs sv) (ss_jail ss) (fe_path en) = Inr (root_of ss @ path_parts (fe_path en))"
    using linkfree_resolve[OF assms(1) refl] assms(2) by (simp add: plain_def)
  obtain c i1 where col: "collect_chunks tid (nat n) [] i = (c, i1)" by fastforce
  obtain m i2 where nm: "next_msg i1 = (m, i2)" by fastforce
  show ?thesis
  proof (cases "\<exists>d h content. c = Chunks d \<and> m = Inr (TransferCommitMsg tid h) \<and> rebuild cf sv ss ix en (join_chunks d) = Inr content")
    case True
    then obtain d h content where t: "c = Chunks d" "m = Inr (TransferCommitMsg tid h)" "rebuild cf sv ss ix en (join_chunks d) = Inr content" by blast
    then have h: "handle_transfer cf ss ix tid en n i sv = check_content cf ss tid en h content i2 sv"
      by (simp add: handle_transfer_def res col nm)
    obtain pieces where "i = map (\<lambda>(s, b). Inr (TransferChunkMsg tid s b)) pieces @ i1" "length pieces = nat n" "d = fold (\<lambda>(s, b). dict_set s b) pieces []"
      using col t(1) collect_pieces by metis
    moreover have "i1 = Inr (TransferCommitMsg tid h) # i2" using nm t(2) by (simp add: next_msg_Inr)
    ultimately have "transfer_of tid n i pieces h i2" "payload_of pieces = join_chunks d" by (simp_all add: transfer_of_def payload_of_def)
    with no[of content i2] t(3) rebuild_store[OF assms(1) refl assms(3)]
    have "\<not> (cf_rapidhash cf content = h \<and> server_scan cf content = Inr make_clean \<and> owner_ok cf ss en
       \<and> can_write (env_below (root_of ss) (cf_env cf)) (silo_store (root_of ss) (sv_fs sv)) (path_parts (fe_path en)) en)"
      by (auto simp: accepted_def)
    then show ?thesis using check_refines[OF assms(1,2), of cf content h tid i2] h by auto
  next
    case False
    then show ?thesis
      using put_notI(1,2) by (auto simp: handle_transfer_def res col nm split: collected.split sum.split AnyMsg.split base_error.split)
  qed
qed

lemma delete_refines:
  assumes "linkfree (root_of ss) (sv_fs sv)" "plain p" "handle_delete cf ss p sv = (r, sv1)"
  shows "r = Inr () \<and> (\<exists>ok. spec_delete (env_below (root_of ss) (cf_env cf)) (path_parts p) (silo_store (root_of ss) (sv_fs sv))
        = (ok, silo_store (root_of ss) (sv_fs sv1))
      \<and> sv_audit sv1 = sv_audit sv @ (if ok then [FileDeleted (ss_client_cn ss) (ss_silo_id ss) p] else []))"
proof -
  have p: "safe_path p" "\<not> has_temp (path_parts p)" using assms(2) by (simp_all add: plain_def)
  note h = assms(3)[unfolded handle_delete_linkfree[OF assms(1) refl p(1)]]
    and s = spec_delete_def[of "env_below (root_of ss) (cf_env cf)" "path_parts p" "silo_store (root_of ss) (sv_fs sv)", folded unlink_store[OF assms(1) p(2)]]
  show ?thesis
  proof (cases "unlink (cf_env cf) (sv_fs sv) (root_of ss @ path_parts p)")
    case None
    with h show ?thesis unfolding s by (intro conjI exI[of _ False]) auto
  next
    case (Some fs')
    with h show ?thesis unfolding s by (intro conjI exI[of _ True]) auto
  qed
qed

lemma rename_refines:
  assumes "linkfree (root_of ss) (sv_fs sv)" "plain p" "plain q" "handle_rename cf ss p q sv = (r, sv1)"
  shows "r = Inr () \<and> (\<exists>ok. spec_rename (env_below (root_of ss) (cf_env cf)) (path_parts p) (path_parts q) (silo_store (root_of ss) (sv_fs sv))
        = (ok, silo_store (root_of ss) (sv_fs sv1))
      \<and> sv_audit sv1 = sv_audit sv @ (if ok then [FileRenamed (ss_client_cn ss) (ss_silo_id ss) p q] else []))"
proof -
  have p: "safe_path p" "\<not> has_temp (path_parts p)" "safe_path q" "\<not> has_temp (path_parts q)" using assms(2,3) by (simp_all add: plain_def)
  note h = assms(4)[unfolded handle_rename_linkfree[OF assms(1) refl p(1,3)]]
    and s = spec_rename_def[of "env_below (root_of ss) (cf_env cf)" _ "path_parts q" "silo_store (root_of ss) (sv_fs sv)", folded parents_store[OF assms(1) p(4)]]
    and ren = rename_store[OF p(2,4), of "root_of ss" "cf_env cf", symmetric]
  show ?thesis
  proof (cases "parents_made (cf_env cf) (sv_fs sv) (root_of ss @ path_parts q)")
    case None
    with h show ?thesis unfolding s by (intro conjI exI[of _ False]) auto
  next
    case (Some fs1)
    show ?thesis
    proof (cases "os_rename (cf_env cf) fs1 (root_of ss @ path_parts p) (root_of ss @ path_parts q)")
      case None
      with h Some show ?thesis unfolding s by (intro conjI exI[of _ False]) (auto simp: ren)
    next
      case (Some fs2)
      with h \<open>parents_made _ _ _ = _\<close> show ?thesis unfolding s by (intro conjI exI[of _ True]) (auto simp: ren)
    qed
  qed
qed

section \<open>Sessions refine the specification\<close>

definition inbox_plain :: "inbox \<Rightarrow> bool" where
  "inbox_plain i \<longleftrightarrow> (\<forall>m. Inr m \<in> set i \<longrightarrow> (\<forall>p \<in> set (msg_paths m). plain p))"

lemma inbox_plain_Cons: "inbox_plain (Inr m # i) \<longleftrightarrow> (\<forall>p \<in> set (msg_paths m). plain p) \<and> inbox_plain i"
  by (auto simp: inbox_plain_def)

lemma inbox_plain_subset: "inbox_plain i \<Longrightarrow> set j \<subseteq> set i \<Longrightarrow> inbox_plain j"
  by (auto simp: inbox_plain_def)

text \<open>The file events of a session, and what the specification makes of its store.\<close>

definition loop_refines ::
  "config \<Rightarrow> SiloSession \<Rightarrow> SiloIndex \<Rightarrow> inbox \<Rightarrow> AnyMsg list \<Rightarrow> server \<Rightarrow> server_exc \<times> AnyMsg list \<times> server \<Rightarrow> bool" where
  "loop_refines cf ss ix i sent sv out \<longleftrightarrow>
     (\<exists>evs. sv_audit (snd (snd out)) = sv_audit sv @ evs
        \<and> spec_loop cf ss ix i sent (silo_store (root_of ss) (sv_fs sv)) (fst out) (fst (snd out)) (filter is_file_event evs)
            (silo_store (root_of ss) (sv_fs (snd (snd out)))))"

lemma at_message_config [simp]: "cf_rapidhash (at_message cf n) = cf_rapidhash cf" "cf_xdelta (at_message cf n) = cf_xdelta cf"
  by (simp_all add: at_message_def)

lemma loop_refinesI:
  assumes "loop_refines cf ss ix i' sent' sv1 out" "sv_audit sv1 = sv_audit sv @ evs"
    and "\<And>log. spec_loop cf ss ix i' sent' (silo_store (root_of ss) (sv_fs sv1)) (fst out) (fst (snd out)) log (silo_store (root_of ss) (sv_fs (snd (snd out))))
      \<Longrightarrow> spec_loop cf ss ix i sent (silo_store (root_of ss) (sv_fs sv)) (fst out) (fst (snd out)) (filter is_file_event evs @ log)
            (silo_store (root_of ss) (sv_fs (snd (snd out))))"
  shows "loop_refines cf ss ix i sent sv out"
proof -
  obtain evs2 where e: "sv_audit (snd (snd out)) = sv_audit sv1 @ evs2"
      "spec_loop cf ss ix i' sent' (silo_store (root_of ss) (sv_fs sv1)) (fst out) (fst (snd out)) (filter is_file_event evs2) (silo_store (root_of ss) (sv_fs (snd (snd out))))"
    using assms(1) by (auto simp: loop_refines_def)
  from assms(3)[OF e(2)] e(1) assms(2) show ?thesis unfolding loop_refines_def by (intro exI[of _ "evs @ evs2"]) simp
qed

lemma transfer_step_refines:
  assumes "linkfree (root_of ss) (sv_fs sv)" "plain (fe_path en)" "index_plain ix"
    and oc: "oc = handle_transfer (at_message cf (length i)) ss ix tid en n i sv"
    and out: "out = (case oc_result oc of Inl e \<Rightarrow> (e, sent, oc_server oc)
      | Inr _ \<Rightarrow> if cf_send_fails cf (length sent) then (ExcSend, sent, oc_server oc)
                 else serve_loop cf ss ix (oc_inbox oc) (sent @ oc_sent oc) (oc_server oc))"
    and IH: "oc_result oc = Inr () \<Longrightarrow> \<not> cf_send_fails cf (length sent) \<Longrightarrow>
      loop_refines cf ss ix (oc_inbox oc) (sent @ oc_sent oc) (oc_server oc) (serve_loop cf ss ix (oc_inbox oc) (sent @ oc_sent oc) (oc_server oc))"
  shows "loop_refines cf ss ix (Inr (TransferBeginMsg tid en sz n) # i) sent sv out"
proof (cases "\<exists>content i'. accepted (at_message cf (length i)) ss ix (silo_store (root_of ss) (sv_fs sv)) tid en n i content i'")
  case True
  then obtain content i' where acc: "accepted (at_message cf (length i)) ss ix (silo_store (root_of ss) (sv_fs sv)) tid en n i content i'" by blast
  from transfer_accepted[OF assms(1-3) acc] oc have d: "put_done (at_message cf (length i)) ss tid en content sv oc" "oc_inbox oc = i'" by simp_all
  show ?thesis
  proof (cases "cf_send_fails cf (length sent)")
    case True
    with d out spec_loop.stored_unsent[OF acc] show ?thesis unfolding loop_refines_def
      by (intro exI[of _ "[FileWritten (ss_client_cn ss) (ss_silo_id ss) (fe_path en)]"]) (simp add: put_done_def)
  next
    case False
    with d out have o: "out = serve_loop cf ss ix (oc_inbox oc) (sent @ oc_sent oc) (oc_server oc)" "oc_result oc = Inr ()" by (simp_all add: put_done_def)
    show ?thesis
      by (rule loop_refinesI[OF IH[OF o(2) False, folded o(1)]])
        (use d spec_loop.stored[OF acc _ False] in \<open>auto simp: put_done_def\<close>)
  qed
next
  case False
  then have no: "\<not> accepted (at_message cf (length i)) ss ix (silo_store (root_of ss) (sv_fs sv)) tid en n i content j" for content j by blast
  from transfer_refused[OF assms(1-3) no] oc have d: "put_not (at_message cf (length i)) ss tid en sv oc" by simp
  then obtain evs where evs: "sv_audit (oc_server oc) = sv_audit sv @ evs" "filter is_file_event evs = []" by (auto simp: put_not_def)
  have amp: "at_most_parents (env_below (root_of ss) (mo_env (cf_later cf (length i)))) (path_parts (fe_path en)) (silo_store (root_of ss) (sv_fs sv)) (silo_store (root_of ss) (sv_fs (oc_server oc)))"
    using d by (simp add: put_not_def)
  show ?thesis
  proof (cases "is_error (oc_result oc) \<or> cf_send_fails cf (length sent)")
    case True
    then have "snd (snd out) = oc_server oc" "fst (snd out) = sent" using out by (auto split: sum.splits)
    then show ?thesis unfolding loop_refines_def using evs spec_loop.aborted[OF no amp] by (intro exI[of _ evs]) simp
  next
    case F: False
    then have r: "oc_result oc = Inr ()" "\<not> cf_send_fails cf (length sent)" by (cases "oc_result oc"; simp)+
    then have o: "out = serve_loop cf ss ix (oc_inbox oc) (sent @ oc_sent oc) (oc_server oc)" using out by simp
    obtain reason where reason: "oc_sent oc = [TransferNackMsg tid reason]" using d r(1) by (auto simp: put_not_def)
    have sub: "suffix (oc_inbox oc) i" unfolding oc by (rule handle_transfer_suffix)
    show ?thesis
      by (rule loop_refinesI[OF IH[OF r, folded o] evs(1)]) (use spec_loop.refused[OF no amp sub r(2)] evs(2) reason in simp)
  qed
qed

lemma loop_refines_spec:
  assumes "linkfree (root_of ss) (sv_fs sv)" "index_plain ix" "inbox_plain i"
  shows "loop_refines cf ss ix i sent sv (serve_loop cf ss ix i sent sv)"
  using assms
proof (induction cf ss ix i sent sv rule: serve_loop.induct)
  case (1 cf ss ix sent sv)
  show ?case by (auto simp: loop_refines_def intro: spec_loop.closed)
next
  case (2 cf ss ix e i sent sv)
  show ?case by (auto simp: loop_refines_def intro: spec_loop.broken)
next
  case (3 cf ss ix m i sent sv)
  let ?cf = "at_message cf (length i)"
  have pl: "\<forall>p \<in> set (msg_paths m). plain p" "inbox_plain i" using "3.prems"(3) by (simp_all add: inbox_plain_Cons)
  then have safe: "\<forall>p \<in> set (msg_paths m). safe_path p" by (auto simp: plain_def)
  have skip: "loop_refines cf ss ix (Inr m # i) sent sv (serve_loop cf ss ix i sent sv)"
    if "loop_refines cf ss ix i sent sv (serve_loop cf ss ix i sent sv)"
      "msg_type m \<noteq> TRANSFER_BEGIN" "msg_type m \<noteq> FILE_DELETE" "msg_type m \<noteq> FILE_RENAME"
    by (rule loop_refinesI[OF that(1), of _ "[]"]) (use that(2-4) in \<open>auto intro: spec_loop.ignored\<close>)
  show ?case
  proof (cases m)
    case (TransferBeginMsg tid en sz n)
    define oc where "oc = handle_transfer ?cf ss ix tid en n i sv"
    have p: "plain (fe_path en)" "safe_path (fe_path en)" using pl(1) safe TransferBeginMsg by simp_all
    have lf: "linkfree (root_of ss) (sv_fs (oc_server oc))" unfolding oc_def by (rule transfer_linkfree[OF "3.prems"(1) refl p(2)])
    have sub: "inbox_plain (oc_inbox oc)" using inbox_plain_subset[OF pl(2)] handle_transfer_subset by (simp add: oc_def)
    have "serve_loop cf ss ix (Inr m # i) sent sv = (case oc_result oc of Inl e \<Rightarrow> (e, sent, oc_server oc)
      | Inr _ \<Rightarrow> if cf_send_fails cf (length sent) then (ExcSend, sent, oc_server oc)
                 else serve_loop cf ss ix (oc_inbox oc) (sent @ oc_sent oc) (oc_server oc))"
      by (simp only: serve_loop.simps TransferBeginMsg AnyMsg.case Let_def flip: oc_def)
    from transfer_step_refines[OF "3.prems"(1) p(1) "3.prems"(2) oc_def this "3.IH"(15)[OF TransferBeginMsg oc_def _ _ lf "3.prems"(2) sub]]
    show ?thesis by (simp add: TransferBeginMsg)
  next
    case (FileDeleteMsg p t)
    obtain r sv1 where h: "handle_delete ?cf ss p sv = (r, sv1)" by fastforce
    have p: "plain p" "safe_path p" using pl(1) safe FileDeleteMsg by simp_all
    have lf: "linkfree (root_of ss) (sv_fs sv1)" using delete_linkfree[OF "3.prems"(1) refl p(2), of ?cf] h by simp
    obtain ok where ok: "r = Inr ()" "spec_delete (env_below (root_of ss) (mo_env (cf_later cf (length i)))) (path_parts p) (silo_store (root_of ss) (sv_fs sv))
          = (ok, silo_store (root_of ss) (sv_fs sv1))"
        "sv_audit sv1 = sv_audit sv @ (if ok then [FileDeleted (ss_client_cn ss) (ss_silo_id ss) p] else [])"
      using delete_refines[OF "3.prems"(1) p(1) h] by auto
    have "loop_refines cf ss ix (Inr (FileDeleteMsg p t) # i) sent sv (serve_loop cf ss ix i sent sv1)"
      by (rule loop_refinesI[OF "3.IH"(10)[OF FileDeleteMsg h[symmetric] ok(1) lf "3.prems"(2) pl(2)] ok(3)])
        (use spec_loop.delete[OF ok(2)] in \<open>auto split: if_splits\<close>)
    then show ?thesis using h ok(1) by (simp add: FileDeleteMsg)
  next
    case (FileRenameMsg p q t)
    obtain r sv1 where h: "handle_rename ?cf ss p q sv = (r, sv1)" by fastforce
    have p: "plain p" "plain q" "safe_path p" "safe_path q" using pl(1) safe FileRenameMsg by simp_all
    have lf: "linkfree (root_of ss) (sv_fs sv1)" using rename_linkfree[OF "3.prems"(1) refl p(3,4), of ?cf] h by simp
    obtain ok where ok: "r = Inr ()" "spec_rename (env_below (root_of ss) (mo_env (cf_later cf (length i)))) (path_parts p) (path_parts q) (silo_store (root_of ss) (sv_fs sv))
          = (ok, silo_store (root_of ss) (sv_fs sv1))"
        "sv_audit sv1 = sv_audit sv @ (if ok then [FileRenamed (ss_client_cn ss) (ss_silo_id ss) p q] else [])"
      using rename_refines[OF "3.prems"(1) p(1,2) h] by auto
    have "loop_refines cf ss ix (Inr (FileRenameMsg p q t) # i) sent sv (serve_loop cf ss ix i sent sv1)"
      by (rule loop_refinesI[OF "3.IH"(11)[OF FileRenameMsg h[symmetric] ok(1) lf "3.prems"(2) pl(2)] ok(3)])
        (use spec_loop.rename[OF ok(2)] in \<open>auto split: if_splits\<close>)
    then show ?thesis using h ok(1) by (simp add: FileRenameMsg)
  qed (use skip "3.IH"(1-9,12-14,16-23) "3.prems"(1,2) pl(2) in simp_all)
qed

definition session_index :: "server \<Rightarrow> uuid \<Rightarrow> SiloIndex" where
  "session_index sv sid = (case dict_get (sv_indexes sv) sid of Some ix \<Rightarrow> ix | None \<Rightarrow> new_SiloIndex sid ''server'')"



end
