(* ===== verification/Lifecycle.thy ===== *)
theory Lifecycle
  imports Client
begin

text \<open>
  Starting and stopping: the listeners of \<^verbatim>\<open>transport/websocket.py\<close> and \<^verbatim>\<open>server.py\<close>, the connection a
  \<open>WebSocketClient\<close> keeps, the tasks of \<^verbatim>\<open>client.py\<close> and the observer of \<^verbatim>\<open>sync/watcher.py\<close>.  What binding a
  socket, connecting and setting up the HTTP application return is an argument, so every call can fail.
  A program that acquires and releases sockets is an instance of \<open>scoped_resource\<close>.
\<close>

section \<open>The sockets of the machine\<close>

text \<open>Open sockets by handle, with the ports of a listener.\<close>

record host =
  ho_sockets :: "(nat, int list) dict"
  ho_next :: nat

definition host_ok :: "host \<Rightarrow> bool" where
  "host_ok h \<longleftrightarrow> fst ` set (ho_sockets h) \<subseteq> {..<ho_next h}"

definition host_open :: "string + int list \<Rightarrow> host \<Rightarrow> (string + nat) \<times> host" where
  "host_open outcome h =
     (case outcome of
        Inl e \<Rightarrow> (Inl e, h)
      | Inr ports \<Rightarrow> (Inr (ho_next h),
          \<lparr>ho_sockets = dict_set (ho_next h) ports (ho_sockets h), ho_next = Suc (ho_next h)\<rparr>))"

definition host_shut :: "nat \<Rightarrow> host \<Rightarrow> host" where
  "host_shut k h = h\<lparr>ho_sockets := dict_del k (ho_sockets h)\<rparr>"

lemma host_open_Inl: "host_open o1 h = (Inl e, h1) \<Longrightarrow> h1 = h"
  by (auto simp: host_open_def split: sum.splits)

lemma host_open_Inr:
  assumes "host_ok h" "host_open o1 h = (Inr k, h1)"
  shows "k = ho_next h" "ho_next h1 = Suc k" "\<exists>ports. o1 = Inr ports \<and> ho_sockets h1 = ho_sockets h @ [(k, ports)]"
proof -
  have "ho_next h \<notin> fst ` set (ho_sockets h)" using assms(1) unfolding host_ok_def by blast
  with assms(2) show "k = ho_next h" "ho_next h1 = Suc k"
    "\<exists>ports. o1 = Inr ports \<and> ho_sockets h1 = ho_sockets h @ [(k, ports)]"
    by (auto simp: host_open_def dict_set_new split: sum.splits)
qed

lemma host_open_ok:
  assumes "host_ok h" "host_open o1 h = (r, h1)"
  shows "host_ok h1"
proof (cases r)
  case (Inr k)
  with assms(2) have "host_open o1 h = (Inr k, h1)" by simp
  from host_open_Inr[OF assms(1) this] assms(1) show ?thesis by (fastforce simp: host_ok_def image_subset_iff)
qed (use assms in \<open>auto dest: host_open_Inl\<close>)

lemma host_shut_ok: "host_ok h \<Longrightarrow> host_ok (host_shut k h)"
  unfolding host_ok_def host_shut_def by (simp del: image_subset_iff) blast

lemma host_shut_last:
  assumes "host_ok h" "ho_next h \<le> k" "ho_sockets h1 = ho_sockets h @ (k, ports) # rest" "k \<notin> fst ` set rest"
  shows "ho_sockets (host_shut k h1) = ho_sockets h @ rest"
proof -
  have "k \<notin> fst ` set (ho_sockets h)" using assms(1,2) by (auto simp: host_ok_def)
  with assms(3,4) show ?thesis
    by (simp add: host_shut_def AList.delete_eq filter_id_conv image_iff case_prod_unfold)
qed

lemma host_open_shut:
  assumes "host_ok h" "host_open o1 h = (Inr k, h1)"
  shows "ho_sockets (host_shut k h1) = ho_sockets h"
  using host_open_Inr[OF assms] host_shut_last[OF assms(1), of k h1 _ "[]"] by auto

lemma host_open_shut_ok: "host_ok h \<Longrightarrow> host_open o1 h = (Inr k, h1) \<Longrightarrow> host_ok (host_shut k h1)"
  using host_open_ok host_shut_ok by blast

text \<open>What is opened and shut again leaves the sockets of the machine as they were, in every round.\<close>

locale scoped_resource =
  fixes acquire :: "'x \<Rightarrow> host \<times> 's \<Rightarrow> host \<times> 's"
    and release :: "host \<times> 's \<Rightarrow> host \<times> 's"
    and idle :: "'s \<Rightarrow> bool"
  assumes release_ok: "host_ok h \<Longrightarrow> idle s \<Longrightarrow> release (acquire x (h, s)) = (h', s') \<Longrightarrow> host_ok h' \<and> idle s'"
    and release_all: "host_ok h \<Longrightarrow> idle s \<Longrightarrow> release (acquire x (h, s)) = (h', s') \<Longrightarrow> ho_sockets h' = ho_sockets h"
begin

lemma rounds_release_all:
  "host_ok h \<Longrightarrow> idle s \<Longrightarrow> fold (\<lambda>x. release \<circ> acquire x) xs (h, s) = (h', s')
    \<Longrightarrow> ho_sockets h' = ho_sockets h \<and> host_ok h' \<and> idle s'"
proof (induction xs arbitrary: h s)
  case (Cons x xs)
  obtain h1 s1 where r: "release (acquire x (h, s)) = (h1, s1)" by fastforce
  with Cons.prems(1,2) have "host_ok h1 \<and> idle s1" "ho_sockets h1 = ho_sockets h"
    using release_ok release_all by blast+
  with Cons.IH[of h1 s1] Cons.prems(3) r show ?case by simp
qed simp

end

section \<open>WebSocketServer\<close>

datatype lifecycle_error = ListenFailed string | WsNotStarted | WsNoSockets | ServerNotStarted

record WebSocketServer =
  wss_host :: string
  wss_port :: int
  wss_tls :: bool
  wss_server :: "nat option"

definition WebSocketServer_new :: "string \<Rightarrow> int \<Rightarrow> bool \<Rightarrow> WebSocketServer" where
  "WebSocketServer_new host port tls = \<lparr>wss_host = host, wss_port = port, wss_tls = tls, wss_server = None\<rparr>"

definition wss_serve :: "string + int list \<Rightarrow> host \<times> WebSocketServer \<Rightarrow> (lifecycle_error + unit) \<times> host \<times> WebSocketServer" where
  "wss_serve outcome x =
     (case x of (h, ws) \<Rightarrow>
        case host_open outcome h of
          (Inl e, h1) \<Rightarrow> (Inl (ListenFailed e), h1, ws)
        | (Inr k, h1) \<Rightarrow> (Inr (), h1, ws\<lparr>wss_server := Some k\<rparr>))"

definition wss_close :: "host \<times> WebSocketServer \<Rightarrow> host \<times> WebSocketServer" where
  "wss_close x =
     (case x of (h, ws) \<Rightarrow>
        case wss_server ws of None \<Rightarrow> (h, ws) | Some k \<Rightarrow> (host_shut k h, ws\<lparr>wss_server := None\<rparr>))"

definition wss_port_property :: "host \<Rightarrow> WebSocketServer \<Rightarrow> lifecycle_error + int" where
  "wss_port_property h ws =
     (case wss_server ws of
        None \<Rightarrow> Inl WsNotStarted
      | Some k \<Rightarrow> (case dict_get (ho_sockets h) k of Some (p # _) \<Rightarrow> Inr p | _ \<Rightarrow> Inl WsNoSockets))"

text \<open>\<^verbatim>\<open>_dispatch\<close>: what becomes of the end of a handler.  A cancellation is not an \<^verbatim>\<open>Exception\<close> and passes; the
  log line of an error is the address.\<close>

datatype handler_end = HandlerReturned | HandlerClosed | HandlerError string | HandlerCancelled

definition ws_dispatch :: "(string \<times> nat) option \<Rightarrow> (string \<Rightarrow> handler_end) \<Rightarrow> bool \<times> string list" where
  "ws_dispatch remote handler =
     (let addr = (case remote of Some (host, port) \<Rightarrow> host @ '':'' @ show_nat port | None \<Rightarrow> ''unknown'')
      in case handler addr of
           HandlerReturned \<Rightarrow> (True, [])
         | HandlerClosed \<Rightarrow> (True, [])
         | HandlerError e \<Rightarrow> (True, [addr])
         | HandlerCancelled \<Rightarrow> (False, []))"

interpretation ws_server: scoped_resource "\<lambda>x s. snd (wss_serve x s)" wss_close "\<lambda>ws. wss_server ws = None"
  by unfold_locales
    (auto simp: wss_serve_def wss_close_def dest: host_open_shut_ok host_open_shut host_open_Inl
      split: prod.splits sum.splits option.splits)

text \<open>No exception of a handler reaches the server; only a cancellation does.\<close>

lemma ws_dispatch_contains:
  "fst (ws_dispatch None handler) \<longleftrightarrow> handler ''unknown'' \<noteq> HandlerCancelled"
  "fst (ws_dispatch (Some (host, port)) handler) \<longleftrightarrow> handler (host @ '':'' @ show_nat port) \<noteq> HandlerCancelled"
  by (simp_all add: ws_dispatch_def Let_def split: handler_end.split)

section \<open>ChiraliteServer\<close>

text \<open>The fields \<^verbatim>\<open>start\<close> and \<^verbatim>\<open>stop\<close> use; the runner of the HTTP application holds the sockets of its sites.\<close>

record server_life =
  sl_host :: string
  sl_port :: int
  sl_http_port :: "int option"
  sl_ws_server :: "WebSocketServer option"
  sl_http_runner :: "nat list option"

definition ChiraliteServer_new :: "string \<Rightarrow> int \<Rightarrow> int option \<Rightarrow> server_life" where
  "ChiraliteServer_new host port http =
     \<lparr>sl_host = host, sl_port = port, sl_http_port = http, sl_ws_server = None, sl_http_runner = None\<rparr>"

record start_outcome =
  so_ws :: "string + int list"
  so_setup :: "string option"
  so_http :: "string + int list"

definition server_start :: "start_outcome \<Rightarrow> host \<times> server_life \<Rightarrow> (lifecycle_error + unit) \<times> host \<times> server_life" where
  "server_start so x =
     (case x of (h, sv) \<Rightarrow>
        case wss_serve (so_ws so) (h, WebSocketServer_new (sl_host sv) (sl_port sv) False) of
          (Inl e, h1, ws) \<Rightarrow> (Inl e, h1, sv\<lparr>sl_ws_server := Some ws\<rparr>)
        | (Inr _, h1, ws) \<Rightarrow>
            (let sv1 = sv\<lparr>sl_ws_server := Some ws\<rparr>
             in case sl_http_port sv of
                  None \<Rightarrow> (Inr (), h1, sv1)
                | Some _ \<Rightarrow>
                    (case so_setup so of
                       Some e \<Rightarrow> (Inl (ListenFailed e), h1, sv1\<lparr>sl_http_runner := Some []\<rparr>)
                     | None \<Rightarrow>
                         (case host_open (so_http so) h1 of
                            (Inl e, h2) \<Rightarrow> (Inl (ListenFailed e), h2, sv1\<lparr>sl_http_runner := Some []\<rparr>)
                          | (Inr k, h2) \<Rightarrow> (Inr (), h2, sv1\<lparr>sl_http_runner := Some [k]\<rparr>)))))"

definition server_stop :: "host \<times> server_life \<Rightarrow> host \<times> server_life" where
  "server_stop x =
     (case x of (h, sv) \<Rightarrow>
        let (h1, sv1) =
          (case sl_ws_server sv of
             None \<Rightarrow> (h, sv)
           | Some ws \<Rightarrow> (case wss_close (h, ws) of (h', ws') \<Rightarrow> (h', sv\<lparr>sl_ws_server := Some ws'\<rparr>)))
        in case sl_http_runner sv1 of
             None \<Rightarrow> (h1, sv1)
           | Some ks \<Rightarrow> (fold host_shut ks h1, sv1\<lparr>sl_http_runner := None\<rparr>))"

definition server_port :: "host \<Rightarrow> server_life \<Rightarrow> lifecycle_error + int" where
  "server_port h sv =
     (case sl_ws_server sv of None \<Rightarrow> Inl ServerNotStarted | Some ws \<Rightarrow> wss_port_property h ws)"

definition server_idle :: "server_life \<Rightarrow> bool" where
  "server_idle sv \<longleftrightarrow>
     (case sl_ws_server sv of None \<Rightarrow> True | Some ws \<Rightarrow> wss_server ws = None) \<and> sl_http_runner sv = None"

lemma server_start_stop:
  assumes "host_ok h" "server_idle sv" "server_stop (snd (server_start so (h, sv))) = (h', sv')"
  shows "ho_sockets h' = ho_sockets h \<and> host_ok h' \<and> server_idle sv'"
proof (cases "host_open (so_ws so) h")
  case (Pair r h1)
  show ?thesis
  proof (cases r)
    case (Inl e)
    with Pair assms host_open_Inl[of "so_ws so" h e h1] show ?thesis
      by (auto simp: server_start_def server_stop_def wss_serve_def wss_close_def server_idle_def WebSocketServer_new_def)
  next
    case (Inr k)
    with Pair have k: "host_open (so_ws so) h = (Inr k, h1)" by simp
    note k1 = host_open_Inr[OF assms(1) k] host_open_ok[OF assms(1) k] host_open_shut[OF assms(1) k]
    show ?thesis
    proof (cases "sl_http_port sv = None \<or> so_setup so \<noteq> None \<or> is_error (fst (host_open (so_http so) h1))")
      case True
      with k1 k assms host_open_Inl[of "so_http so" h1] show ?thesis
        by (auto simp: server_start_def server_stop_def wss_serve_def wss_close_def server_idle_def Let_def
            WebSocketServer_new_def host_shut_ok split: option.splits prod.splits sum.splits)
    next
      case False
      then obtain p k2 h2 where s: "sl_http_port sv = Some p" "so_setup so = None" "host_open (so_http so) h1 = (Inr k2, h2)"
        by (cases "host_open (so_http so) h1"; cases "fst (host_open (so_http so) h1)") auto
      note k2 = host_open_Inr[OF k1(4) s(3)] host_open_ok[OF k1(4) s(3)]
      from k1(1-3) k2(1,3) obtain ps qs where two: "ho_sockets h2 = ho_sockets h @ (k, ps) # [(k2, qs)]" "k2 = Suc k" by auto
      have "ho_sockets (host_shut k h2) = ho_sockets h @ [(k2, qs)]"
        using host_shut_last[OF assms(1) _ two(1)] two(2) k1(1) by simp
      then have "ho_sockets (host_shut k2 (host_shut k h2)) = ho_sockets h"
        using host_shut_last[OF assms(1), of k2 "host_shut k h2" qs "[]"] two(2) k1(1) by simp
      with k s k2(4) assms show ?thesis
        by (auto simp: server_start_def server_stop_def wss_serve_def wss_close_def server_idle_def Let_def
            WebSocketServer_new_def host_shut_ok)
    qed
  qed
qed

interpretation chiralite_server: scoped_resource "\<lambda>so s. snd (server_start so s)" server_stop server_idle
  using server_start_stop by unfold_locales blast+

text \<open>C37: whatever happens while the server starts, stopping it closes everything it opened.  The bind of the
  WebSocket port, the set-up of the HTTP application and the bind of its port can each fail; after any number of
  rounds of \<^verbatim>\<open>start\<close> and \<^verbatim>\<open>stop\<close> the machine has exactly the sockets it had before, and asking for the port is an
  error.  After a start that returns, the port is the one the system gave.\<close>

theorem restarts_leave_nothing_open:
  assumes "host_ok h"
    and "fold (\<lambda>so x. server_stop (snd (server_start so x))) sos (h, ChiraliteServer_new ad port http) = (h1, sv1)"
    and "server_start so (h1, sv1) = (r, h2, sv2)"
  shows "ho_sockets h1 = ho_sockets h \<and> is_error (server_port h1 sv1)
    \<and> (r = Inr () \<longrightarrow> (case so_ws so of Inr (p # _) \<Rightarrow> server_port h2 sv2 = Inr p | Inr [] \<Rightarrow> server_port h2 sv2 = Inl WsNoSockets
         | Inl _ \<Rightarrow> False))"
proof -
  have "fold (\<lambda>so. server_stop \<circ> (\<lambda>x. snd (server_start so x))) sos (h, ChiraliteServer_new ad port http) = (h1, sv1)"
    using assms(2) by (simp add: comp_def)
  from chiralite_server.rounds_release_all[OF assms(1) _ this]
  have i: "ho_sockets h1 = ho_sockets h" "host_ok h1" "server_idle sv1"
    by (simp_all add: server_idle_def ChiraliteServer_new_def)
  have "is_error (server_port h1 sv1)"
    using i(3) by (auto simp: server_idle_def server_port_def wss_port_property_def split: option.splits)
  moreover have "case so_ws so of Inr (p # _) \<Rightarrow> server_port h2 sv2 = Inr p | Inr [] \<Rightarrow> server_port h2 sv2 = Inl WsNoSockets
      | Inl _ \<Rightarrow> False" if "r = Inr ()"
    using assms(3) that
    by (auto simp: server_start_def wss_serve_def host_open_def server_port_def wss_port_property_def Let_def
        split: sum.splits option.splits list.splits)
  ultimately show ?thesis using i(1) by blast
qed

theorem restarts_leave_nothing_open_witness:
  "server_port \<lparr>ho_sockets = [(0, [22]), (3, [8765]), (4, [8080])], ho_next = 5\<rparr>
     (snd (snd (server_start \<lparr>so_ws = Inr [8765], so_setup = None, so_http = Inr [8080]\<rparr>
        (\<lparr>ho_sockets = [(0, [22])], ho_next = 3\<rparr>, (ChiraliteServer_new ''::'' 0 (Some 0))\<lparr>sl_ws_server := Some (WebSocketServer_new ''::'' 0 False)\<rparr>)))) = Inr 8765"
proof -
  let ?h = "\<lparr>ho_sockets = [(0, [22])], ho_next = 1\<rparr> :: host" and ?h1 = "\<lparr>ho_sockets = [(0, [22])], ho_next = 3\<rparr> :: host"
  let ?so = "\<lparr>so_ws = Inr [8765], so_setup = None, so_http = Inr [8080]\<rparr> :: start_outcome"
  let ?fail = "?so\<lparr>so_http := Inl ''in use''\<rparr>"
  let ?sv = "ChiraliteServer_new ''::'' 0 (Some 0)"
  let ?sv1 = "?sv\<lparr>sl_ws_server := Some (WebSocketServer_new ''::'' 0 False)\<rparr>"
  have ok: "host_ok ?h" by (simp add: host_ok_def)
  note ev = server_start_def server_stop_def wss_serve_def wss_close_def host_open_def host_shut_def
    ChiraliteServer_new_def WebSocketServer_new_def
  have run: "fold (\<lambda>so x. server_stop (snd (server_start so x))) [?fail, ?fail] (?h, ?sv) = (?h1, ?sv1)"
    by (simp add: ev)
  have start: "server_start ?so (?h1, ?sv1) = (Inr (), \<lparr>ho_sockets = [(0, [22]), (3, [8765]), (4, [8080])], ho_next = 5\<rparr>,
      ?sv1\<lparr>sl_ws_server := Some (WebSocketServer_new ''::'' 0 False\<lparr>wss_server := Some 3\<rparr>), sl_http_runner := Some [4]\<rparr>)"
    by (simp add: ev)
  from restarts_leave_nothing_open[OF ok run start] show ?thesis by (simp add: start)
qed

text \<open>The listener of a first start is lost when \<^verbatim>\<open>start\<close> is called again before \<^verbatim>\<open>stop\<close>.\<close>

lemma second_start_leaks:
  assumes "host_ok h" "server_start \<lparr>so_ws = Inr ps, so_setup = None, so_http = w\<rparr> (h, ChiraliteServer_new ad port None) = (Inr (), h1, sv1)"
    and "server_stop (snd (server_start \<lparr>so_ws = Inr qs, so_setup = None, so_http = w\<rparr> (h1, sv1))) = (h2, sv2)"
  shows "dict_get (ho_sockets h2) (ho_next h) = Some ps"
  using assms(2,3)
  by (auto simp: server_start_def server_stop_def wss_serve_def wss_close_def host_open_def host_shut_def Let_def
      ChiraliteServer_new_def WebSocketServer_new_def)

section \<open>The connection of a WebSocketClient\<close>

text \<open>The field \<^verbatim>\<open>_conn\<close>: \<^verbatim>\<open>connect\<close> stores the new connection over the old one, \<^verbatim>\<open>close\<close> closes and forgets it.\<close>

definition wsc_connect :: "WebSocketClient \<Rightarrow> string + unit \<Rightarrow> host \<times> nat option \<Rightarrow> (connection_lost + nat) \<times> host \<times> nat option" where
  "wsc_connect c outcome x =
     (case x of (h, conn) \<Rightarrow>
        case host_open (map_sum id (\<lambda>_. []) outcome) h of
          (r, h1) \<Rightarrow> (connect c r, h1, (case connect c r of Inl _ \<Rightarrow> conn | Inr k \<Rightarrow> Some k)))"

definition wsc_close :: "host \<times> nat option \<Rightarrow> host \<times> nat option" where
  "wsc_close x = (case x of (h, conn) \<Rightarrow> case conn of None \<Rightarrow> (h, None) | Some k \<Rightarrow> (host_shut k h, None))"

interpretation ws_client: scoped_resource "\<lambda>o1 s. snd (wsc_connect c o1 s)" wsc_close "\<lambda>conn. conn = None" for c
  by unfold_locales
    (auto simp: wsc_connect_def wsc_close_def connect_def dest: host_open_shut_ok host_open_shut host_open_Inl
      split: prod.splits sum.splits)

section \<open>TLS contexts\<close>

text \<open>The settings of \<^verbatim>\<open>ssl.SSLContext\<close> with the defaults of its two protocols; reading the certificate files is an
  argument, \<open>None\<close> for the exception.\<close>

datatype tls_protocol = PROTOCOL_TLS_CLIENT | PROTOCOL_TLS_SERVER

record ssl_context =
  sx_protocol :: tls_protocol
  sx_check_hostname :: bool
  sx_cert_required :: bool
  sx_trusted :: "certificate list"
  sx_chain :: "(certificate \<times> private_key) option"

definition SSLContext :: "tls_protocol \<Rightarrow> ssl_context" where
  "SSLContext p =
     \<lparr>sx_protocol = p, sx_check_hostname = (p = PROTOCOL_TLS_CLIENT), sx_cert_required = (p = PROTOCOL_TLS_CLIENT),
      sx_trusted = [], sx_chain = None\<rparr>"

definition client_ssl_context :: "(path \<Rightarrow> certificate list option) \<Rightarrow> path \<Rightarrow> ssl_context option" where
  "client_ssl_context read_bundle ca_bundle =
     (case read_bundle ca_bundle of
        None \<Rightarrow> None
      | Some cas \<Rightarrow> Some ((SSLContext PROTOCOL_TLS_CLIENT)\<lparr>sx_trusted := cas, sx_check_hostname := True, sx_cert_required := True\<rparr>))"

definition server_ssl_context :: "(path \<Rightarrow> path \<Rightarrow> (certificate \<times> private_key) option) \<Rightarrow> path \<Rightarrow> path \<Rightarrow> ssl_context option" where
  "server_ssl_context read_chain cert key =
     (case read_chain cert key of
        None \<Rightarrow> None
      | Some c \<Rightarrow> Some ((SSLContext PROTOCOL_TLS_SERVER)\<lparr>sx_chain := Some c\<rparr>))"

text \<open>A client context trusts the bundle and nothing else, and demands a certificate for the host; a server
  context asks the client for none.\<close>

lemma ssl_contexts:
  "client_ssl_context rb p = Some cx \<Longrightarrow>
     rb p = Some (sx_trusted cx) \<and> sx_check_hostname cx \<and> sx_cert_required cx \<and> sx_protocol cx = PROTOCOL_TLS_CLIENT"
  "server_ssl_context rc p q = Some cx \<Longrightarrow>
     rc p q = sx_chain cx \<and> sx_chain cx \<noteq> None \<and> \<not> sx_cert_required cx \<and> sx_protocol cx = PROTOCOL_TLS_SERVER"
  by (auto simp: client_ssl_context_def server_ssl_context_def SSLContext_def split: option.splits)

section \<open>The tasks of a client\<close>

text \<open>\<^verbatim>\<open>run\<close> waits for the stop event and for nothing else; then every task is cancelled, which ends one that is
  still cycling, and their exceptions are collected and dropped.\<close>

datatype run_state = RunWaiting "task_state list" | RunReturned "task_state list"

fun cancel_task :: "task_state \<Rightarrow> task_state" where
  "cancel_task (Cycling n) = Ended n"
| "cancel_task t = t"

definition client_run :: "bool \<Rightarrow> bool \<Rightarrow> (bool \<times> cycle) list list \<Rightarrow> run_state" where
  "client_run http stop_event cycles =
     (let tasks = map (run_silo_with_retry http 0) cycles
      in if stop_event then RunReturned (map cancel_task tasks) else RunWaiting tasks)"

definition client_stop :: "bool \<Rightarrow> bool" where
  "client_stop stop_event = True"

text \<open>Once stopped, no task is left running and none is restarted.  Before that \<^verbatim>\<open>run\<close> does not return, not even
  when every task has died.\<close>

lemma client_run_stops:
  "\<exists>ts. client_run http (client_stop s) cycles = RunReturned ts \<and> length ts = length cycles
     \<and> (\<forall>n. Cycling n \<notin> set ts)"
proof -
  have "cancel_task t \<noteq> Cycling n" for t n by (cases t) auto
  then show ?thesis by (auto simp: client_run_def client_stop_def Let_def) metis
qed

lemma client_run_unnoticed_death:
  assumes "\<And>cs. cs \<in> set cycles \<Longrightarrow> \<exists>e rest. cs = (False, CycleRaised e) # rest \<and> \<not> retryable http e"
  shows "\<exists>ts. client_run http False cycles = RunWaiting ts \<and> (\<forall>t \<in> set ts. \<exists>e. t = Died 0 e)"
  using assms by (fastforce simp: client_run_def Let_def)

section \<open>Using a watcher\<close>

text \<open>\<^verbatim>\<open>async with SiloWatcher(...)\<close>: \<^verbatim>\<open>start\<close> makes a new debouncer and lets the observer run; \<^verbatim>\<open>stop\<close> flushes the
  debouncer and then stops the observer, which may still deliver what happens in between (\<open>window\<close>).\<close>

definition watcher_start :: "int \<Rightarrow> SiloWatcher" where
  "watcher_start now = \<lparr>sw_debouncer = Debouncer_new, sw_now = now, sw_queue = []\<rparr>"

definition watcher_stop :: "watch_config \<Rightarrow> world \<Rightarrow> (world \<times> fs_event) list \<Rightarrow> SiloWatcher \<Rightarrow> SiloWatcher" where
  "watcher_stop wc wd window sw =
     fold (watcher_step wc) (map (map_prod id Notify) window) (watcher_step wc (wd, Stop) sw)"

definition with_watcher :: "watch_config \<Rightarrow> int \<Rightarrow> (world \<times> deb_op) list \<Rightarrow> world \<Rightarrow> (world \<times> fs_event) list \<Rightarrow> SiloWatcher" where
  "with_watcher wc now body wd window = watcher_stop wc wd window (fold (watcher_step wc) body (watcher_start now))"

lemma watcher_tracks:
  "snd (fold (track wc) (map snd xs) (u, sw_now sw, sw_debouncer sw))
     = (sw_now (fold (watcher_step wc) xs sw), sw_debouncer (fold (watcher_step wc) xs sw))"
proof (induction xs arbitrary: u sw)
  case (Cons x xs)
  obtain wd op where x: "x = (wd, op)" by fastforce
  obtain now' d' where s: "deb_step wc op (sw_now sw, (sw_debouncer sw)\<lparr>db_calls := []\<rparr>) = (now', d')" by fastforce
  let ?sw = "watcher_step wc x sw"
  have "track wc op (u, sw_now sw, sw_debouncer sw) = (fst (track wc op (u, sw_now sw, sw_debouncer sw)), sw_now ?sw, sw_debouncer ?sw)"
    by (simp add: track_def Let_def watcher_step_def x s)
  with Cons.IH[of _ ?sw] show ?case by (simp add: x) metis
qed simp

lemma callbacks_finish:
  assumes "track_inv wc (u, now, d)" "db_dirty d = []" "n = length (db_firing d)"
    and "fold (track wc) (replicate n (CallBack 0)) (u, now, d) = (u', now', d')"
  shows "u' = {} \<and> db_dirty d' = [] \<and> db_firing d' = []"
  using assms
proof (induction n arbitrary: u d)
  case 0
  then show ?case by (auto simp: track_inv_def pending_set_def)
next
  case (Suc n)
  obtain u1 now1 d1 where t: "track wc (CallBack 0) (u, now, d) = (u1, now1, d1)" by (metis prod_cases3)
  have "track_inv wc (u1, now1, d1)" using tracked.step_inv[OF Suc.prems(1), of "CallBack 0"] by (simp add: t)
  moreover have "snd (db_firing d ! 0) = OpWrite"
    using Suc.prems(1,3) by (cases "db_firing d") (simp_all add: track_inv_def)
  then have "now1 = now" "db_dirty d1 = []" "n = length (db_firing d1)"
    using t Suc.prems(2,3) by (auto simp: track_def Let_def dispatch_def remove_nth_def split: if_splits)
  ultimately show ?case using Suc.IH[of u1 d1] Suc.prems(4) t by simp
qed

text \<open>C36: leaving the block of a watcher leaves no written path unmentioned.  Whatever notifications and timers were interleaved in
  the body, when no notification falls between the flush and the end of the observer, and the timer threads that
  were already on their way have called back, then every path that was written has been mentioned by a callback
  since, and nothing is pending.  A callback for a rename mentions both of its paths; it need not carry the content that was written.\<close>

theorem with_watcher_reports_all:
  assumes "sw = with_watcher wc now body wd []"
    and "late = replicate (length (db_firing (sw_debouncer sw))) (wd', CallBack 0)"
    and "fold (track wc) (map snd (body @ (wd, Stop) # late)) ({}, now, Debouncer_new) = (unreported, now', d')"
  shows "unreported = {} \<and> db_dirty d' = [] \<and> db_firing d' = []
    \<and> d' = sw_debouncer (fold (watcher_step wc) late sw)"
proof -
  let ?ops = "body @ [(wd, Stop)]" and ?new = "watcher_start now"
  have sw: "sw = fold (watcher_step wc) ?ops ?new" using assms(1) by (simp add: with_watcher_def watcher_stop_def)
  obtain u1 now1 d1 where one: "fold (track wc) (map snd ?ops) ({}, now, Debouncer_new) = (u1, now1, d1)" by (metis prod_cases3)
  have inv0: "track_inv wc ({}, now, Debouncer_new)" by (simp add: track_inv_def Debouncer_new_def entries_ok_Nil)
  have inv: "track_inv wc (u1, now1, d1)" using tracked.run_inv[OF inv0, of "map snd ?ops"] by (simp only: one)
  have d1: "d1 = sw_debouncer sw"
    using watcher_tracks[of wc ?ops "{}" ?new] one by (simp add: sw watcher_start_def)
  have "db_dirty d1 = []"
  proof -
    obtain u0 now0 d0 where z: "fold (track wc) (map snd body) ({}, now, Debouncer_new) = (u0, now0, d0)" by (metis prod_cases3)
    have "track_inv wc (u0, now0, d0)" using tracked.run_inv[OF inv0, of "map snd body"] by (simp only: z)
    then have "dict_ok (db_dirty (d0\<lparr>db_calls := []\<rparr>))" "entries_ok wc now0 (d0\<lparr>db_calls := []\<rparr>)"
      by (auto simp: track_inv_def elim: entries_ok_frame)
    with one z show ?thesis by (auto simp: track_def Let_def flush_all_def flush_all_locked_eq)
  qed
  moreover have l: "fold (track wc) (replicate (length (db_firing d1)) (CallBack 0)) (u1, now1, d1) = (unreported, now', d')"
    using assms(2,3) one d1 by simp
  ultimately have "unreported = {} \<and> db_dirty d' = [] \<and> db_firing d' = []"
    using callbacks_finish[OF inv] by blast
  moreover have "d' = sw_debouncer (fold (watcher_step wc) late sw)"
    using watcher_tracks[of wc "?ops @ late" "{}" ?new] assms(3) by (simp add: sw watcher_start_def)
  ultimately show ?thesis by blast
qed

theorem with_watcher_reports_all_witness:
  "fst (fold (track demo_watch) [Notify (Modified False ''/s/a''), Stop] ({}, 0, Debouncer_new)) = {}
   \<and> sw_queue (with_watcher demo_watch 0 [(demo_world, Notify (Modified False ''/s/a''))] demo_world [])
       = [on_flush demo_world ''a'' OpWrite]"
proof -
  let ?body = "[(demo_world, Notify (Modified False ''/s/a''))]"
  have q: "with_watcher demo_watch 0 ?body demo_world [] = \<lparr>sw_debouncer = Debouncer_new\<lparr>db_next_timer := 1,
      db_calls := [OnFlush ''a'' OpWrite]\<rparr>, sw_now = 0, sw_queue = [on_flush demo_world ''a'' OpWrite]\<rparr>"
    by (simp add: with_watcher_def watcher_start_def watcher_stop_def watcher_step_def on_write_def demo_rel schedule_def
        Debouncer_new_def Let_def flush_all_def flush_all_locked_def dispatch_def cancel_timer_def)
      (simp add: demo_watch_def)
  obtain u now' d' where r: "fold (track demo_watch) [Notify (Modified False ''/s/a''), Stop] ({}, 0, Debouncer_new) = (u, now', d')"
    by (metis prod_cases3)
  have "u = {}"
    using with_watcher_reports_all[OF q[symmetric] refl, of demo_world u now' d'] r by (simp add: Debouncer_new_def)
  with r q show ?thesis by simp
qed

text \<open>A write that is notified between the flush and the end of the observer is still pending after \<^verbatim>\<open>stop\<close>.\<close>

lemma stop_window_pending:
  "fst ` set (db_dirty (sw_debouncer (with_watcher demo_watch 0 [] demo_world [(demo_world, Modified False ''/s/a'')]))) = {''a''}"
  by (simp add: with_watcher_def watcher_start_def watcher_stop_def watcher_step_def on_write_def demo_rel schedule_def
      Debouncer_new_def Let_def flush_all_def flush_all_locked_def)
    (simp add: demo_watch_def)

end
