(* ===== verification/Watch_Sync.thy ===== *)
theory Watch_Sync
  imports Lifecycle Index_Types
begin

text \<open>
  From notifications to messages: what \<^verbatim>\<open>sync/watcher.py\<close> puts into its queue always passes the checks of
  \<^verbatim>\<open>protocol/messages.py\<close> when \<^verbatim>\<open>client.py\<close> sends it.  The debouncer invents no path: every path it keeps or
  reports is the silo-relative form of a notified one.
\<close>

section \<open>Relative paths of notifications are safe\<close>

lemma set_split_on: "p \<in> set (split_on c xs) \<Longrightarrow> set p \<subseteq> set xs"
  by (induction xs arbitrary: p) (fastforce split: if_splits list.splits)+

lemma split_on_snoc: "split_on c (xs @ [c]) = split_on c xs @ [[]]"
  by (induction xs) (auto split: list.split)

lemma hd_join_on: "x \<noteq> [] \<Longrightarrow> hd (join_on c (x # xs)) = hd x" "x \<noteq> [] \<Longrightarrow> join_on c (x # xs) \<noteq> []"
  by (cases xs; simp)+

lemma set_join_on: "set (join_on c xs) \<subseteq> set c \<union> (\<Union> (set ` set xs))"
  by (induction c xs rule: join_on.induct) auto

text \<open>Absolute paths as the observer reports them: no NUL byte, no parent component.\<close>

definition clean_path :: "string \<Rightarrow> bool" where
  "clean_path p \<longleftrightarrow> NUL \<notin> set p \<and> ''..'' \<notin> set (split_on slash p)"

lemma clean_path_dir: "clean_path p \<Longrightarrow> clean_path (p @ ''/'')"
  by (simp add: clean_path_def split_on_snoc)

lemma rel_path_safe:
  assumes "clean_path p" "rel_path wc p = Some rel"
  shows "safe_path rel"
proof -
  define r where "r = drop (Suc (length (wc_root wc))) (path_parts p)"
  have rel: "rel = (if r = [] then ''.'' else join_on [slash] r)"
    using assms(2) by (auto simp: rel_path_def Let_def r_def split: if_splits)
  have comp: "c \<noteq> [] \<and> c \<noteq> ''..'' \<and> slash \<notin> set c \<and> NUL \<notin> set c" if "c \<in> set r" for c
  proof -
    let ?f = "filter (\<lambda>c. c \<noteq> [] \<and> c \<noteq> ''.'') (split_on slash p)"
    have "c \<in> set ?f"
      using that set_drop_subset[of _ ?f] by (auto simp: r_def path_parts_def split: if_splits)
    then have "c \<in> set (split_on slash p)" "c \<noteq> []" by auto
    then show ?thesis using assms(1) split_on_no_sep[of c slash p] set_split_on[of c slash p] by (auto simp: clean_path_def)
  qed
  show ?thesis
  proof (cases r)
    case Nil
    then show ?thesis by (simp add: rel safe_path_def)
  next
    case (Cons x xs)
    have "split_on slash (join_on [slash] r) = r" using comp Cons by (intro split_join_on) auto
    moreover have "NUL \<notin> set (join_on [slash] r)" using comp set_join_on[of "[slash]" r] by fastforce
    moreover have "join_on [slash] r \<noteq> []" "hd (join_on [slash] r) \<noteq> slash"
      using comp[of x] Cons hd_join_on[of x "[slash]" xs] by (auto simp: neq_Nil_conv)
    ultimately show ?thesis using comp Cons by (auto simp: rel safe_path_def)
  qed
qed

section \<open>The debouncer invents no path\<close>

definition paths_in :: "string set \<Rightarrow> Debouncer \<Rightarrow> bool" where
  "paths_in G d \<longleftrightarrow>
     fst ` set (db_dirty d) \<subseteq> G \<and> fst ` set (db_firing d) \<subseteq> G
     \<and> (\<forall>k old new. dict_get (db_renames d) k = Some (old, new) \<longrightarrow> old \<in> G \<and> new \<in> G)
     \<and> \<Union> (mentions ` set (db_calls d)) \<subseteq> G"

lemma paths_in_dispatch: "paths_in G d \<Longrightarrow> rel \<in> G \<Longrightarrow> paths_in G (dispatch rel op d)"
  by (auto simp: paths_in_def dispatch_def split: option.split if_splits)

lemma paths_in_cancel_timer: "paths_in G d \<Longrightarrow> paths_in G (cancel_timer t d)"
  by (simp add: paths_in_def cancel_timer_def)

lemma paths_in_cancel: "paths_in G d \<Longrightarrow> paths_in G (cancel rel d)"
  by (auto simp: paths_in_def cancel_frame split: if_splits)

lemma paths_in_flush:
  assumes "paths_in G d" shows "paths_in G (flush_all_locked d)"
proof -
  have "paths_in G (fold (\<lambda>(rel, op, _, tid) d. dispatch rel op (cancel_timer tid d)) es d')"
    if "paths_in G d'" "fst ` set es \<subseteq> G" for es d'
    using that by (induction es arbitrary: d') (auto simp: paths_in_dispatch paths_in_cancel_timer)
  moreover have "paths_in G (d\<lparr>db_dirty := []\<rparr>)" "fst ` set (db_dirty d) \<subseteq> G" using assms by (auto simp: paths_in_def)
  ultimately show ?thesis unfolding flush_all_locked_def by blast
qed

lemma paths_in_schedule:
  assumes "paths_in G d" "rel \<in> G" shows "paths_in G (schedule wc now rel op d)"
proof -
  have "paths_in G (d'\<lparr>db_timers := ts, db_dirty := dict_set rel x (db_dirty d'), db_next_timer := n\<rparr>)"
    if "paths_in G d'" for d' ts x n using that assms(2) by (simp add: paths_in_def)
  then show ?thesis using assms paths_in_cancel_timer
    by (auto simp: schedule_def Let_def intro!: paths_in_flush split: option.split)
qed

lemma paths_in_flush_now: "paths_in G d \<Longrightarrow> rel \<in> G \<Longrightarrow> paths_in G (flush_now rel op d)"
  unfolding flush_now_def by (rule paths_in_dispatch) (auto simp: paths_in_def)

lemma paths_in_rename:
  "paths_in G d \<Longrightarrow> src \<in> G \<Longrightarrow> dst \<in> G \<Longrightarrow> paths_in G (d\<lparr>db_renames := dict_set dst (src, dst) (db_renames d)\<rparr>)"
  by (auto simp: paths_in_def split: if_splits)

lemma paths_in_firing:
  assumes "paths_in G d" "set fs \<subseteq> set (db_firing d)"
  shows "paths_in G (d\<lparr>db_firing := fs\<rparr>)"
proof -
  have "fst ` set (db_firing d) \<subseteq> G" using assms(1) by (simp add: paths_in_def)
  then have "fst ` set fs \<subseteq> G" by (rule order_trans[OF image_mono[OF assms(2)]])
  with assms(1) show ?thesis by (simp add: paths_in_def)
qed

fun event_strings :: "fs_event \<Rightarrow> string list" where
  "event_strings (Created b p) = [p]" | "event_strings (Modified b p) = [p]" | "event_strings (Deleted b p) = [p]"
| "event_strings (Moved p q) = [p, q]"

lemma paths_in_handle_event:
  assumes "paths_in {p. safe_path p} d" "\<forall>p \<in> set (event_strings ev). clean_path p"
  shows "paths_in {p. safe_path p} (handle_event wc now ev d)"
proof -
  have w: "paths_in {p. safe_path p} (on_write wc now p d)" if "clean_path p" for p
    using assms(1) rel_path_safe[OF that] by (auto simp: on_write_def paths_in_schedule split: option.split)
  have x: "paths_in {p. safe_path p} (on_delete wc p d)" if "clean_path p" for p
    using assms(1) rel_path_safe[OF that] by (auto simp: on_delete_def paths_in_flush_now paths_in_cancel split: option.split)
  have r: "paths_in {p. safe_path p} (on_rename wc now p q d)" if "clean_path p" "clean_path q" for p q
    using assms(1) rel_path_safe[OF that(1)] rel_path_safe[OF that(2)]
    by (auto simp: on_rename_def Let_def paths_in_flush_now paths_in_cancel paths_in_schedule paths_in_rename split: option.split)
  show ?thesis using assms(2) w x r clean_path_dir assms(1) by (cases ev) auto
qed

fun op_clean :: "deb_op \<Rightarrow> bool" where
  "op_clean (Notify ev) = list_all clean_path (event_strings ev)"
| "op_clean op = True"

lemma paths_in_step:
  assumes "paths_in {p. safe_path p} d" "op_clean op"
  shows "paths_in {p. safe_path p} (snd (deb_step wc op (now, d)))"
proof (cases op)
  case (Notify ev)
  with assms paths_in_handle_event[OF assms(1), of ev] show ?thesis by (simp add: list_all_iff)
next
  case (Enter n)
  with assms(1) show ?thesis
    by (auto simp: paths_in_def timer_fired_def dict_get_None image_iff split: option.split)
      (metis dict_get_None fst_conv image_eqI option.distinct(1) subsetD mem_Collect_eq)
next
  case (CallBack n)
  show ?thesis
  proof (cases "n < length (db_firing d)")
    case True
    then have "set (remove_nth n (db_firing d)) \<subseteq> set (db_firing d)" using set_remove_nth by blast
    from paths_in_firing[OF assms(1) this] have "paths_in {p. safe_path p} (d\<lparr>db_firing := remove_nth n (db_firing d)\<rparr>)" .
    moreover have "safe_path (fst (db_firing d ! n))"
      using assms(1) nth_mem[OF True] unfolding paths_in_def by blast
    ultimately show ?thesis using True CallBack by (simp add: paths_in_dispatch)
  qed (use assms(1) CallBack in simp)
next
  case Stop
  with assms(1) show ?thesis by (simp add: flush_all_def paths_in_flush)
next
  case (Expire tid)
  with assms(1) show ?thesis by (auto simp: paths_in_def split: option.split)
qed (use assms(1) in simp)

section \<open>Events have the declared types\<close>

text \<open>What the system returns for a file: sizes and times that are not negative, a 64-bit hash, account names
  that are not empty.\<close>

definition world_ok :: "world \<Rightarrow> bool" where
  "world_ok wd \<longleftrightarrow> 0 \<le> wd_time_ns wd
     \<and> (\<forall>p st. wd_stat wd p = Some st \<longrightarrow> 0 \<le> st_size st)
     \<and> (\<forall>b. 0 \<le> wd_rapidhash wd b \<and> wd_rapidhash wd b \<le> UINT64_MAX)
     \<and> (\<forall>u n. wd_pwuid wd u = Some n \<or> wd_grgid wd u = Some n \<longrightarrow> name_errors n = [])"

definition event_valid :: "SyncEvent \<Rightarrow> bool" where
  "event_valid e \<longleftrightarrow> event_typed e \<and> safe_path (event_path e)"

lemma show_int_name: "name_errors (show_int i) = []"
proof -
  have "NUL \<notin> set (show_nat n)" for n using show_nat_digits[of NUL n] by (auto simp: is_digit_def digit_val_def)
  then show ?thesis by (simp add: show_int_def)
qed

lemma flush_event_valid:
  assumes "world_ok wd" "mentions c \<subseteq> {p. safe_path p}"
  shows "event_valid (flush_event wd c)"
proof (cases c)
  case (OnFlush rel op)
  have names: "wd_pwuid wd u = Some n \<Longrightarrow> name_errors n = []" "wd_grgid wd u = Some n \<Longrightarrow> name_errors n = []" for u n
    using assms(1) by (auto simp: world_ok_def)
  show ?thesis using assms OnFlush stat_mode_bounds names show_int_name
    by (auto simp: event_valid_def on_flush_def record_typed_def write_record_def world_ok_def pos_mod_sign
        simp del: name_errors_Nil split: option.split)
next
  case (OnRenameFlush old new)
  with assms show ?thesis by (auto simp: event_valid_def on_rename_flush_def world_ok_def)
qed

fun step_clean :: "world \<times> deb_op \<Rightarrow> bool" where
  "step_clean (wd, op) = (world_ok wd \<and> op_clean op)"

definition watcher_typed :: "SiloWatcher \<Rightarrow> bool" where
  "watcher_typed sw \<longleftrightarrow> paths_in {p. safe_path p} (sw_debouncer sw) \<and> list_all event_valid (sw_queue sw)"

interpretation typed_watcher: guarded_machine "watcher_step wc" watcher_typed step_clean for wc
proof
  fix sw x assume i: "watcher_typed sw" "step_clean x"
  obtain wd op where x: "x = (wd, op)" by fastforce
  obtain now' d' where s: "deb_step wc op (sw_now sw, (sw_debouncer sw)\<lparr>db_calls := []\<rparr>) = (now', d')" by fastforce
  have "paths_in {p. safe_path p} ((sw_debouncer sw)\<lparr>db_calls := []\<rparr>)" using i(1) by (auto simp: watcher_typed_def paths_in_def)
  from paths_in_step[OF this, of op wc "sw_now sw"] i(2) x s have d: "paths_in {p. safe_path p} d'" by simp
  then have "mentions c \<subseteq> {p. safe_path p}" if "c \<in> set (db_calls d')" for c using that by (auto simp: paths_in_def)
  then have "list_all event_valid (map (flush_event wd) (db_calls d'))"
    using flush_event_valid i(2) x by (auto simp: list_all_iff)
  with i(1) d show "watcher_typed (watcher_step wc x sw)" by (simp add: watcher_typed_def watcher_step_def x s)
qed

section \<open>The client sends what the watcher reports\<close>

lemma event_valid_entry: "event_valid (Write e) \<Longrightarrow> FileEntry_errors (write_event_to_entry e) = []"
  by (simp add: event_valid_def record_typed_def write_record_def write_event_to_entry_def valid_entry_simps)

lemma framed_transfer_error: "fst (framed_transfer ev entry content fc) = Inl x \<Longrightarrow> \<exists>e. x = ClientFrame e"
  by (auto simp: framed_transfer_def split: prod.splits sum.splits)

lemma framed_message_valid: "valid_msg m \<Longrightarrow> fst (framed_message ev m fc) = Inl x \<Longrightarrow> \<exists>e. x = ClientFrame e"
  by (auto simp: framed_message_def validate_msg_def split: prod.splits sum.splits)

lemma dispatch_event_valid:
  assumes "event_valid e" "0 \<le> cv_now_ns ev" "fst (dispatch_event ev e fc) = Inl x"
  shows "\<exists>fe. x = ClientFrame fe"
proof (cases e)
  case (Write w)
  with assms event_valid_entry[of w] show ?thesis
    by (auto simp: mk_FileEntry_def split: option.splits sum.splits prod.splits)
      (metis framed_transfer_error fst_conv)
next
  case (Delete p t)
  with assms framed_message_valid[of "FileDeleteMsg p (cv_now_ns ev)"] show ?thesis by (auto simp: event_valid_def)
next
  case (Rename old new t)
  with assms framed_message_valid[of "FileRenameMsg old new (cv_now_ns ev)"] show ?thesis by (auto simp: event_valid_def)
qed

lemma forward_events_valid:
  assumes "\<forall>e \<in> snd ` set es. event_valid e" "0 \<le> cv_now_ns ev" "fst (forward_events ev es fc) = Inl x"
  shows "\<exists>fe. x = ClientFrame fe"
  using assms
proof (induction es arbitrary: fc)
  case (Cons y es)
  obtain stop e where y: "y = (stop, e)" by fastforce
  from Cons.prems y have "stop = False" by (auto split: if_splits)
  with Cons y dispatch_event_valid[of e ev fc x] show ?case
    by (cases "dispatch_event ev e fc"; cases "fst (dispatch_event ev e fc)") auto
qed simp

text \<open>C20: what the watcher reports can always be sent.  When the observer reports absolute paths without NUL bytes and
  parent components and the system returns sensible sizes, times and names, then under every interleaving the
  events in the queue have the types the messages declare, an index that follows them stays typed, and
  forwarding them to the server never ends in a validation error: only the connection can fail.\<close>

theorem watched_events_accepted:
  assumes "\<forall>x \<in> set body. step_clean x" and "sw = fold (watcher_step wc) body (watcher_start now)"
    and "0 \<le> cv_now_ns ev" and "set (map snd es) \<subseteq> set (sw_queue sw)"
  shows "(\<forall>e \<in> set (sw_queue sw). event_typed e \<and> safe_path (event_path e))
    \<and> ix_typed (apply_events (sw_queue sw) (new_SiloIndex sid node))
    \<and> (\<forall>x. fst (forward_events ev es fc) = Inl x \<longrightarrow> (\<exists>e. x = ClientFrame e))"
proof -
  have "watcher_typed (watcher_start now)" by (simp add: watcher_typed_def watcher_start_def Debouncer_new_def paths_in_def)
  from typed_watcher.guarded_run[OF this assms(1)] have v: "\<forall>e \<in> set (sw_queue sw). event_valid e"
    by (simp add: assms(2) watcher_typed_def list_all_iff)
  then have t: "\<forall>e \<in> set (sw_queue sw). event_typed e \<and> safe_path (event_path e)" by (simp add: event_valid_def)
  then have "ix_typed (apply_events (sw_queue sw) (new_SiloIndex sid node))"
    by (intro typed_index.guarded_run[OF ix_typed_new]) blast
  moreover have "\<forall>e \<in> snd ` set es. event_valid e" using v assms(4) by auto
  ultimately show ?thesis using t forward_events_valid[OF _ assms(3)] by blast
qed

theorem watched_events_accepted_witness:
  "list_all (\<lambda>e. event_typed e \<and> safe_path (event_path e))
     (sw_queue (with_watcher demo_watch 0 [(demo_world, Notify (Modified False ''/s/a''))] demo_world []))"
proof -
  let ?body = "[(demo_world, Notify (Modified False ''/s/a'')), (demo_world, Stop)]"
  have "world_ok demo_world" by (auto simp: world_ok_def demo_world_def UINT64_MAX_def)
  then have "\<forall>x \<in> set ?body. step_clean x" by (simp add: clean_path_def)
  from watched_events_accepted[OF this refl, where ev = "demo_client_env demo_link" and es = "[]"]
  show ?thesis by (simp add: with_watcher_def watcher_stop_def demo_client_env_def list_all_iff)
qed

end
