(* ===== verification/Session_Tasks.thy ===== *)
theory Session_Tasks
  imports Silo_Isolation
begin

text \<open>
  A session as a task of the event loop.  \<^verbatim>\<open>_serve_session\<close> and \<^verbatim>\<open>_handle_transfer\<close> of \<^verbatim>\<open>server.py\<close> are coroutines: at
  every \<^verbatim>\<open>await\<close> other connections may run.  A phase says where the coroutine waits and what its local
  variables hold; a step runs it to the next place where it may be suspended.  Run on its own, the task does what
  \<open>serve_session\<close> says.
\<close>

section \<open>The coroutine\<close>

datatype phase =
    Starting
  | AwaitSync
  | AwaitMsg
  | Draining uuid nat string
  | Collecting uuid FileEntry nat "(int, bytes) dict"
  | Scanning uuid FileEntry bytes
  | Writing uuid FileEntry ScanResult path "(write_step \<times> file_node) list"
  | Over server_exc

record task =
  tk_phase :: phase
  tk_index :: SiloIndex
  tk_inbox :: inbox
  tk_sent :: "AnyMsg list"
  tk_moment :: nat

abbreviation goto :: "phase \<Rightarrow> task \<Rightarrow> task" where
  "goto ph t \<equiv> t\<lparr>tk_phase := ph\<rparr>"

text \<open>The send at the end of a handler; when it raises, the session is over.\<close>

definition reply :: "config \<Rightarrow> AnyMsg list \<Rightarrow> task \<Rightarrow> task" where
  "reply cf ms t =
     (if cf_send_fails cf (length (tk_sent t)) then goto (Over ExcSend) t
      else t\<lparr>tk_phase := AwaitMsg, tk_sent := tk_sent t @ ms\<rparr>)"

text \<open>How \<^verbatim>\<open>_handle_transfer\<close> takes an exception of \<open>atomic_write\<close>.\<close>

definition write_raised :: "config \<Rightarrow> uuid \<Rightarrow> write_error \<Rightarrow> task \<Rightarrow> task" where
  "write_raised cf tid err t =
     (case err of
        WriteJail SymlinkLoop \<Rightarrow> goto (Over ExcSymlinkLoop) t
      | WriteMkdir \<Rightarrow> goto (Over ExcOSError) t
      | WriteCleanup \<Rightarrow> goto (Over ExcOSError) t
      | WriteOverflow \<Rightarrow> goto (Over ExcOverflow) t
      | _ \<Rightarrow> reply cf [TransferNackMsg tid (cf_text cf (TextWrite err))] t)"

definition new_task :: "inbox \<Rightarrow> task" where
  "new_task i = \<lparr>tk_phase = Starting, tk_index = new_SiloIndex 0 '''', tk_inbox = i, tk_sent = [], tk_moment = 0\<rparr>"

text \<open>Up to the first \<^verbatim>\<open>await\<close>: the index of the silo, made when it is missing.\<close>

definition step_start :: "SiloSession \<Rightarrow> task \<Rightarrow> server \<Rightarrow> task \<times> server" where
  "step_start ss t sv =
     (case dict_get (sv_indexes sv) (ss_silo_id ss) of
        Some ix \<Rightarrow> (t\<lparr>tk_phase := AwaitSync, tk_index := ix\<rparr>, sv)
      | None \<Rightarrow>
          (let ix = new_SiloIndex (ss_silo_id ss) ''server''
           in (t\<lparr>tk_phase := AwaitSync, tk_index := ix\<rparr>, sv\<lparr>sv_indexes := dict_set (ss_silo_id ss) ix (sv_indexes sv)\<rparr>)))"

definition step_sync :: "config \<Rightarrow> task \<Rightarrow> task" where
  "step_sync cf t =
     (case server_handle_sync_request (tk_index t) (case tk_inbox t of [] \<Rightarrow> Inl ConnClosed | r # _ \<Rightarrow> r) of
        (msgs, Inl e) \<Rightarrow> t\<lparr>tk_phase := Over (ExcReconcile e), tk_sent := tk_sent t @ msgs\<rparr>
      | (msgs, Inr _) \<Rightarrow> reply cf msgs (t\<lparr>tk_inbox := tl (tk_inbox t)\<rparr>))"

text \<open>A message of the loop: deletions and renamings have no \<^verbatim>\<open>await\<close> inside, a transfer waits for its chunks.\<close>

definition step_begin :: "config \<Rightarrow> SiloSession \<Rightarrow> uuid \<Rightarrow> FileEntry \<Rightarrow> int \<Rightarrow> task \<Rightarrow> server \<Rightarrow> task \<times> server" where
  "step_begin cf ss tid entry n t sv =
     (case resolve (cf_fuel cf) (sv_fs sv) (ss_jail ss) (fe_path entry) of
        Inl SymlinkLoop \<Rightarrow> (goto (Over ExcSymlinkLoop) t, sv)
      | Inl e \<Rightarrow> (goto (Draining tid (Suc (nat n)) (cf_text cf (TextJail e))) t,
                   log_audit (PathTraversal (ss_client_cn ss) (ss_silo_id ss) (fe_path entry)) sv)
      | Inr _ \<Rightarrow> (goto (Collecting tid entry (nat n) []) t, sv))"

definition after_handler :: "(server_exc + unit) \<times> server \<Rightarrow> task \<Rightarrow> task \<times> server" where
  "after_handler r t = (case fst r of Inl e \<Rightarrow> (goto (Over e) t, snd r) | Inr _ \<Rightarrow> (t, snd r))"

definition step_message :: "config \<Rightarrow> SiloSession \<Rightarrow> task \<Rightarrow> server \<Rightarrow> task \<times> server" where
  "step_message cf ss t sv =
     (case next_msg (tk_inbox t) of
        (Inl e, i) \<Rightarrow> (t\<lparr>tk_phase := Over e, tk_inbox := i\<rparr>, sv)
      | (Inr m, i) \<Rightarrow>
          (case m of
             TransferBeginMsg tid entry sz n \<Rightarrow>
               step_begin (at_message cf (length i)) ss tid entry n (t\<lparr>tk_inbox := i, tk_moment := length i\<rparr>) sv
           | FileDeleteMsg p ts \<Rightarrow> after_handler (handle_delete (at_message cf (length i)) ss p sv) (t\<lparr>tk_inbox := i\<rparr>)
           | FileRenameMsg old new ts \<Rightarrow> after_handler (handle_rename (at_message cf (length i)) ss old new sv) (t\<lparr>tk_inbox := i\<rparr>)
           | _ \<Rightarrow> (t\<lparr>tk_inbox := i\<rparr>, sv)))"

definition step_drain :: "config \<Rightarrow> uuid \<Rightarrow> nat \<Rightarrow> string \<Rightarrow> task \<Rightarrow> task" where
  "step_drain cf tid k reason t =
     (case k of
        0 \<Rightarrow> reply cf [TransferNackMsg tid reason] t
      | Suc k' \<Rightarrow>
          (case next_msg (tk_inbox t) of
             (Inl _, i) \<Rightarrow> reply cf [TransferNackMsg tid reason] (t\<lparr>tk_inbox := i\<rparr>)
           | (Inr _, i) \<Rightarrow> t\<lparr>tk_phase := Draining tid k' reason, tk_inbox := i\<rparr>))"

text \<open>After the commit arrived, up to the scan.\<close>

definition step_commit :: "config \<Rightarrow> SiloSession \<Rightarrow> uuid \<Rightarrow> FileEntry \<Rightarrow> (int, bytes) dict \<Rightarrow> int \<Rightarrow> task \<Rightarrow> server \<Rightarrow> task" where
  "step_commit cf ss tid entry chunks h t sv =
     (case rebuild cf sv ss (tk_index t) entry (join_chunks chunks) of
        Inl (BaseExc e) \<Rightarrow> goto (Over e) t
      | Inl (BaseDelta e) \<Rightarrow> reply cf [TransferNackMsg tid (''delta_error: '' @ cf_text cf (TextDelta e))] t
      | Inl BaseOSError \<Rightarrow> reply cf [TransferNackMsg tid (''delta_error: '' @ cf_text cf TextRead)] t
      | Inr content \<Rightarrow>
          if cf_rapidhash cf content \<noteq> h then reply cf [TransferNackMsg tid ''rapidhash_mismatch''] t
          else goto (Scanning tid entry content) t)"

definition step_collect :: "config \<Rightarrow> SiloSession \<Rightarrow> uuid \<Rightarrow> FileEntry \<Rightarrow> nat \<Rightarrow> (int, bytes) dict \<Rightarrow> task \<Rightarrow> server \<Rightarrow> task" where
  "step_collect cf ss tid entry k chunks t sv =
     (case next_msg (tk_inbox t) of
        (Inl e, i) \<Rightarrow> t\<lparr>tk_phase := Over e, tk_inbox := i\<rparr>
      | (Inr m, i) \<Rightarrow>
          (case (k, m) of
             (Suc k', TransferChunkMsg tid' s d) \<Rightarrow>
               if tid' = tid then t\<lparr>tk_phase := Collecting tid entry k' (dict_set s d chunks), tk_inbox := i\<rparr>
               else reply cf [TransferNackMsg tid ''protocol_error''] (t\<lparr>tk_inbox := i\<rparr>)
           | (0, TransferCommitMsg tid' h) \<Rightarrow>
               if tid' = tid then step_commit cf ss tid entry chunks h (t\<lparr>tk_inbox := i\<rparr>) sv
               else reply cf [TransferNackMsg tid ''protocol_error''] (t\<lparr>tk_inbox := i\<rparr>)
           | _ \<Rightarrow> reply cf [TransferNackMsg tid ''protocol_error''] (t\<lparr>tk_inbox := i\<rparr>)))"

text \<open>The scan returned: owner check, and the write up to the first call on the temporary file.\<close>

definition step_scan :: "config \<Rightarrow> SiloSession \<Rightarrow> uuid \<Rightarrow> FileEntry \<Rightarrow> bytes \<Rightarrow> task \<Rightarrow> server \<Rightarrow> task \<times> server" where
  "step_scan cf ss tid entry content t sv =
     (case server_scan cf content of
        Inl e \<Rightarrow> (goto (Over (ExcScan e)) t, sv)
      | Inr scan \<Rightarrow>
          if \<not> sc_is_clean scan
          then (reply cf [TransferNackMsg tid ''quarantine''] t,
                log_audit (Quarantine (ss_client_cn ss) (ss_silo_id ss) (fe_path entry)) sv)
          else if is_error (resolve_uid (os_pwd (cf_env cf)) (fe_uid_name entry) (ss_uid_policy ss))
                \<or> is_error (resolve_gid (os_grp (cf_env cf)) (fe_gid_name entry) (ss_gid_policy ss))
          then (reply cf [TransferNackMsg tid ''uid_denied''] t, log_audit (UidDeniedEvent (ss_client_cn ss) (ss_silo_id ss)) sv)
          else
            (case resolve (cf_fuel cf) (sv_fs sv) (ss_jail ss) (fe_path entry) of
               Inl e \<Rightarrow> (write_raised cf tid (WriteJail e) t, sv)
             | Inr dest \<Rightarrow>
                 (case kernel_path (cf_fuel cf) (sv_fs sv) dest of
                    None \<Rightarrow> (write_raised cf tid WriteMkdir t, sv)
                  | Some d \<Rightarrow>
                      (case (if os_fail (cf_env cf) WMkdir then None else mkdirs (sv_fs sv) [] (butlast d)) of
                         None \<Rightarrow> (write_raised cf tid WriteMkdir t, sv)
                       | Some fs1 \<Rightarrow>
                           (goto (Writing tid entry scan d (write_stages (cf_env cf) content entry)) t, sv\<lparr>sv_fs := fs1\<rparr>)))))"

text \<open>One call of \<^verbatim>\<open>atomic_write\<close> on the temporary file.  The last one renames it to the destination, after which the write is
  logged and acknowledged; a failure removes the temporary file, and the answer depends on the exception.\<close>

definition step_write ::
  "config \<Rightarrow> SiloSession \<Rightarrow> uuid \<Rightarrow> FileEntry \<Rightarrow> ScanResult \<Rightarrow> path \<Rightarrow> (write_step \<times> file_node) list \<Rightarrow> task \<Rightarrow> server \<Rightarrow> task \<times> server" where
  "step_write cf ss tid entry scan dest stages t sv =
     (let fs = sv_fs sv; tmp = tmp_path dest (cf_tmp_hex cf); fails = step_fails (cf_env cf) fs dest entry
      in case stages of
           (s, n) # rest \<Rightarrow>
             if fails s
             then (case clean_up (cf_env cf) tmp (step_error entry s) fs of (err, fs') \<Rightarrow> (write_raised cf tid err t, sv\<lparr>sv_fs := fs'\<rparr>))
             else (goto (Writing tid entry scan dest rest) t, sv\<lparr>sv_fs := fs(tmp \<mapsto> Regular n)\<rparr>)
         | [] \<Rightarrow>
             if fails WRename
             then (case clean_up (cf_env cf) tmp (WriteFailed WRename) fs of (err, fs') \<Rightarrow> (write_raised cf tid err t, sv\<lparr>sv_fs := fs'\<rparr>))
             else (reply cf [TransferAckMsg tid (scan_str scan)] t,
                   log_audit (FileWritten (ss_client_cn ss) (ss_silo_id ss) (fe_path entry))
                     (sv\<lparr>sv_fs := fs(tmp := None, dest := fs tmp)\<rparr>)))"

text \<open>A transfer runs in the configuration of the moment its first message came.\<close>

definition session_step :: "config \<Rightarrow> SiloSession \<Rightarrow> task \<times> server \<Rightarrow> task \<times> server" where
  "session_step cf ss x =
     (case x of (t, sv) \<Rightarrow>
        let cf' = at_message cf (tk_moment t) in
        (case tk_phase t of
           Starting \<Rightarrow> step_start ss t sv
         | AwaitSync \<Rightarrow> (step_sync cf t, sv)
         | AwaitMsg \<Rightarrow> step_message cf ss t sv
         | Draining tid k reason \<Rightarrow> (step_drain cf' tid k reason t, sv)
         | Collecting tid entry k chunks \<Rightarrow> (step_collect cf' ss tid entry k chunks t sv, sv)
         | Scanning tid entry content \<Rightarrow> step_scan cf' ss tid entry content t sv
         | Writing tid entry scan dest stages \<Rightarrow> step_write cf' ss tid entry scan dest stages t sv
         | Over e \<Rightarrow> (t, sv)))"

section \<open>Run on its own the task is the session\<close>

definition session_runs :: "config \<Rightarrow> SiloSession \<Rightarrow> task \<times> server \<Rightarrow> task \<times> server \<Rightarrow> bool" where
  "session_runs cf ss x y \<longleftrightarrow> (\<exists>n. (session_step cf ss ^^ n) x = y)"

lemma session_runs_refl: "session_runs cf ss x x"
  unfolding session_runs_def by (rule exI[of _ 0]) simp

lemma session_runs_step: "session_runs cf ss (session_step cf ss x) y \<Longrightarrow> session_runs cf ss x y"
  unfolding session_runs_def by (metis funpow_simps_right(2) o_apply)

lemma session_runs_trans: "session_runs cf ss x y \<Longrightarrow> session_runs cf ss y z \<Longrightarrow> session_runs cf ss x z"
  unfolding session_runs_def by (metis funpow_add o_apply)

lemma session_runs_next: "session_step cf ss x = y \<Longrightarrow> session_runs cf ss y z \<Longrightarrow> session_runs cf ss x z"
  using session_runs_step by blast

lemma session_runs_stepI: "session_step cf ss x = y \<Longrightarrow> session_runs cf ss x y"
  using session_runs_step[of cf ss x y] session_runs_refl by simp

text \<open>Where a finished handler leaves the task.\<close>

definition deliver_to :: "config \<Rightarrow> outcome \<Rightarrow> task \<Rightarrow> task \<times> server" where
  "deliver_to cf oc t =
     ((case oc_result oc of
         Inl e \<Rightarrow> t\<lparr>tk_phase := Over e, tk_inbox := oc_inbox oc\<rparr>
       | Inr _ \<Rightarrow> reply cf (oc_sent oc) (t\<lparr>tk_inbox := oc_inbox oc\<rparr>)), oc_server oc)"

lemma reply_frame [simp]: "tk_index (reply cf ms t) = tk_index t" "tk_inbox (reply cf ms t) = tk_inbox t" "tk_moment (reply cf ms t) = tk_moment t"
  by (simp_all add: reply_def)

lemma reply_phase: "reply cf ms (t\<lparr>tk_phase := ph\<rparr>) = reply cf ms t"
  by (simp add: reply_def)

lemma reply_at: "reply (at_message cf n) = reply cf"
  by (simp add: reply_def at_message_def fun_eq_iff)

lemma write_raised_phase: "write_raised cf tid err (t\<lparr>tk_phase := ph\<rparr>) = write_raised cf tid err t"
  by (simp add: write_raised_def reply_phase split: write_error.split jail_error.split)

text \<open>The phases of a transfer all run in the configuration \<open>cf'\<close>.\<close>

lemma drain_runs:
  "cf' = at_message cf (tk_moment t)
    \<Longrightarrow> session_runs cf ss (t\<lparr>tk_phase := Draining tid k reason\<rparr>, sv) (reply cf' [TransferNackMsg tid reason] (t\<lparr>tk_inbox := drain k (tk_inbox t)\<rparr>), sv)"
proof (induction k arbitrary: t)
  case 0
  show ?case by (rule session_runs_stepI) (simp add: session_step_def step_drain_def reply_phase 0)
next
  case (Suc k)
  obtain r i where nm: "next_msg (tk_inbox t) = (r, i)" by fastforce
  show ?case
  proof (cases r)
    case (Inl e)
    then show ?thesis by (intro session_runs_stepI) (simp add: session_step_def step_drain_def nm reply_def Suc.prems)
  next
    case (Inr m)
    have "session_step cf ss (t\<lparr>tk_phase := Draining tid (Suc k) reason\<rparr>, sv) = (t\<lparr>tk_inbox := i, tk_phase := Draining tid k reason\<rparr>, sv)"
      by (simp add: session_step_def step_drain_def nm Inr)
    from session_runs_next[OF this Suc.IH] show ?thesis using Suc.prems by (simp add: nm Inr)
  qed
qed

definition write_end :: "config \<Rightarrow> SiloSession \<Rightarrow> uuid \<Rightarrow> FileEntry \<Rightarrow> ScanResult \<Rightarrow> write_error + unit \<Rightarrow> file_system \<Rightarrow> task \<Rightarrow> server \<Rightarrow> task \<times> server" where
  "write_end cf ss tid entry scan r fs t sv =
     (case r of
        Inl err \<Rightarrow> (write_raised cf tid err t, sv\<lparr>sv_fs := fs\<rparr>)
      | Inr _ \<Rightarrow> (reply cf [TransferAckMsg tid (scan_str scan)] t,
                   log_audit (FileWritten (ss_client_cn ss) (ss_silo_id ss) (fe_path entry)) (sv\<lparr>sv_fs := fs\<rparr>)))"

lemma write_end_fs: "write_end cf ss tid entry scan r fs t (sv\<lparr>sv_fs := f\<rparr>) = write_end cf ss tid entry scan r fs t sv"
  by (simp add: write_end_def split: sum.split)

lemma step_fails_upd: "p \<noteq> dest \<Longrightarrow> step_fails env (fs(p := n)) dest entry = step_fails env fs dest entry"
  by (rule ext) (simp add: step_fails_def split: write_step.split)

lemma write_runs:
  assumes cf: "cf' = at_message cf (tk_moment t)"
    and "tmp = tmp_path dest (cf_tmp_hex cf')" "tmp \<noteq> dest" "step_fails (cf_env cf') (sv_fs sv) dest entry = fails"
    and "run_stages (cf_env cf') entry fails tmp stages (sv_fs sv) = (r, sts)"
  shows "session_runs cf ss (t\<lparr>tk_phase := Writing tid entry scan dest stages\<rparr>, sv)
    (case r of
       Inl err \<Rightarrow> write_end cf' ss tid entry scan (Inl err) (last sts) t sv
     | Inr fs2 \<Rightarrow>
         if fails WRename
         then (case clean_up (cf_env cf') tmp (WriteFailed WRename) fs2 of (err, fs3) \<Rightarrow> write_end cf' ss tid entry scan (Inl err) fs3 t sv)
         else write_end cf' ss tid entry scan (Inr ()) (fs2(tmp := None, dest := fs2 tmp)) t sv)"
  using assms(4,5)
proof (induction stages arbitrary: sv sts)
  case Nil
  then show ?case
    by (intro session_runs_stepI) (auto simp: session_step_def step_write_def write_end_def Let_def reply_phase write_raised_phase
        simp flip: assms(1) assms(2) split: prod.split)
next
  case (Cons x stages)
  obtain s n where x: "x = (s, n)" by fastforce
  show ?case
  proof (cases "fails s")
    case True
    with Cons.prems show ?thesis
      by (intro session_runs_stepI) (auto simp: session_step_def step_write_def write_end_def x Let_def write_raised_phase
          simp flip: assms(1) assms(2) split: prod.splits)
  next
    case False
    let ?sv = "sv\<lparr>sv_fs := (sv_fs sv)(tmp \<mapsto> Regular n)\<rparr>"
    obtain sts1 where run: "run_stages (cf_env cf') entry fails tmp stages (sv_fs ?sv) = (r, sts1)" "sts = sv_fs ?sv # sts1"
      using Cons.prems(2) False by (auto simp: x Let_def split: prod.splits)
    have fl: "step_fails (cf_env cf') (sv_fs ?sv) dest entry = fails"
      using Cons.prems(1) by (simp add: step_fails_upd[OF assms(3)])
    have go: "session_step cf ss (t\<lparr>tk_phase := Writing tid entry scan dest (x # stages)\<rparr>, sv)
        = (t\<lparr>tk_phase := Writing tid entry scan dest stages\<rparr>, ?sv)"
      using Cons.prems(1) False by (simp add: session_step_def step_write_def x Let_def flip: assms(1) assms(2))
    have "r = Inl err \<Longrightarrow> last sts = last sts1" for err using run_stages_frame[OF run(1)] run(2) by (auto split: sum.splits)
    with session_runs_next[OF go Cons.IH[OF fl run(1)]] show ?thesis
      by (cases r; cases "fails WRename") (simp_all add: write_end_fs split: prod.split)
  qed
qed

text \<open>The destination of a write is never the temporary file.\<close>

definition tmp_apart :: "config \<Rightarrow> SiloSession \<Rightarrow> server \<Rightarrow> FileEntry \<Rightarrow> bool" where
  "tmp_apart cf ss sv entry \<longleftrightarrow>
     (case resolve (cf_fuel cf) (sv_fs sv) (ss_jail ss) (fe_path entry) of
        Inl _ \<Rightarrow> True
      | Inr dest \<Rightarrow> (case kernel_path (cf_fuel cf) (sv_fs sv) dest of None \<Rightarrow> True | Some d \<Rightarrow> tmp_path d (cf_tmp_hex cf) \<noteq> d))"

lemma run_stages_not_jail: "run_stages env e fails tmp stages fs \<noteq> (Inl (WriteJail j), sts)"
  by (induction stages arbitrary: fs sts) (auto simp: clean_up_def step_error_def Let_def split: prod.splits if_splits)

lemma deliver_store:
  assumes "atomic_write (cf_env cf') (cf_tmp_hex cf') (cf_fuel cf') (sv_fs sv) (ss_jail ss) (fe_path entry) content entry = (r, sts)"
    and "owner_ok cf' ss entry"
  shows "deliver_to cf' (store_content cf' ss tid entry content scan (tk_inbox t) sv) t = write_end cf' ss tid entry scan r (last sts) t sv"
proof (cases "r = Inl (WriteJail SymlinkLoop)")
  case True
  then have "last sts = sv_fs sv"
    using assms(1) by (auto simp: atomic_write_def Let_def clean_up_def run_stages_not_jail
        split: sum.splits option.splits if_splits prod.splits)
  with True assms show ?thesis by (simp add: store_content_def deliver_to_def write_end_def write_raised_def owner_ok_def)
qed (use assms in \<open>auto simp: store_content_def deliver_to_def write_end_def write_raised_def owner_ok_def
    split: sum.split write_error.split jail_error.split\<close>)

lemma store_runs:
  assumes cf: "cf' = at_message cf (tk_moment t)"
    and "resolve (cf_fuel cf') (sv_fs sv) (ss_jail ss) (fe_path entry) = Inr dest" "kernel_path (cf_fuel cf') (sv_fs sv) dest = Some d"
    and "tmp_path d (cf_tmp_hex cf') \<noteq> d" "mkdirs (sv_fs sv) [] (butlast d) = Some fs1" "\<not> os_fail (cf_env cf') WMkdir" "owner_ok cf' ss entry"
  shows "session_runs cf ss (t\<lparr>tk_phase := Writing tid entry scan d (write_stages (cf_env cf') content entry)\<rparr>, sv\<lparr>sv_fs := fs1\<rparr>)
    (deliver_to cf' (store_content cf' ss tid entry content scan (tk_inbox t) sv) t)"
proof -
  let ?fails = "step_fails (cf_env cf') fs1 d entry" and ?tmp = "tmp_path d (cf_tmp_hex cf')" and ?st = "write_stages (cf_env cf') content entry"
  obtain r sts where run: "run_stages (cf_env cf') entry ?fails ?tmp ?st fs1 = (r, sts)" by fastforce
  have ne: "sts \<noteq> []" if "r = Inl err" for err using run_stages_frame[OF run] that by simp
  obtain r1 sts1 where out: "atomic_write (cf_env cf') (cf_tmp_hex cf') (cf_fuel cf') (sv_fs sv) (ss_jail ss) (fe_path entry) content entry = (r1, sts1)" by fastforce
  have "session_runs cf ss (t\<lparr>tk_phase := Writing tid entry scan d ?st\<rparr>, sv\<lparr>sv_fs := fs1\<rparr>) (write_end cf' ss tid entry scan r1 (last sts1) t sv)"
    using write_runs[OF cf refl assms(4), where sv = "sv\<lparr>sv_fs := fs1\<rparr>" and stages = ?st
        and entry = entry and fails = ?fails and r = r and sts = sts and tid = tid and scan = scan and ss = ss] run ne
      out[unfolded atomic_write_unfold[OF assms(2,3)]] assms(5,6)
    by (cases r) (auto simp: write_end_fs split: if_splits prod.splits)
  then show ?thesis unfolding deliver_store[OF out assms(7)] .
qed

lemma scan_runs:
  assumes cf: "cf' = at_message cf (tk_moment t)" and "tmp_apart cf' ss sv entry"
  shows "session_runs cf ss (t\<lparr>tk_phase := Scanning tid entry content\<rparr>, sv)
    (deliver_to cf' (check_content cf' ss tid entry (cf_rapidhash cf' content) content (tk_inbox t) sv) t)"
proof (cases "\<exists>scan dest d fs1. server_scan cf' content = Inr scan \<and> sc_is_clean scan \<and> owner_ok cf' ss entry
    \<and> resolve (cf_fuel cf') (sv_fs sv) (ss_jail ss) (fe_path entry) = Inr dest \<and> kernel_path (cf_fuel cf') (sv_fs sv) dest = Some d
    \<and> (if os_fail (cf_env cf') WMkdir then None else mkdirs (sv_fs sv) [] (butlast d)) = Some fs1")
  case True
  then obtain scan dest d fs1 where c: "server_scan cf' content = Inr scan" "sc_is_clean scan" "owner_ok cf' ss entry"
      "resolve (cf_fuel cf') (sv_fs sv) (ss_jail ss) (fe_path entry) = Inr dest" "kernel_path (cf_fuel cf') (sv_fs sv) dest = Some d"
      "mkdirs (sv_fs sv) [] (butlast d) = Some fs1" "\<not> os_fail (cf_env cf') WMkdir" by (auto split: if_splits)
  have go: "session_step cf ss (t\<lparr>tk_phase := Scanning tid entry content\<rparr>, sv)
      = (t\<lparr>tk_phase := Writing tid entry scan d (write_stages (cf_env cf') content entry)\<rparr>, sv\<lparr>sv_fs := fs1\<rparr>)"
    using c by (simp add: session_step_def step_scan_def owner_ok_def flip: cf)
  have "tmp_path d (cf_tmp_hex cf') \<noteq> d" using assms(2) c(4,5) by (simp add: tmp_apart_def)
  from session_runs_next[OF go store_runs[OF cf c(4,5) this c(6,7,3)]] c(1,2) show ?thesis by (simp add: check_content_def)
next
  case False
  obtain r sts where out: "atomic_write (cf_env cf') (cf_tmp_hex cf') (cf_fuel cf') (sv_fs sv) (ss_jail ss) (fe_path entry) content entry = (r, sts)" by fastforce
  have stop: "step_scan cf' ss tid entry content (t\<lparr>tk_phase := Scanning tid entry content\<rparr>) sv
      = deliver_to cf' (check_content cf' ss tid entry (cf_rapidhash cf' content) content (tk_inbox t) sv) t"
  proof (cases "\<exists>scan. server_scan cf' content = Inr scan \<and> sc_is_clean scan \<and> owner_ok cf' ss entry")
    case True
    then obtain scan where c: "server_scan cf' content = Inr scan" "sc_is_clean scan" "owner_ok cf' ss entry" by blast
    show ?thesis using False c out deliver_store[OF out c(3)]
      by (auto simp: step_scan_def check_content_def owner_ok_def write_end_def atomic_write_def write_raised_phase
          split: sum.splits option.splits)
  qed (auto simp: step_scan_def deliver_to_def check_content_def store_content_def owner_ok_def reply_phase split: sum.split)
  show ?thesis by (intro session_runs_stepI) (simp add: session_step_def stop flip: cf)
qed

text \<open>What a transfer does once its chunks are there, or did not come.\<close>

definition collected_outcome ::
  "config \<Rightarrow> SiloSession \<Rightarrow> SiloIndex \<Rightarrow> uuid \<Rightarrow> FileEntry \<Rightarrow> collected \<times> inbox \<Rightarrow> server \<Rightarrow> outcome" where
  "collected_outcome cf ss ix tid entry x sv =
     (case x of
        (CollectExc e, i1) \<Rightarrow> finish (Inl e) i1 [] sv
      | (ProtocolError, i1) \<Rightarrow> finish (Inr ()) i1 [TransferNackMsg tid ''protocol_error''] sv
      | (Chunks chunks, i1) \<Rightarrow>
          (case next_msg i1 of
             (Inl e, i2) \<Rightarrow> finish (Inl e) i2 [] sv
           | (Inr (TransferCommitMsg t h), i2) \<Rightarrow>
               if t \<noteq> tid then finish (Inr ()) i2 [TransferNackMsg tid ''protocol_error''] sv
               else
                 (case rebuild cf sv ss ix entry (join_chunks chunks) of
                    Inl (BaseExc e) \<Rightarrow> finish (Inl e) i2 [] sv
                  | Inl (BaseDelta e) \<Rightarrow> finish (Inr ()) i2 [TransferNackMsg tid (''delta_error: '' @ cf_text cf (TextDelta e))] sv
                  | Inl BaseOSError \<Rightarrow> finish (Inr ()) i2 [TransferNackMsg tid (''delta_error: '' @ cf_text cf TextRead)] sv
                  | Inr content \<Rightarrow> check_content cf ss tid entry h content i2 sv)
           | (Inr _, i2) \<Rightarrow> finish (Inr ()) i2 [TransferNackMsg tid ''protocol_error''] sv))"

lemma handle_transfer_collected:
  "resolve (cf_fuel cf) (sv_fs sv) (ss_jail ss) (fe_path entry) = Inr dest
    \<Longrightarrow> handle_transfer cf ss ix tid entry n i sv = collected_outcome cf ss ix tid entry (collect_chunks tid (nat n) [] i) sv"
  by (simp only: handle_transfer_def collected_outcome_def sum.case)

lemma deliver_to_frame: "deliver_to cf' oc (t\<lparr>tk_inbox := i\<rparr>) = deliver_to cf' oc t" "deliver_to cf' oc (t\<lparr>tk_phase := ph\<rparr>) = deliver_to cf' oc t"
  "deliver_to cf' oc (t\<lparr>tk_inbox := i, tk_moment := m\<rparr>) = deliver_to cf' oc (t\<lparr>tk_moment := m\<rparr>)"
  by (simp_all add: deliver_to_def reply_def split: sum.split)

lemma commit_runs:
  assumes cf: "cf' = at_message cf (tk_moment t)" and "tmp_apart cf' ss sv entry"
  shows "session_runs cf ss (t\<lparr>tk_phase := Collecting tid entry 0 chunks\<rparr>, sv)
    (deliver_to cf' (collected_outcome cf' ss (tk_index t) tid entry (Chunks chunks, tk_inbox t) sv) t)"
proof -
  obtain r i where nm: "next_msg (tk_inbox t) = (r, i)" by fastforce
  show ?thesis
  proof (cases "\<exists>content. r = Inr (TransferCommitMsg tid (cf_rapidhash cf' content)) \<and> rebuild cf' sv ss (tk_index t) entry (join_chunks chunks) = Inr content")
    case True
    then obtain content where c: "r = Inr (TransferCommitMsg tid (cf_rapidhash cf' content))" "rebuild cf' sv ss (tk_index t) entry (join_chunks chunks) = Inr content"
      by blast
    have go: "session_step cf ss (t\<lparr>tk_phase := Collecting tid entry 0 chunks\<rparr>, sv) = (t\<lparr>tk_inbox := i, tk_phase := Scanning tid entry content\<rparr>, sv)"
      by (simp add: session_step_def step_collect_def step_commit_def nm c flip: cf)
    from session_runs_next[OF go scan_runs[where cf' = cf']] assms c(2)[unfolded cf] show ?thesis
      by (simp add: collected_outcome_def nm c(1) deliver_to_frame)
  next
    case False
    have "step_collect cf' ss tid entry 0 chunks (t\<lparr>tk_phase := Collecting tid entry 0 chunks\<rparr>) sv
        = fst (deliver_to cf' (collected_outcome cf' ss (tk_index t) tid entry (Chunks chunks, tk_inbox t) sv) t)"
      "snd (deliver_to cf' (collected_outcome cf' ss (tk_index t) tid entry (Chunks chunks, tk_inbox t) sv) t) = sv"
      using False by (cases r; auto simp: step_collect_def step_commit_def nm collected_outcome_def deliver_to_def check_content_def reply_def
          split: AnyMsg.split sum.split base_error.split)+
    then show ?thesis by (intro session_runs_stepI) (simp add: session_step_def prod_eq_iff flip: cf)
  qed
qed

lemma collect_runs:
  assumes "cf' = at_message cf (tk_moment t)" "tmp_apart cf' ss sv entry"
  shows "session_runs cf ss (t\<lparr>tk_phase := Collecting tid entry k chunks\<rparr>, sv)
    (deliver_to cf' (collected_outcome cf' ss (tk_index t) tid entry (collect_chunks tid k chunks (tk_inbox t)) sv) t)"
  using assms
proof (induction k arbitrary: t chunks)
  case 0
  then show ?case using commit_runs by simp
next
  case (Suc k)
  obtain r i where nm: "next_msg (tk_inbox t) = (r, i)" by fastforce
  show ?case
  proof (cases "\<exists>s d. r = Inr (TransferChunkMsg tid s d)")
    case True
    then obtain s d where r: "r = Inr (TransferChunkMsg tid s d)" by blast
    have go: "session_step cf ss (t\<lparr>tk_phase := Collecting tid entry (Suc k) chunks\<rparr>, sv)
        = (t\<lparr>tk_inbox := i, tk_phase := Collecting tid entry k (dict_set s d chunks)\<rparr>, sv)"
      by (simp add: session_step_def step_collect_def nm r)
    from session_runs_next[OF go Suc.IH[of "t\<lparr>tk_inbox := i\<rparr>"]] Suc.prems show ?thesis by (simp add: nm r deliver_to_frame)
  next
    case False
    then show ?thesis
      by (intro session_runs_stepI) (cases r; auto simp: session_step_def step_collect_def nm collected_outcome_def deliver_to_def reply_def
          simp flip: Suc.prems(1) split: AnyMsg.split)
  qed
qed

lemma transfer_runs:
  assumes "cf' = at_message cf (length i)" "tmp_apart cf' ss sv entry" "tk_phase t = AwaitMsg"
    "tk_inbox t = Inr (TransferBeginMsg tid entry sz n) # i"
  shows "session_runs cf ss (t, sv)
    (deliver_to cf' (handle_transfer cf' ss (tk_index t) tid entry n i sv) (t\<lparr>tk_moment := length i\<rparr>))"
proof (cases "resolve (cf_fuel cf') (sv_fs sv) (ss_jail ss) (fe_path entry)")
  case (Inl e)
  show ?thesis
  proof (cases "e = SymlinkLoop")
    case True
    then show ?thesis using assms(3,4) Inl[unfolded assms(1)]
      by (intro session_runs_stepI) (simp add: session_step_def step_message_def step_begin_def next_msg_def handle_transfer_def deliver_to_def
          assms(1))
  next
    case False
    let ?sv = "log_audit (PathTraversal (ss_client_cn ss) (ss_silo_id ss) (fe_path entry)) sv" and ?t = "t\<lparr>tk_inbox := i, tk_moment := length i\<rparr>"
    let ?d = "\<lambda>tid k. Draining tid k (cf_text cf' (TextJail e))"
    have go: "session_step cf ss (t, sv) = (?t\<lparr>tk_phase := ?d tid (Suc (nat n))\<rparr>, ?sv)"
      using assms(3,4) Inl[unfolded assms(1)] False by (cases e) (simp_all add: session_step_def step_message_def step_begin_def next_msg_def assms(1))
    have d: "handle_transfer cf' ss (tk_index t) tid entry n i sv = drain_and_nack tid n (cf_text cf' (TextJail e)) i ?sv"
      using Inl False by (cases e) (simp_all add: handle_transfer_def)
    from session_runs_next[OF go drain_runs[where cf' = cf']] show ?thesis
      unfolding d by (simp add: assms(1) drain_and_nack_def deliver_to_def reply_def del: drain.simps)
  qed
next
  case (Inr dest)
  let ?t = "t\<lparr>tk_inbox := i, tk_moment := length i\<rparr>"
  have go: "session_step cf ss (t, sv) = (?t\<lparr>tk_phase := Collecting tid entry (nat n) []\<rparr>, sv)"
    using assms(3,4) Inr[unfolded assms(1)] by (simp add: session_step_def step_message_def step_begin_def next_msg_def assms(1))
  from session_runs_next[OF go collect_runs[where cf' = cf']] assms(1,2) show ?thesis
    unfolding handle_transfer_collected[OF Inr] by (simp add: deliver_to_frame)
qed

text \<open>In a silo without links the name of the temporary file is not the destination.\<close>

lemma linkfree_tmp_apart:
  assumes "linkfree root (sv_fs sv)" "root_of ss = root" "avoids cf (fe_path entry)"
  shows "tmp_apart (at_message cf n) ss sv entry"
  using avoids_tmp[OF assms(1,3)]
  by (simp add: tmp_apart_def linkfree_resolve[OF assms(1,2) avoids_safe[OF assms(3)]] linkfree_kernel[OF assms(1) avoids_safe[OF assms(3)]])

definition ends :: "config \<Rightarrow> SiloSession \<Rightarrow> task \<times> server \<Rightarrow> server_exc \<times> AnyMsg list \<times> server \<Rightarrow> bool" where
  "ends cf ss x out \<longleftrightarrow> (\<exists>t. session_runs cf ss x (t, snd (snd out)) \<and> tk_phase t = Over (fst out) \<and> tk_sent t = fst (snd out))"

lemma ends_now: "tk_phase t = Over e \<Longrightarrow> tk_sent t = sent \<Longrightarrow> ends cf ss (t, sv) (e, sent, sv)"
  unfolding ends_def using session_runs_refl by (intro exI[of _ t]) simp

lemma ends_runs: "session_runs cf ss x y \<Longrightarrow> ends cf ss y out \<Longrightarrow> ends cf ss x out"
  using session_runs_trans unfolding ends_def by blast

lemma ends_step: "session_step cf ss x = y \<Longrightarrow> ends cf ss y out \<Longrightarrow> ends cf ss x out"
  using ends_runs[OF session_runs_stepI] .

lemma loop_ends:
  assumes "linkfree root (sv_fs sv)" "root_of ss = root" "inbox_avoids cf i"
  shows "ends cf ss (\<lparr>tk_phase = AwaitMsg, tk_index = ix, tk_inbox = i, tk_sent = sent, tk_moment = mo\<rparr>, sv) (serve_loop cf ss ix i sent sv)"
  using assms
proof (induction cf ss ix i sent sv arbitrary: mo rule: serve_loop.induct)
  case (1 cf ss ix sent sv)
  show ?case by (rule ends_step[OF refl]) (simp add: session_step_def step_message_def next_msg_def ends_now)
next
  case (2 cf ss ix e i sent sv)
  show ?case by (rule ends_step[OF refl]) (simp add: session_step_def step_message_def next_msg_def ends_now)
next
  case (3 cf ss ix m i sent sv)
  let ?t = "\<lparr>tk_phase = AwaitMsg, tk_index = ix, tk_inbox = Inr m # i, tk_sent = sent, tk_moment = mo\<rparr>"
  let ?t' = "\<lparr>tk_phase = AwaitMsg, tk_index = ix, tk_inbox = i, tk_sent = sent, tk_moment = mo\<rparr>"
  let ?cf = "at_message cf (length i)"
  have av: "\<forall>p \<in> set (msg_paths m). avoids cf p" "inbox_avoids cf i"
    using "3.prems"(3) by (simp_all add: inbox_avoids_Cons)
  then have safe: "\<forall>p \<in> set (msg_paths m). safe_path p" by (auto intro: avoids_safe)
  show ?case
  proof (cases m)
    case (TransferBeginMsg tid entry sz n)
    define oc where "oc = handle_transfer ?cf ss ix tid entry n i sv"
    have a: "avoids cf (fe_path entry)" using av(1) TransferBeginMsg by simp
    have go: "session_runs cf ss (?t, sv) (deliver_to ?cf oc (?t\<lparr>tk_moment := length i\<rparr>))"
      using transfer_runs[OF refl linkfree_tmp_apart[OF "3.prems"(1,2) a], of ?t tid sz n] TransferBeginMsg by (simp add: oc_def)
    have lf: "linkfree root (sv_fs (oc_server oc))"
      unfolding oc_def by (rule transfer_linkfree[OF "3.prems"(1,2) avoids_safe[OF a]])
    have sf: "inbox_avoids cf (oc_inbox oc)" using inbox_avoids_subset[OF av(2)] handle_transfer_subset by (simp add: oc_def)
    show ?thesis
    proof (cases "is_error (oc_result oc) \<or> cf_send_fails cf (length sent)")
      case True
      then show ?thesis using ends_runs[OF go]
        by (cases "oc_result oc") (auto simp: TransferBeginMsg deliver_to_def reply_at reply_def ends_now simp flip: oc_def)
    next
      case False
      then obtain u where u: "oc_result oc = Inr u" "\<not> cf_send_fails cf (length sent)" by (cases "oc_result oc") auto
      then show ?thesis using ends_runs[OF go] "3.IH"(15)[OF TransferBeginMsg oc_def u lf "3.prems"(2) sf]
        by (simp add: TransferBeginMsg deliver_to_def reply_at reply_def flip: oc_def)
    qed
  next
    case (FileDeleteMsg p ts)
    obtain r sv1 where h: "handle_delete ?cf ss p sv = (r, sv1)" by fastforce
    have lf: "linkfree root (sv_fs sv1)"
      using delete_linkfree[OF "3.prems"(1,2), of p ?cf] safe h FileDeleteMsg by simp
    have go: "session_step cf ss (?t, sv) = after_handler (r, sv1) ?t'" using h by (simp add: session_step_def step_message_def next_msg_def FileDeleteMsg)
    show ?thesis
      using ends_step[OF go] "3.IH"(10)[OF FileDeleteMsg h[symmetric] _ lf "3.prems"(2) av(2)] h
      by (cases r) (simp_all add: after_handler_def FileDeleteMsg ends_now)
  next
    case (FileRenameMsg p q ts)
    obtain r sv1 where h: "handle_rename ?cf ss p q sv = (r, sv1)" by fastforce
    have lf: "linkfree root (sv_fs sv1)"
      using rename_linkfree[OF "3.prems"(1,2), of p q ?cf] safe h FileRenameMsg by simp
    have go: "session_step cf ss (?t, sv) = after_handler (r, sv1) ?t'" using h by (simp add: session_step_def step_message_def next_msg_def FileRenameMsg)
    show ?thesis
      using ends_step[OF go] "3.IH"(11)[OF FileRenameMsg h[symmetric] _ lf "3.prems"(2) av(2)] h
      by (cases r) (simp_all add: after_handler_def FileRenameMsg ends_now)
  qed (use "3.IH"(1-9,12-14,16-23) "3.prems"(1,2) av(2) ends_step[OF refl, of cf ss "(?t, sv)"] in
      \<open>simp_all add: session_step_def step_message_def next_msg_def\<close>)
qed

lemma sync_ends:
  assumes "linkfree root (sv_fs sv)" "root_of ss = root" "inbox_avoids cf i"
  shows "ends cf ss (\<lparr>tk_phase = AwaitSync, tk_index = ix, tk_inbox = i, tk_sent = [], tk_moment = mo\<rparr>, sv)
    (case server_handle_sync_request ix (case i of [] \<Rightarrow> Inl ConnClosed | r # _ \<Rightarrow> r) of
       (msgs, Inl e) \<Rightarrow> (ExcReconcile e, msgs, sv)
     | (msgs, Inr _) \<Rightarrow> if cf_send_fails cf 0 then (ExcSend, [], sv) else serve_loop cf ss ix (tl i) msgs sv)"
proof -
  let ?t = "\<lparr>tk_phase = AwaitSync, tk_index = ix, tk_inbox = i, tk_sent = [], tk_moment = mo\<rparr>"
  have av: "inbox_avoids cf (tl i)" using inbox_avoids_subset[OF assms(3)] by (cases i) auto
  obtain msgs r where sync: "server_handle_sync_request ix (case i of [] \<Rightarrow> Inl ConnClosed | r # _ \<Rightarrow> r) = (msgs, r)" by fastforce
  have go: "session_step cf ss (?t, sv) = (case r of
      Inl e \<Rightarrow> (\<lparr>tk_phase = Over (ExcReconcile e), tk_index = ix, tk_inbox = i, tk_sent = msgs, tk_moment = mo\<rparr>, sv)
    | Inr _ \<Rightarrow> (reply cf msgs (?t\<lparr>tk_inbox := tl i\<rparr>), sv))"
    using sync by (simp add: session_step_def step_sync_def split: sum.split)
  show ?thesis using ends_step[OF go] loop_ends[OF assms(1,2) av] by (cases r) (simp_all add: sync ends_now reply_def)
qed

lemma session_ends:
  assumes "linkfree root (sv_fs sv)" "root_of ss = root" "inbox_avoids cf i"
  shows "ends cf ss (new_task i, sv) (serve_session cf ss i sv)"
proof (cases "dict_get (sv_indexes sv) (ss_silo_id ss)")
  case None
  let ?ix = "new_SiloIndex (ss_silo_id ss) ''server''"
  let ?sv = "sv\<lparr>sv_indexes := dict_set (ss_silo_id ss) ?ix (sv_indexes sv)\<rparr>"
  have go: "session_step cf ss (new_task i, sv) = (\<lparr>tk_phase = AwaitSync, tk_index = ?ix, tk_inbox = i, tk_sent = [], tk_moment = 0\<rparr>, ?sv)"
    using None by (simp add: session_step_def step_start_def new_task_def Let_def)
  have "linkfree root (sv_fs ?sv)" using assms(1) by simp
  from ends_step[OF go sync_ends[OF this assms(2,3)]] show ?thesis by (simp only: serve_session_def None option.case Let_def prod.case)
next
  case (Some ix)
  have go: "session_step cf ss (new_task i, sv) = (\<lparr>tk_phase = AwaitSync, tk_index = ix, tk_inbox = i, tk_sent = [], tk_moment = 0\<rparr>, sv)"
    using Some by (simp add: session_step_def step_start_def new_task_def)
  from ends_step[OF go sync_ends[OF assms]] show ?thesis by (simp only: serve_session_def Some option.case Let_def prod.case)
qed

end
