(* ===== verification/Concurrent_Sessions.thy ===== *)
theory Concurrent_Sessions
  imports Session_Tasks
begin

text \<open>
  Any number of sessions at the same time.  Each connection of \<^verbatim>\<open>server.py\<close> is a task of \<open>Session_Tasks\<close>; they share the file
  system, the indexes, the registry and the audit log, and the event loop may run another task at every \<^verbatim>\<open>await\<close>.
  The registry admits one session per silo.  Under every interleaving each client is answered, and each
  silo filled, as if the session had run alone.
\<close>

section \<open>Interleaved tasks\<close>

text \<open>Every connection has its own failures and draws its own temporary names.\<close>

record job =
  jb_session :: SiloSession
  jb_later :: "nat \<Rightarrow> moment"
  jb_send_fails :: "nat \<Rightarrow> bool"

definition job_config :: "config \<Rightarrow> job \<Rightarrow> config" where
  "job_config cf j = cf\<lparr>cf_later := jb_later j, cf_send_fails := jb_send_fails j\<rparr>"

abbreviation job_root :: "job \<Rightarrow> path" where
  "job_root j \<equiv> root_of (jb_session j)"

abbreviation job_silo :: "job \<Rightarrow> uuid" where
  "job_silo j \<equiv> ss_silo_id (jb_session j)"

definition machine_step :: "config \<Rightarrow> job list \<Rightarrow> nat \<Rightarrow> task list \<times> server \<Rightarrow> task list \<times> server" where
  "machine_step cf jobs d x =
     (case session_step (job_config cf (jobs ! d)) (jb_session (jobs ! d)) (fst x ! d, snd x) of
        (t, sv) \<Rightarrow> ((fst x)[d := t], sv))"

section \<open>What a session sees\<close>

fun audit_silo :: "audit_event \<Rightarrow> uuid option" where
  "audit_silo (AuthFail cn) = None"
| "audit_silo (AuthOk cn sid) = Some sid"
| "audit_silo (SessionStart cn sid) = Some sid"
| "audit_silo (SessionEnd cn sid) = Some sid"
| "audit_silo (PathTraversal cn sid p) = Some sid"
| "audit_silo (Quarantine cn sid p) = Some sid"
| "audit_silo (UidDeniedEvent cn sid) = Some sid"
| "audit_silo (FileWritten cn sid p) = Some sid"
| "audit_silo (FileDeleted cn sid p) = Some sid"
| "audit_silo (FileRenamed cn sid p q) = Some sid"

definition silo_audit :: "uuid \<Rightarrow> server \<Rightarrow> audit_event list" where
  "silo_audit sid sv = filter (\<lambda>ev. audit_silo ev = Some sid) (sv_audit sv)"

definition silo_view :: "path \<Rightarrow> uuid \<Rightarrow> server \<Rightarrow> file_system \<times> SiloIndex option \<times> audit_event list" where
  "silo_view root sid sv = ((\<lambda>p. if near root p then sv_fs sv p else None), dict_get (sv_indexes sv) sid, silo_audit sid sv)"

lemma silo_view_eq:
  "silo_view root sid sv = silo_view root sid sv2 \<longleftrightarrow>
     agree root (sv_fs sv) (sv_fs sv2) \<and> dict_get (sv_indexes sv) sid = dict_get (sv_indexes sv2) sid \<and> silo_audit sid sv = silo_audit sid sv2"
  by (auto simp: silo_view_def agree_def fun_eq_iff)

text \<open>What a step may change: files strictly below the root and the temporary files \<open>T\<close> beside the root, the index of the silo, and
  the end of the log, by entries about the silo.\<close>

definition footprint :: "path \<Rightarrow> path set \<Rightarrow> uuid \<Rightarrow> server \<Rightarrow> server \<Rightarrow> bool" where
  "footprint root T sid sv sv' \<longleftrightarrow>
     (\<forall>p. sv_fs sv' p \<noteq> sv_fs sv p \<longrightarrow> strict_prefix root p \<or> p \<in> T)
     \<and> (\<forall>k. k \<noteq> sid \<longrightarrow> dict_get (sv_indexes sv') k = dict_get (sv_indexes sv) k)
     \<and> (\<exists>evs. sv_audit sv' = sv_audit sv @ evs \<and> list_all (\<lambda>ev. audit_silo ev = Some sid) evs)"

lemma footprint_refl: "footprint root T sid sv sv"
  by (simp add: footprint_def)

lemma footprint_log: "audit_silo ev = Some sid \<Longrightarrow> footprint root T sid sv (log_audit ev sv)"
  by (simp add: footprint_def)

lemma footprint_fs:
  "(\<And>p. fs p \<noteq> sv_fs sv p \<Longrightarrow> strict_prefix root p \<or> p \<in> T) \<Longrightarrow> footprint root T sid sv (sv\<lparr>sv_fs := fs\<rparr>)"
  by (auto simp: footprint_def)

lemma footprint_fs_log:
  "(\<And>p. fs p \<noteq> sv_fs sv p \<Longrightarrow> strict_prefix root p \<or> p \<in> T) \<Longrightarrow> audit_silo ev = Some sid
    \<Longrightarrow> footprint root T sid sv (log_audit ev (sv\<lparr>sv_fs := fs\<rparr>))"
  by (auto simp: footprint_def)

section \<open>Each step stays in its silo\<close>

definition stays :: "path \<Rightarrow> path set \<Rightarrow> uuid \<Rightarrow> server \<Rightarrow> server \<Rightarrow> bool" where
  "stays root T sid sv sv' \<longleftrightarrow> footprint root T sid sv sv' \<and> linkfree root (sv_fs sv')"

lemma delete_stays:
  assumes "linkfree root (sv_fs sv)" "root_of ss = root" "safe_path p"
  shows "stays root T (ss_silo_id ss) sv (snd (handle_delete cf ss p sv))"
proof -
  have "footprint root T (ss_silo_id ss) sv (log_audit (FileDeleted (ss_client_cn ss) (ss_silo_id ss) p) (sv\<lparr>sv_fs := fs'\<rparr>))"
    if "unlink (cf_env cf) (sv_fs sv) (root @ path_parts p) = Some fs'" for fs'
    using unlink_below[OF linkfree_root[OF assms(1)] _ that] by (intro footprint_fs_log) auto
  then show ?thesis
    using delete_linkfree[OF assms, of cf]
    by (auto simp: stays_def handle_delete_linkfree[OF assms] footprint_refl split: option.split)
qed

lemma parents_below:
  "linkfree root fs \<Longrightarrow> parents_made env fs (root @ ps) = Some fs1 \<Longrightarrow> fs1 p \<noteq> fs p \<Longrightarrow> strict_prefix root p"
  using mkdirs_below[of root fs "root @ ps" fs1 p] linkfree_dirs[of root fs] by (auto simp: parents_made_def split: if_splits)

lemma rename_stays:
  assumes "linkfree root (sv_fs sv)" "root_of ss = root" "safe_path p" "safe_path q"
  shows "stays root T (ss_silo_id ss) sv (snd (handle_rename cf ss p q sv))"
proof (cases "parents_made (cf_env cf) (sv_fs sv) (root @ path_parts q)")
  case None
  then show ?thesis using assms(1) by (simp add: stays_def handle_rename_linkfree[OF assms] footprint_refl)
next
  case (Some fs1)
  note lf = parents_made_linkfree[OF assms(1) Some] and low = parents_below[OF assms(1) Some]
  have "footprint root T (ss_silo_id ss) sv (log_audit (FileRenamed (ss_client_cn ss) (ss_silo_id ss) p q) (sv\<lparr>sv_fs := fs2\<rparr>))"
    if ren: "os_rename (cf_env cf) fs1 (root @ path_parts p) (root @ path_parts q) = Some fs2" for fs2
  proof (rule footprint_fs_log)
    show "strict_prefix root x \<or> x \<in> T" if "fs2 x \<noteq> sv_fs sv x" for x
      using low[of x] os_rename_below[OF linkfree_root[OF lf] _ _ ren, of x] that by (metis prefixI)
  qed simp
  moreover have "footprint root T (ss_silo_id ss) sv (sv\<lparr>sv_fs := fs1\<rparr>)" using low by (intro footprint_fs) auto
  ultimately show ?thesis
    using rename_linkfree[OF assms, of cf] by (auto simp: stays_def handle_rename_linkfree[OF assms] Some split: option.split)
qed

text \<open>A write to the root itself makes its temporary file beside the root and fails.\<close>

lemma write_stays:
  assumes "linkfree root (sv_fs sv)" "dest = root @ q" "tmp_path root (cf_tmp_hex cf) \<in> T"
  shows "stays root T (ss_silo_id ss) sv (snd (step_write cf ss tid entry scan dest stages t sv))"
proof -
  let ?tmp = "tmp_path dest (cf_tmp_hex cf)"
  have tmp: "strict_prefix root ?tmp \<or> ?tmp = tmp_path root (cf_tmp_hex cf)" using tmp_path_below[of q root] assms(2) by (cases q) auto
  have tmpT: "strict_prefix root ?tmp \<or> ?tmp \<in> T" using tmp assms(3) by auto
  have beside: "\<not> near root (tmp_path root (cf_tmp_hex cf))" by (rule tmp_beside[OF linkfree_silo_ok[OF assms(1)]])
  have lf: "linkfree root ((sv_fs sv)(?tmp := n))" if "\<And>t. n \<noteq> Some (Symlink t)" for n
    by (rule linkfreeI[OF assms(1)]) (use that tmp beside in \<open>auto split: if_splits\<close>)
  have clean: "stays root T (ss_silo_id ss) sv (sv\<lparr>sv_fs := fs'\<rparr>)"
    if "clean_up (cf_env cf) ?tmp err (sv_fs sv) = (err', fs')" for err err' fs'
    using that tmpT lf[of None] assms(1) by (auto simp: clean_up_def stays_def footprint_def split: if_splits)
  have d: "strict_prefix root dest" if "\<not> step_fails (cf_env cf) (sv_fs sv) dest entry WRename"
    using that linkfree_root[OF assms(1)] assms(2) by (cases q) (auto simp: step_fails_def strict_prefix_def)
  have lf2: "linkfree root ((sv_fs sv)(?tmp := None, dest := sv_fs sv ?tmp))" if "\<not> step_fails (cf_env cf) (sv_fs sv) dest entry WRename"
  proof (rule linkfreeI[OF lf[of None]])
    have "q \<noteq> []" using d[OF that] assms(2) by auto
    then obtain r where "?tmp = root @ r" using tmp_path_below[of q root "cf_tmp_hex cf"] assms(2) by (auto simp: strict_prefix_def prefix_def)
    then show "((sv_fs sv)(?tmp := None, dest := sv_fs sv ?tmp)) (root @ x) = ((sv_fs sv)(?tmp := None)) (root @ x) \<or>
        (\<exists>r. ((sv_fs sv)(?tmp := None)) (root @ r) = Some (Symlink u))"
      if "((sv_fs sv)(?tmp := None, dest := sv_fs sv ?tmp)) (root @ x) = Some (Symlink u)" for x u
      using that assms(1) by (auto simp: linkfree_def split: if_splits)
  qed (use d[OF that] in \<open>auto split: if_splits\<close>)
  have put: "stays root T (ss_silo_id ss) sv (log_audit (FileWritten (ss_client_cn ss) (ss_silo_id ss) (fe_path entry))
      (sv\<lparr>sv_fs := (sv_fs sv)(?tmp := None, dest := sv_fs sv ?tmp)\<rparr>))" if "\<not> step_fails (cf_env cf) (sv_fs sv) dest entry WRename"
    unfolding stays_def using lf2[OF that] d[OF that] tmpT by (intro conjI footprint_fs_log) (auto split: if_splits)
  have part: "stays root T (ss_silo_id ss) sv (sv\<lparr>sv_fs := (sv_fs sv)(?tmp \<mapsto> Regular n)\<rparr>)" for n
    unfolding stays_def using lf[of "Some (Regular n)"] tmpT by (intro conjI footprint_fs) (auto split: if_splits)
  show ?thesis
    using clean put part by (cases stages) (auto simp: step_write_def Let_def split: prod.split)
qed

text \<open>The paths a task holds: those of the messages to come, of the index, and of the transfer it is in.\<close>

fun recv_safe :: "frame_error + AnyMsg \<Rightarrow> bool" where
  "recv_safe (Inl e) = True"
| "recv_safe (Inr m) = list_all safe_path (msg_paths m)"

definition paths_safe :: "inbox \<Rightarrow> bool" where
  "paths_safe i \<longleftrightarrow> list_all recv_safe i"

definition index_safe :: "SiloIndex \<Rightarrow> bool" where
  "index_safe ix \<longleftrightarrow> list_all (\<lambda>(p, r). safe_path p) (ix_records ix)"

fun phase_safe :: "path \<Rightarrow> phase \<Rightarrow> bool" where
  "phase_safe root (Collecting tid entry k chunks) = safe_path (fe_path entry)"
| "phase_safe root (Scanning tid entry content) = safe_path (fe_path entry)"
| "phase_safe root (Writing tid entry scan dest stages) = prefix root dest"
| "phase_safe root ph = True"

definition task_safe :: "path \<Rightarrow> task \<Rightarrow> bool" where
  "task_safe root t \<longleftrightarrow> paths_safe (tk_inbox t) \<and> index_safe (tk_index t) \<and> phase_safe root (tk_phase t)"

definition stored_safe :: "uuid \<Rightarrow> server \<Rightarrow> bool" where
  "stored_safe sid sv \<longleftrightarrow> (case dict_get (sv_indexes sv) sid of None \<Rightarrow> True | Some ix \<Rightarrow> index_safe ix)"

lemma new_index_safe [simp]: "index_safe (new_SiloIndex sid n)"
  by (simp add: index_safe_def new_SiloIndex_def)

lemma paths_safe_next:
  assumes "paths_safe i" "next_msg i = (r, j)"
  shows "paths_safe j" "r = Inr m \<Longrightarrow> list_all safe_path (msg_paths m)"
  using assms by (auto simp: paths_safe_def next_msg_def split: list.splits sum.splits)

lemma stays_refl: "linkfree root (sv_fs sv) \<Longrightarrow> stays root T sid sv sv"
  by (simp add: stays_def footprint_refl)

lemma stays_log: "linkfree root (sv_fs sv) \<Longrightarrow> audit_silo ev = Some sid \<Longrightarrow> stays root T sid sv (log_audit ev sv)"
  by (simp add: stays_def footprint_log)

lemma reply_phase_safe [simp]: "phase_safe root (tk_phase (reply cf ms t))"
  by (simp add: reply_def)

lemma reply_safe: "paths_safe (tk_inbox t) \<Longrightarrow> index_safe (tk_index t) \<Longrightarrow> task_safe root (reply cf ms t)"
  by (simp add: task_safe_def reply_def)

lemma raised_safe: "paths_safe (tk_inbox t) \<Longrightarrow> index_safe (tk_index t) \<Longrightarrow> task_safe root (write_raised cf tid err t)"
  using reply_safe[of t root cf]
  by (simp add: task_safe_def[of root "goto _ t"] write_raised_def split: write_error.split jail_error.split)

text \<open>The steps that leave the server alone.\<close>

lemma quiet_steps_safe:
  assumes "task_safe root t"
  shows "task_safe root (step_sync cf t)" "task_safe root (step_drain cf tid k reason t)"
    "safe_path (fe_path entry) \<Longrightarrow> task_safe root (step_collect cf ss tid entry k chunks t sv)"
proof -
  have s: "paths_safe (tk_inbox t)" "index_safe (tk_index t)" using assms by (simp_all add: task_safe_def)
  obtain r i where nm: "next_msg (tk_inbox t) = (r, i)" by fastforce
  have i: "paths_safe i" using paths_safe_next(1)[OF s(1) nm] .
  have tl: "paths_safe (tl (tk_inbox t))" using s(1) by (cases "tk_inbox t") (simp_all add: paths_safe_def)
  show "task_safe root (step_sync cf t)"
    using s tl reply_safe[of "t\<lparr>tk_inbox := tl (tk_inbox t)\<rparr>" root cf] by (auto simp: step_sync_def task_safe_def split: prod.split sum.split)
  show "task_safe root (step_drain cf tid k reason t)"
    using s i by (cases r; cases k) (simp_all add: step_drain_def reply_safe task_safe_def nm)
  have c: "task_safe root (step_commit cf ss tid entry chunks h (t\<lparr>tk_inbox := i\<rparr>) sv)" if "safe_path (fe_path entry)" for h
    using s i that by (simp add: step_commit_def reply_safe task_safe_def split: sum.split base_error.split)
  show "task_safe root (step_collect cf ss tid entry k chunks t sv)" if "safe_path (fe_path entry)"
    using s i that c[OF that] by (cases r; cases k) (simp_all add: step_collect_def reply_safe task_safe_def nm split: AnyMsg.split)
qed

lemma message_stays:
  assumes "linkfree root (sv_fs sv)" "root_of ss = root" "task_safe root t" "step_message cf ss t sv = (t', sv')" "tk_phase t = AwaitMsg"
  shows "stays root T (ss_silo_id ss) sv sv' \<and> task_safe root t' \<and> sv_indexes sv' = sv_indexes sv"
proof -
  obtain r i where nm: "next_msg (tk_inbox t) = (r, i)" by fastforce
  let ?cf = "at_message cf (length i)"
  have s: "index_safe (tk_index t)" "paths_safe i" "r = Inr m \<Longrightarrow> list_all safe_path (msg_paths m)" for m
    using assms(3) paths_safe_next[OF _ nm] by (simp_all add: task_safe_def)
  have t: "task_safe root (goto ph (t\<lparr>tk_inbox := i\<rparr>))" "task_safe root (t\<lparr>tk_inbox := i\<rparr>)" "task_safe root (goto ph (t\<lparr>tk_inbox := i, tk_moment := m\<rparr>))"
    if "phase_safe root ph" for ph m
    using s(1,2) that assms(5) by (simp_all add: task_safe_def)
  show ?thesis
  proof (cases r)
    case (Inl e)
    then show ?thesis using assms(4) nm stays_refl[OF assms(1)] s(1,2) by (auto simp: step_message_def task_safe_def)
  next
    case (Inr m)
    show ?thesis
    proof (cases m)
      case (TransferBeginMsg tid entry sz n)
      then have "safe_path (fe_path entry)" using s(3)[OF Inr] by simp
      then show ?thesis using assms(4) nm Inr TransferBeginMsg stays_refl[OF assms(1)] t(3)[of "Collecting tid entry (nat n) []"]
        by (auto simp: step_message_def step_begin_def linkfree_resolve[OF assms(1,2)])
    next
      case (FileDeleteMsg p ts)
      then have "safe_path p" using s(3)[OF Inr] by simp
      from delete_stays[OF assms(1,2) this, of T ?cf] handlers_keep_indexes(2)[of ?cf ss p sv] show ?thesis
        using assms(4) nm Inr FileDeleteMsg t[of "Over _"]
        by (auto simp: step_message_def after_handler_def split: sum.splits)
    next
      case (FileRenameMsg p q ts)
      then have "safe_path p" "safe_path q" using s(3)[OF Inr] by simp_all
      from rename_stays[OF assms(1,2) this, of T ?cf] handlers_keep_indexes(3)[of ?cf ss p q sv] show ?thesis
        using assms(4) nm Inr FileRenameMsg t[of "Over _"]
        by (auto simp: step_message_def after_handler_def split: sum.splits)
    qed (use assms(4) nm Inr stays_refl[OF assms(1)] t(2)[of AwaitMsg] in \<open>auto simp: step_message_def\<close>)
  qed
qed

text \<open>After the scan the task stops, refuses, or starts to write.\<close>

lemma scan_cases [consumes 2, case_names stop refuse go]:
  assumes "resolve (cf_fuel cf) (sv_fs sv) (ss_jail ss) (fe_path entry) = Inr dest" "kernel_path (cf_fuel cf) (sv_fs sv) dest = Some dest"
  obtains (stop) e where "step_scan cf ss tid entry content t sv = (goto (Over e) t, sv)"
  | (refuse) ev ms where "step_scan cf ss tid entry content t sv = (reply cf ms t, log_audit ev sv)" "audit_silo ev = Some (ss_silo_id ss)"
  | (go) scan fs1 where "parents_made (cf_env cf) (sv_fs sv) dest = Some fs1"
      "step_scan cf ss tid entry content t sv = (goto (Writing tid entry scan dest (write_stages (cf_env cf) content entry)) t, sv\<lparr>sv_fs := fs1\<rparr>)"
proof (cases "server_scan cf content")
  case (Inl e)
  show thesis by (rule stop[where e = "ExcScan e"]) (simp_all add: step_scan_def Inl)
next
  case (Inr scan)
  consider "\<not> sc_is_clean scan" | "sc_is_clean scan" "\<not> owner_ok cf ss entry" | "sc_is_clean scan" "owner_ok cf ss entry" by blast
  then show thesis
  proof cases
    case 1
    then show ?thesis by (intro refuse[where ev = "Quarantine (ss_client_cn ss) (ss_silo_id ss) (fe_path entry)" and ms = "[TransferNackMsg tid ''quarantine'']"]) (simp_all add: step_scan_def Inr)
  next
    case 2
    then show ?thesis by (intro refuse[where ev = "UidDeniedEvent (ss_client_cn ss) (ss_silo_id ss)" and ms = "[TransferNackMsg tid ''uid_denied'']"]) (auto simp: step_scan_def Inr owner_ok_def)
  next
    case 3
    show ?thesis
    proof (cases "parents_made (cf_env cf) (sv_fs sv) dest")
      case None
      with 3 show ?thesis
        by (intro stop[where e = ExcOSError]) (simp_all add: step_scan_def Inr assms owner_ok_def write_raised_def flip: parents_made_def)
    next
      case (Some fs1)
      with 3 show ?thesis by (intro go[where scan = scan and ?fs1.0 = fs1]) (simp_all add: step_scan_def Inr assms owner_ok_def flip: parents_made_def)
    qed
  qed
qed

lemma scan_stays:
  assumes "linkfree root (sv_fs sv)" "root_of ss = root" "task_safe root t" "safe_path (fe_path entry)"
    and out: "step_scan cf ss tid entry content t sv = (t', sv')"
  shows "stays root T (ss_silo_id ss) sv sv' \<and> task_safe root t' \<and> sv_indexes sv' = sv_indexes sv"
  using linkfree_resolve[OF assms(1,2,4), of "cf_fuel cf"] linkfree_kernel(1)[OF assms(1,4), of "cf_fuel cf"]
proof (cases rule: scan_cases[where tid = tid and content = content and t = t])
  case (stop e)
  then show ?thesis using stays_refl[OF assms(1)] assms(3) out by (auto simp: task_safe_def)
next
  case (refuse ev ms)
  then show ?thesis using stays_log[OF assms(1), of ev] assms(3) reply_safe[of t root cf] out by (auto simp: task_safe_def[of root t])
next
  case (go scan fs1)
  have "stays root T (ss_silo_id ss) sv (sv\<lparr>sv_fs := fs1\<rparr>)"
    using parents_made_linkfree[OF assms(1) go(1)] parents_below[OF assms(1) go(1)] by (auto simp: stays_def intro: footprint_fs)
  then show ?thesis using go(2) assms(3) out by (auto simp: task_safe_def)
qed

lemma write_safe_task:
  assumes "task_safe root t" "prefix root dest"
  shows "task_safe root (fst (step_write cf ss tid entry scan dest stages t sv))"
proof -
  have s: "paths_safe (tk_inbox t)" "index_safe (tk_index t)" using assms(1) by (simp_all add: task_safe_def)
  have "task_safe root (goto (Writing tid entry scan dest rest) t)" for rest using s assms(2) by (simp add: task_safe_def)
  then show ?thesis using reply_safe[OF s] raised_safe[OF s] by (cases stages) (auto simp: step_write_def Let_def split: prod.split)
qed

lemma write_indexes: "sv_indexes (snd (step_write cf ss tid entry scan dest stages t sv)) = sv_indexes sv"
  by (cases stages) (auto simp: step_write_def Let_def split: prod.split)

lemma start_stays:
  assumes "linkfree root (sv_fs sv)" "task_safe root t" "stored_safe (ss_silo_id ss) sv" "step_start ss t sv = (t', sv')"
  shows "stays root T (ss_silo_id ss) sv sv' \<and> task_safe root t' \<and> stored_safe (ss_silo_id ss) sv'"
  using assms by (auto simp: step_start_def stays_def footprint_def task_safe_def stored_safe_def Let_def split: option.splits)

text \<open>A step keeps what it relies on and changes nothing outside its silo but the temporary files beside its root.\<close>

definition tmps_beside :: "path \<Rightarrow> config \<Rightarrow> path set" where
  "tmps_beside root cf = range (\<lambda>n. tmp_path root (mo_tmp_hex (cf_later cf n)))"

lemma session_step_stays:
  assumes "linkfree root (sv_fs sv)" "root_of ss = root" "task_safe root t" "stored_safe (ss_silo_id ss) sv"
    and "session_step cf ss (t, sv) = (t', sv')"
  shows "stays root (tmps_beside root cf) (ss_silo_id ss) sv sv' \<and> task_safe root t' \<and> stored_safe (ss_silo_id ss) sv'"
proof (cases "tk_phase t")
  case Starting
  then show ?thesis using start_stays[OF assms(1,3,4)] assms(5) by (simp add: session_step_def)
next
  case AwaitMsg
  then show ?thesis using message_stays[OF assms(1-3)] assms(4,5) by (simp add: session_step_def stored_safe_def)
next
  case (Scanning tid entry content)
  then have "safe_path (fe_path entry)" using assms(3) by (simp add: task_safe_def)
  from scan_stays[OF assms(1-3) this] Scanning assms(4,5) show ?thesis by (simp add: session_step_def stored_safe_def)
next
  case (Writing tid entry scan dest stages)
  let ?cf = "at_message cf (tk_moment t)"
  have beside: "tmp_path root (cf_tmp_hex ?cf) \<in> tmps_beside root cf" by (simp add: tmps_beside_def)
  from Writing have pre: "prefix root dest" using assms(3) by (simp add: task_safe_def)
  then obtain q where q: "dest = root @ q" by (auto simp: prefix_def)
  have st: "step_write ?cf ss tid entry scan dest stages t sv = (t', sv')" using Writing assms(5) by (simp add: session_step_def)
  show ?thesis
    using write_safe_task[OF assms(3) pre, of ?cf ss tid entry scan stages sv] write_stays[OF assms(1) q beside, of ss tid entry scan stages t]
      write_indexes[of ?cf ss tid entry scan dest stages t sv] assms(4) unfolding st by (simp add: stored_safe_def)
qed (use assms(1,3,4,5) quiet_steps_safe[OF assms(3)] stays_refl[OF assms(1)] in \<open>auto simp: session_step_def task_safe_def\<close>)

section \<open>A step depends on its view only\<close>

definition same_step :: "path \<Rightarrow> uuid \<Rightarrow> task \<times> server \<Rightarrow> task \<times> server \<Rightarrow> bool" where
  "same_step root sid x y \<longleftrightarrow> fst x = fst y \<and> silo_view root sid (snd x) = silo_view root sid (snd y)"

lemma parents_made_agree:
  "agree root fs fs2 \<Longrightarrow> rel_option (agree root) (parents_made env fs (root @ ps)) (parents_made env fs2 (root @ ps))"
  using mkdirs_agree_dest[of root fs fs2 ps] by (simp add: parents_made_def)

lemma delete_view:
  assumes "linkfree root (sv_fs sv)" "linkfree root (sv_fs sv2)" "root_of ss = root" "safe_path p"
    and "silo_view root (ss_silo_id ss) sv = silo_view root (ss_silo_id ss) sv2"
    and "handle_delete cf ss p sv = (r, sv')" "handle_delete cf ss p sv2 = (r2, sv2')"
  shows "r = r2 \<and> silo_view root (ss_silo_id ss) sv' = silo_view root (ss_silo_id ss) sv2'"
  using unlink_agree[of root "sv_fs sv" "sv_fs sv2" "cf_env cf" "path_parts p"] assms(5-7)
  by (auto simp: silo_view_eq silo_audit_def handle_delete_linkfree[OF assms(1,3,4)] handle_delete_linkfree[OF assms(2,3,4)] elim!: option.rel_cases)

lemma rename_view:
  assumes "linkfree root (sv_fs sv)" "linkfree root (sv_fs sv2)" "root_of ss = root" "safe_path p" "safe_path q"
    and "silo_view root (ss_silo_id ss) sv = silo_view root (ss_silo_id ss) sv2"
    and "handle_rename cf ss p q sv = (r, sv')" "handle_rename cf ss p q sv2 = (r2, sv2')"
  shows "r = r2 \<and> silo_view root (ss_silo_id ss) sv' = silo_view root (ss_silo_id ss) sv2'"
proof -
  note h = handle_rename_linkfree[OF assms(1,3-5)] handle_rename_linkfree[OF assms(2-5)]
  have ag: "agree root (sv_fs sv) (sv_fs sv2)" using assms(6) by (simp add: silo_view_eq)
  show ?thesis using parents_made_agree[OF ag, of "cf_env cf" "path_parts q"]
  proof (cases rule: option.rel_cases)
    case (Some f1 f2)
    from os_rename_agree[OF Some(3), of "cf_env cf" "path_parts p" "path_parts q"] show ?thesis
      using assms(6-8) Some by (auto simp: silo_view_eq silo_audit_def h elim!: option.rel_cases)
  qed (use assms(6-8) in \<open>auto simp: silo_view_eq silo_audit_def h\<close>)
qed

lemma message_view:
  assumes "linkfree root (sv_fs sv)" "linkfree root (sv_fs sv2)" "root_of ss = root" "task_safe root t"
    and "silo_view root (ss_silo_id ss) sv = silo_view root (ss_silo_id ss) sv2"
  shows "same_step root (ss_silo_id ss) (step_message cf ss t sv) (step_message cf ss t sv2)"
proof -
  obtain r i where nm: "next_msg (tk_inbox t) = (r, i)" by fastforce
  let ?cf = "at_message cf (length i)"
  have s: "r = Inr m \<Longrightarrow> list_all safe_path (msg_paths m)" for m
    using assms(4) paths_safe_next(2)[OF _ nm] by (simp add: task_safe_def)
  show ?thesis
  proof (cases r)
    case (Inl e)
    then show ?thesis using assms(5) nm by (simp add: step_message_def same_step_def)
  next
    case (Inr m)
    show ?thesis
    proof (cases m)
      case (TransferBeginMsg tid entry sz n)
      then have "safe_path (fe_path entry)" using s[OF Inr] by simp
      then show ?thesis using assms(5) nm Inr TransferBeginMsg
        by (simp add: step_message_def step_begin_def same_step_def linkfree_resolve[OF assms(1,3)] linkfree_resolve[OF assms(2,3)])
    next
      case (FileDeleteMsg p ts)
      then have p: "safe_path p" using s[OF Inr] by simp
      obtain r1 sv1 r2 sv3 where h: "handle_delete ?cf ss p sv = (r1, sv1)" "handle_delete ?cf ss p sv2 = (r2, sv3)" by (meson surj_pair)
      from delete_view[OF assms(1-3) p assms(5) h] show ?thesis
        using nm Inr FileDeleteMsg h by (auto simp: step_message_def after_handler_def same_step_def split: sum.split)
    next
      case (FileRenameMsg p q ts)
      then have p: "safe_path p" "safe_path q" using s[OF Inr] by simp_all
      obtain r1 sv1 r2 sv3 where h: "handle_rename ?cf ss p q sv = (r1, sv1)" "handle_rename ?cf ss p q sv2 = (r2, sv3)" by (meson surj_pair)
      from rename_view[OF assms(1-3) p assms(5) h] show ?thesis
        using nm Inr FileRenameMsg h by (auto simp: step_message_def after_handler_def same_step_def split: sum.split)
    qed (use assms(5) nm Inr in \<open>simp_all add: step_message_def same_step_def\<close>)
  qed
qed

lemma rebuild_view:
  assumes "linkfree root (sv_fs sv)" "linkfree root (sv_fs sv2)" "root_of ss = root" "index_safe ix" "agree root (sv_fs sv) (sv_fs sv2)"
  shows "rebuild cf sv ss ix entry payload = rebuild cf sv2 ss ix entry payload"
proof -
  have "read_base cf sv ss ix b = read_base cf sv2 ss ix b" for b
  proof (cases "\<exists>h p. b = Some h \<and> find_base h (ix_records ix) = Some p")
    case True
    then obtain h p where b: "b = Some h" "find_base h (ix_records ix) = Some p" by blast
    then have "safe_path p" using assms(4) find_base_in by (auto simp: index_safe_def)
    from linkfree_resolve[OF assms(1,3) this] linkfree_resolve[OF assms(2,3) this] linkfree_kernel(2)[OF assms(1) this] linkfree_kernel(2)[OF assms(2) this]
      b agree_under[OF assms(5)]
    show ?thesis by (simp add: read_base_def)
  qed (auto simp: read_base_def split: option.split)
  then show ?thesis by (simp add: rebuild_def)
qed

lemma collect_view:
  assumes "linkfree root (sv_fs sv)" "linkfree root (sv_fs sv2)" "root_of ss = root" "task_safe root t" "agree root (sv_fs sv) (sv_fs sv2)"
  shows "step_collect cf ss tid entry k chunks t sv = step_collect cf ss tid entry k chunks t sv2"
proof -
  have "rebuild cf sv ss (tk_index t) entry p = rebuild cf sv2 ss (tk_index t) entry p" for p
    using rebuild_view[OF assms(1-3) _ assms(5)] assms(4) by (simp add: task_safe_def)
  then have "step_commit cf ss tid entry chunks h (t\<lparr>tk_inbox := i\<rparr>) sv = step_commit cf ss tid entry chunks h (t\<lparr>tk_inbox := i\<rparr>) sv2" for h i
    by (simp add: step_commit_def)
  then show ?thesis unfolding step_collect_def by presburger
qed

lemma scan_view:
  assumes "linkfree root (sv_fs sv)" "linkfree root (sv_fs sv2)" "root_of ss = root" "safe_path (fe_path entry)"
    and "silo_view root (ss_silo_id ss) sv = silo_view root (ss_silo_id ss) sv2"
  shows "same_step root (ss_silo_id ss) (step_scan cf ss tid entry content t sv) (step_scan cf ss tid entry content t sv2)"
proof -
  have ag: "agree root (sv_fs sv) (sv_fs sv2)" using assms(5) by (simp add: silo_view_eq)
  note res = linkfree_resolve[OF assms(1,3,4)] linkfree_resolve[OF assms(2,3,4)] linkfree_kernel(1)[OF assms(1,4)] linkfree_kernel(1)[OF assms(2,4)]
  show ?thesis using parents_made_agree[OF ag, of "cf_env cf" "path_parts (fe_path entry)"] assms(5)
    by (cases rule: option.rel_cases)
      (auto simp: step_scan_def res same_step_def silo_view_eq silo_audit_def simp flip: parents_made_def split: sum.split)
qed

lemma write_view:
  assumes "linkfree root (sv_fs sv)" "linkfree root (sv_fs sv2)" "prefix root dest"
    and "silo_view root (ss_silo_id ss) sv = silo_view root (ss_silo_id ss) sv2"
  shows "same_step root (ss_silo_id ss) (step_write cf ss tid entry scan dest stages t sv) (step_write cf ss tid entry scan dest stages t sv2)"
proof -
  obtain q where q: "dest = root @ q" using assms(3) by (auto simp: prefix_def)
  have ag: "agree root (sv_fs sv) (sv_fs sv2)" using assms(4) by (simp add: silo_view_eq)
  have fl: "step_fails (cf_env cf) (sv_fs sv2) dest entry = step_fails (cf_env cf) (sv_fs sv) dest entry"
    using agree_under[OF ag, of q] by (simp add: step_fails_def q fun_eq_iff split: write_step.split)
  have cl: "fst (clean_up (cf_env cf) tmp err (sv_fs sv2)) = fst (clean_up (cf_env cf) tmp err (sv_fs sv))"
    "agree root (snd (clean_up (cf_env cf) tmp err (sv_fs sv))) (snd (clean_up (cf_env cf) tmp err (sv_fs sv2)))" for tmp err
    using ag agree_upd[OF ag] by (simp_all add: clean_up_def)
  have "sv_fs sv2 (tmp_path dest (cf_tmp_hex cf)) = sv_fs sv (tmp_path dest (cf_tmp_hex cf))" if "\<not> step_fails (cf_env cf) (sv_fs sv) dest entry WRename"
  proof -
    have "q \<noteq> []" using that linkfree_root[OF assms(1)] q by (auto simp: step_fails_def)
    from tmp_path_below[OF this, of root "cf_tmp_hex cf"] show ?thesis
      using agreeD[OF ag, of "tmp_path dest (cf_tmp_hex cf)"] q by (simp add: near_def strict_prefix_def)
  qed
  then show ?thesis using assms(4) fl agree_upd cl
    by (cases stages) (auto simp: step_write_def same_step_def silo_view_eq silo_audit_def Let_def case_prod_beta)
qed

lemma session_step_view:
  assumes "linkfree root (sv_fs sv)" "linkfree root (sv_fs sv2)" "root_of ss = root" "task_safe root t"
    and "silo_view root (ss_silo_id ss) sv = silo_view root (ss_silo_id ss) sv2"
  shows "same_step root (ss_silo_id ss) (session_step cf ss (t, sv)) (session_step cf ss (t, sv2))"
proof (cases "tk_phase t")
  case Starting
  then show ?thesis using assms(5)
    by (auto simp: session_step_def step_start_def same_step_def silo_view_eq silo_audit_def Let_def split: option.split)
next
  case AwaitMsg
  then show ?thesis using message_view[OF assms] by (simp add: session_step_def)
next
  case (Collecting tid entry k chunks)
  have "agree root (sv_fs sv) (sv_fs sv2)" using assms(5) by (simp add: silo_view_eq)
  from collect_view[OF assms(1-4) this] Collecting assms(5) show ?thesis by (simp add: session_step_def same_step_def)
next
  case (Scanning tid entry content)
  then show ?thesis using scan_view[OF assms(1-3) _ assms(5)] assms(4) by (simp add: session_step_def task_safe_def)
next
  case (Writing tid entry scan dest stages)
  then show ?thesis using write_view[OF assms(1,2) _ assms(5)] assms(4) by (simp add: session_step_def task_safe_def)
qed (use assms(5) in \<open>simp_all add: session_step_def same_step_def\<close>)

section \<open>Separation\<close>

text \<open>The silos are apart, no two sessions are of the same silo, and no temporary file beside a root is on the way to a silo.\<close>

definition jobs_ok :: "job list \<Rightarrow> bool" where
  "jobs_ok jobs \<longleftrightarrow>
     (\<forall>d < length jobs. job_root (jobs ! d) \<noteq> [] \<and>
        (\<forall>e < length jobs. (\<forall>n. \<not> near (job_root (jobs ! e)) (tmp_path (job_root (jobs ! d)) (mo_tmp_hex (jb_later (jobs ! d) n))))
          \<and> (d \<noteq> e \<longrightarrow> apart (job_root (jobs ! d)) (job_root (jobs ! e)) \<and> job_silo (jobs ! d) \<noteq> job_silo (jobs ! e))))"

definition job_inv :: "job \<Rightarrow> task \<Rightarrow> server \<Rightarrow> bool" where
  "job_inv j t sv \<longleftrightarrow> linkfree (job_root j) (sv_fs sv) \<and> task_safe (job_root j) t \<and> stored_safe (job_silo j) sv"

definition machine_inv :: "job list \<Rightarrow> task list \<times> server \<Rightarrow> bool" where
  "machine_inv jobs x \<longleftrightarrow> jobs_ok jobs \<and> length (fst x) = length jobs \<and> (\<forall>d < length jobs. job_inv (jobs ! d) (fst x ! d) (snd x))"

definition machine_view :: "job list \<Rightarrow> nat \<Rightarrow> task list \<times> server \<Rightarrow> task \<times> file_system \<times> SiloIndex option \<times> audit_event list" where
  "machine_view jobs d x = (fst x ! d, silo_view (job_root (jobs ! d)) (job_silo (jobs ! d)) (snd x))"

lemma apart_near: "apart a b \<Longrightarrow> prefix a p \<Longrightarrow> \<not> near b p"
  by (metis apart_def near_def prefix_order.trans prefix_same_cases)

text \<open>What stays in one silo is not seen from another.\<close>

lemma footprint_unseen:
  assumes "footprint root T sid sv sv'" "apart root root2" "\<And>tmp. tmp \<in> T \<Longrightarrow> \<not> near root2 tmp" "sid2 \<noteq> sid"
  shows "silo_view root2 sid2 sv' = silo_view root2 sid2 sv"
proof -
  have "sv_fs sv' p = sv_fs sv p" if "near root2 p" for p
    using assms(1,3) apart_near[OF assms(2), of p] that by (auto simp: footprint_def strict_prefix_def)
  moreover obtain evs where "sv_audit sv' = sv_audit sv @ evs" "list_all (\<lambda>ev. audit_silo ev = Some sid) evs"
    using assms(1) by (auto simp: footprint_def)
  ultimately show ?thesis
    using assms(1,4) by (auto simp: silo_view_eq agree_def footprint_def silo_audit_def list_all_iff filter_empty_conv)
qed

lemma linkfree_view: "linkfree root (sv_fs sv) \<Longrightarrow> silo_view root sid sv' = silo_view root sid sv \<Longrightarrow> linkfree root (sv_fs sv')"
  by (auto simp: silo_view_eq linkfree_def silo_ok_def agree_def near_def)

lemma stored_view: "stored_safe sid sv \<Longrightarrow> silo_view root sid sv' = silo_view root sid sv \<Longrightarrow> stored_safe sid sv'"
  by (simp add: silo_view_eq stored_safe_def)

lemma machine_step_stays:
  assumes "machine_inv jobs (ts, sv)" "d < length jobs" "machine_step cf jobs d (ts, sv) = (ts', sv')"
  shows "footprint (job_root (jobs ! d)) (tmps_beside (job_root (jobs ! d)) (job_config cf (jobs ! d))) (job_silo (jobs ! d)) sv sv'"
    "job_inv (jobs ! d) (ts' ! d) sv'" "ts' = ts[d := ts' ! d]" "length ts' = length ts"
proof -
  let ?j = "jobs ! d"
  obtain t where t: "session_step (job_config cf ?j) (jb_session ?j) (ts ! d, sv) = (t, sv')" "ts' = ts[d := t]"
    using assms(3) by (auto simp: machine_step_def split: prod.splits)
  have inv: "job_inv ?j (ts ! d) sv" "length ts = length jobs"
    using assms(1,2) by (auto simp: machine_inv_def)
  with session_step_stays[OF _ refl _ _ t(1)]
  have "stays (job_root ?j) (tmps_beside (job_root ?j) (job_config cf ?j)) (job_silo ?j) sv sv' \<and> task_safe (job_root ?j) t \<and> stored_safe (job_silo ?j) sv'"
    by (simp add: job_inv_def)
  then show "footprint (job_root ?j) (tmps_beside (job_root ?j) (job_config cf ?j)) (job_silo ?j) sv sv'"
    "job_inv ?j (ts' ! d) sv'" "ts' = ts[d := ts' ! d]" "length ts' = length ts"
    using t(2) inv(2) assms(2) by (simp_all add: stays_def job_inv_def)
qed

lemma machine_step_unseen:
  assumes "machine_inv jobs x" "d < length jobs" "e < length jobs" "d \<noteq> e"
  shows "machine_view jobs d (machine_step cf jobs e x) = machine_view jobs d x"
proof -
  obtain ts sv ts' sv' where x: "x = (ts, sv)" "machine_step cf jobs e (ts, sv) = (ts', sv')" by (metis surj_pair)
  note st = machine_step_stays[OF assms(1)[unfolded x(1)] assms(3) x(2)]
  have ok: "jobs_ok jobs" using assms(1) by (simp add: machine_inv_def)
  have "silo_view (job_root (jobs ! d)) (job_silo (jobs ! d)) sv' = silo_view (job_root (jobs ! d)) (job_silo (jobs ! d)) sv"
    by (rule footprint_unseen[OF st(1)]) (use ok assms(2-4) in \<open>auto simp: jobs_ok_def tmps_beside_def job_config_def\<close>)
  moreover have "ts' ! d = ts ! d" using st(3) assms(4) by (metis nth_list_update_neq)
  ultimately show ?thesis by (simp add: machine_view_def x)
qed

lemma machine_step_inv:
  assumes "machine_inv jobs x" "d < length jobs"
  shows "machine_inv jobs (machine_step cf jobs d x)"
proof -
  obtain ts sv ts' sv' where x: "x = (ts, sv)" "machine_step cf jobs d (ts, sv) = (ts', sv')" by (metis surj_pair)
  note st = machine_step_stays[OF assms(1)[unfolded x(1)] assms(2) x(2)]
  have "job_inv (jobs ! e) (ts' ! e) sv'" if e: "e < length jobs" for e
  proof (cases "e = d")
    case False
    with machine_step_unseen[OF assms(1) e assms(2), of cf]
    have "ts' ! e = ts ! e" "silo_view (job_root (jobs ! e)) (job_silo (jobs ! e)) sv' = silo_view (job_root (jobs ! e)) (job_silo (jobs ! e)) sv"
      by (simp_all add: machine_view_def x)
    moreover have "job_inv (jobs ! e) (ts ! e) sv" using assms(1) e by (simp add: machine_inv_def x(1))
    ultimately show ?thesis using linkfree_view stored_view by (auto simp: job_inv_def)
  qed (use st(2) in simp)
  then show ?thesis using assms(1) st(4) x by (simp add: machine_inv_def)
qed

lemma machine_step_local:
  assumes "machine_inv jobs x" "machine_inv jobs y" "d < length jobs" "machine_view jobs d x = machine_view jobs d y"
  shows "machine_view jobs d (machine_step cf jobs d x) = machine_view jobs d (machine_step cf jobs d y)"
proof -
  obtain ts sv ts2 sv2 where x: "x = (ts, sv)" "y = (ts2, sv2)" by (metis surj_pair)
  have eq: "ts2 ! d = ts ! d" "silo_view (job_root (jobs ! d)) (job_silo (jobs ! d)) sv = silo_view (job_root (jobs ! d)) (job_silo (jobs ! d)) sv2"
    using assms(4) by (simp_all add: machine_view_def x)
  have "same_step (job_root (jobs ! d)) (job_silo (jobs ! d)) (session_step (job_config cf (jobs ! d)) (jb_session (jobs ! d)) (ts ! d, sv))
      (session_step (job_config cf (jobs ! d)) (jb_session (jobs ! d)) (ts ! d, sv2))"
    by (rule session_step_view[OF _ _ refl _ eq(2)]) (use assms(1-3) in \<open>auto simp: machine_inv_def job_inv_def x\<close>)
  then show ?thesis
    using assms(1-3) by (auto simp: machine_step_def machine_view_def machine_inv_def same_step_def x eq(1) split: prod.splits)
qed

interpretation sessions: separated_machine "machine_step cf jobs" "machine_inv jobs" "\<lambda>d. d < length jobs" "machine_view jobs" for cf jobs
  by unfold_locales (rule machine_step_inv machine_step_local machine_step_unseen; assumption)+

section \<open>A session takes a bounded number of steps\<close>

fun phase_work :: "phase \<Rightarrow> nat" where
  "phase_work Starting = 3"
| "phase_work AwaitSync = 2"
| "phase_work AwaitMsg = 1"
| "phase_work (Draining tid k reason) = 2"
| "phase_work (Collecting tid entry k chunks) = 2"
| "phase_work (Scanning tid entry content) = 10"
| "phase_work (Writing tid entry scan dest stages) = 2 + length stages"
| "phase_work (Over e) = 0"

definition task_work :: "task \<Rightarrow> nat" where
  "task_work t = 9 * length (tk_inbox t) + phase_work (tk_phase t)"

lemma next_msg_work: "next_msg i = (r, j) \<Longrightarrow> length j \<le> length i \<and> (case r of Inl _ \<Rightarrow> True | Inr _ \<Rightarrow> length i = Suc (length j))"
  by (auto simp: next_msg_def split: list.splits sum.splits)

lemma reply_work [simp]: "phase_work (tk_phase (reply cf ms t)) = (if cf_send_fails cf (length (tk_sent t)) then 0 else 1)"
  by (simp add: reply_def)

lemma raised_work [simp]: "tk_inbox (write_raised cf tid err t) = tk_inbox t" "phase_work (tk_phase (write_raised cf tid err t)) < Suc (Suc n)"
  by (simp_all add: write_raised_def split: write_error.split jail_error.split)

lemma message_works: "tk_phase t = AwaitMsg \<Longrightarrow> task_work (fst (step_message cf ss t sv)) < task_work t"
proof -
  assume ph: "tk_phase t = AwaitMsg"
  obtain r i where nm: "next_msg (tk_inbox t) = (r, i)" by fastforce
  show ?thesis using ph next_msg_work[OF nm]
    by (auto simp: step_message_def step_begin_def after_handler_def task_work_def nm split: sum.split AnyMsg.split jail_error.split)
qed

lemma collect_works: "tk_phase t = Collecting tid entry k chunks \<Longrightarrow> task_work (step_collect cf ss tid entry k chunks t sv) < task_work t"
proof -
  assume ph: "tk_phase t = Collecting tid entry k chunks"
  obtain r i where nm: "next_msg (tk_inbox t) = (r, i)" by fastforce
  show ?thesis using ph next_msg_work[OF nm]
    by (cases k) (auto simp: step_collect_def step_commit_def task_work_def nm split: sum.split AnyMsg.split base_error.split)
qed

lemma drain_works: "tk_phase t = Draining tid k reason \<Longrightarrow> task_work (step_drain cf tid k reason t) < task_work t"
proof -
  assume ph: "tk_phase t = Draining tid k reason"
  obtain r i where nm: "next_msg (tk_inbox t) = (r, i)" by fastforce
  show ?thesis using ph next_msg_work[OF nm] by (cases k; cases r) (auto simp: step_drain_def task_work_def nm)
qed

lemma scan_works: "tk_phase t = Scanning tid entry content \<Longrightarrow> task_work (fst (step_scan cf ss tid entry content t sv)) < task_work t"
  using raised_work(2)[where n = 8]
  by (auto simp: step_scan_def task_work_def write_stages_def Let_def split: sum.split option.split)

lemma session_step_works: "\<nexists>e. tk_phase t = Over e \<Longrightarrow> task_work (fst (session_step cf ss (t, sv))) < task_work t"
proof (cases "tk_phase t")
  case Starting
  then show ?thesis by (auto simp: session_step_def step_start_def task_work_def Let_def split: option.split)
next
  case AwaitSync
  then show ?thesis by (auto simp: session_step_def step_sync_def task_work_def split: prod.split sum.split)
next
  case (Writing tid entry scan dest stages)
  then show ?thesis using raised_work(2)[where n = 0] raised_work(2)[where n = "Suc (length (tl stages))"]
    by (cases stages) (auto simp: session_step_def step_write_def task_work_def Let_def numeral_2_eq_2 numeral_3_eq_3 split: prod.split)
qed (simp_all add: session_step_def message_works collect_works drain_works scan_works)

lemma session_step_ended: "tk_phase t = Over e \<Longrightarrow> session_step cf ss (t, sv) = (t, sv)"
  by (simp add: session_step_def)

lemma ended_stays: "tk_phase t = Over e \<Longrightarrow> (session_step cf ss ^^ n) (t, sv) = (t, sv)"
  by (induction n) (simp_all add: session_step_ended)

lemma task_ends: "task_work t \<le> n \<Longrightarrow> \<exists>e. tk_phase (fst ((session_step cf ss ^^ n) (t, sv))) = Over e"
proof (induction n arbitrary: t sv)
  case 0
  then show ?case by (cases "tk_phase t") (simp_all add: task_work_def)
next
  case (Suc n)
  show ?case
  proof (cases "\<exists>e. tk_phase t = Over e")
    case True
    then obtain e where "tk_phase t = Over e" by blast
    from ended_stays[OF this, of "Suc n" cf ss sv] this show ?thesis by simp
  next
    case False
    obtain t' sv' where st: "session_step cf ss (t, sv) = (t', sv')" by fastforce
    then have "task_work t' < task_work t" using session_step_works[of t cf ss sv] False by auto
    then show ?thesis using Suc.IH[of t' sv'] Suc.prems st by (simp add: funpow_swap1)
  qed
qed

text \<open>So after that many steps a task on its own has done what the session does.\<close>

lemma session_after:
  assumes "ends cf ss (t, sv) (e, sent, sv')" "task_work t \<le> n"
  shows "\<exists>t'. (session_step cf ss ^^ n) (t, sv) = (t', sv') \<and> tk_phase t' = Over e \<and> tk_sent t' = sent"
proof -
  obtain m t' where m: "(session_step cf ss ^^ m) (t, sv) = (t', sv')" "tk_phase t' = Over e" "tk_sent t' = sent"
    using assms(1) by (auto simp: ends_def session_runs_def)
  obtain t2 sv2 e2 where n: "(session_step cf ss ^^ n) (t, sv) = (t2, sv2)" "tk_phase t2 = Over e2"
    using task_ends[OF assms(2), of cf ss sv] by (metis fst_conv surj_pair)
  have "(session_step cf ss ^^ (n + m)) (t, sv) = (t', sv')" using ended_stays[OF m(2)] by (simp add: funpow_add m(1))
  moreover have "(session_step cf ss ^^ (m + n)) (t, sv) = (t2, sv2)" using ended_stays[OF n(2)] by (simp add: funpow_add n(1))
  ultimately show ?thesis using n(1) m(2,3) by (simp add: add.commute)
qed

section \<open>Every interleaving\<close>

lemma machine_alone:
  "d < length ts \<Longrightarrow> (session_step (job_config cf (jobs ! d)) (jb_session (jobs ! d)) ^^ n) (ts ! d, sv) = (t, sv')
    \<Longrightarrow> (machine_step cf jobs d ^^ n) (ts, sv) = (ts[d := t], sv')"
proof (induction n arbitrary: t sv')
  case (Suc n)
  obtain t1 sv1 where n: "(session_step (job_config cf (jobs ! d)) (jb_session (jobs ! d)) ^^ n) (ts ! d, sv) = (t1, sv1)" by fastforce
  from Suc.IH[OF Suc.prems(1) n] Suc.prems n show ?case by (simp add: machine_step_def)
qed auto

definition start_ok :: "job list \<Rightarrow> inbox list \<Rightarrow> server \<Rightarrow> bool" where
  "start_ok jobs is sv \<longleftrightarrow> jobs_ok jobs \<and> length is = length jobs
     \<and> (\<forall>d < length jobs. linkfree (job_root (jobs ! d)) (sv_fs sv) \<and> stored_safe (job_silo (jobs ! d)) sv \<and> paths_safe (is ! d))"

lemma start_inv: "start_ok jobs is sv \<Longrightarrow> machine_inv jobs (map new_task is, sv)"
  by (simp add: start_ok_def machine_inv_def job_inv_def task_safe_def new_task_def)

text \<open>C4: concurrent sessions are served as if each were alone.  Let any number of sessions of different silos, whose roots are
  apart and hold no symbolic link, run at the same time with any valid messages that do not name a temporary file, whatever system calls and sends fail
  for each of them, and let the event loop
  interleave their steps in any order.  A session that got nine steps for every message and three more has ended, and
  then its exception, the messages its client was sent, the contents of its silo and the entries of the
  audit log about the silo, in their order, are those of the session served alone.\<close>

theorem concurrent_sessions_as_alone:
  assumes "start_ok jobs is sv" and "d < length jobs" and "cf' = job_config cf (jobs ! d)"
    and "inbox_avoids cf' (is ! d)"
    and "serve_session cf' (jb_session (jobs ! d)) (is ! d) sv = (e, sent, alone)"
    and "list_all (\<lambda>k. k < length jobs) schedule" and "9 * length (is ! d) + 3 \<le> count_list schedule d"
    and "fold (machine_step cf jobs) schedule (map new_task is, sv) = (ts, sv')"
  shows "tk_phase (ts ! d) = Over e \<and> tk_sent (ts ! d) = sent
    \<and> silo_tree (job_root (jobs ! d)) (sv_fs sv') = silo_tree (job_root (jobs ! d)) (sv_fs alone)
    \<and> silo_audit (job_silo (jobs ! d)) sv' = silo_audit (job_silo (jobs ! d)) alone"
proof -
  let ?n = "count_list schedule d"
  have len: "length is = length jobs" "linkfree (job_root (jobs ! d)) (sv_fs sv)" using assms(1,2) by (simp_all add: start_ok_def)
  have "ends cf' (jb_session (jobs ! d)) (new_task (is ! d), sv) (e, sent, alone)"
    using session_ends[OF len(2) refl assms(4)] assms(5) by simp
  moreover have "task_work (new_task (is ! d)) \<le> ?n" using assms(7) by (simp add: task_work_def new_task_def)
  ultimately obtain t where t: "(session_step cf' (jb_session (jobs ! d)) ^^ ?n) (new_task (is ! d), sv) = (t, alone)" "tk_phase t = Over e" "tk_sent t = sent"
    using session_after by blast
  have "(machine_step cf jobs d ^^ ?n) (map new_task is, sv) = ((map new_task is)[d := t], alone)"
    using machine_alone[where ts = "map new_task is" and cf = cf and jobs = jobs and d = d and n = ?n and sv = sv and t = t and sv' = alone] t(1) assms(2,3) len(1) by simp
  with sessions.interleaved_view[OF assms(2,6) start_inv[OF assms(1)] start_inv[OF assms(1)] refl, of cf]
  have "ts ! d = t" "silo_view (job_root (jobs ! d)) (job_silo (jobs ! d)) sv' = silo_view (job_root (jobs ! d)) (job_silo (jobs ! d)) alone"
    using assms(2) len(1) by (simp_all add: assms(8) machine_view_def)
  then show ?thesis using t(2,3) by (simp add: silo_view_eq agree_tree)
qed

definition two_jobs :: "job list" where
  "two_jobs =
     [\<lparr>jb_session = demo_session, jb_later = \<lambda>n. \<lparr>mo_env = demo_env, mo_tmp_hex = ''0f'', mo_clamd = None\<rparr>, jb_send_fails = \<lambda>n. False\<rparr>,
      \<lparr>jb_session = other_session, jb_later = \<lambda>n. \<lparr>mo_env = demo_env, mo_tmp_hex = ''1e'', mo_clamd = None\<rparr>, jb_send_fails = \<lambda>n. n = 1\<rparr>]"

definition two_inboxes :: "inbox list" where
  "two_inboxes = [[Inr SyncRequestMsg, Inr (FileDeleteMsg ''old'' 5)], [Inr SyncRequestMsg, Inr (FileDeleteMsg ''x'' 5)]]"

definition alternating :: "nat list" where
  "alternating = concat (replicate 21 [0, 1])"

lemma two_jobs_start: "start_ok two_jobs two_inboxes two_silos"
proof -
  have j: "d < length two_jobs \<longleftrightarrow> d = 0 \<or> d = 1" for d by (auto simp: two_jobs_def)
  have "jobs_ok two_jobs" unfolding jobs_ok_def j
    by (auto simp: two_jobs_def other_session_def demo_session_def near_def tmp_path_def apart_def prefix_Cons)
  moreover have "linkfree [''silo''] (sv_fs two_silos)" "linkfree [''other''] (sv_fs two_silos)"
    by (auto simp: linkfree_def silo_ok_def is_temp_def starts_with_def two_silos_def plain_fs_def prefix_Cons)
  ultimately show ?thesis unfolding start_ok_def j
    by (auto simp: two_jobs_def two_inboxes_def other_session_def demo_session_def stored_safe_def two_silos_def demo_server_def
        paths_safe_def safe_path_def)
qed

theorem concurrent_sessions_as_alone_witness:
  "\<exists>ts sv' e sent alone. fold (machine_step demo_config two_jobs) alternating (map new_task two_inboxes, two_silos) = (ts, sv')
     \<and> serve_session (job_config demo_config (two_jobs ! 0)) demo_session (two_inboxes ! 0) two_silos = (e, sent, alone)
     \<and> tk_phase (ts ! 0) = Over e \<and> tk_sent (ts ! 0) = sent
     \<and> silo_tree [''silo''] (sv_fs sv') = silo_tree [''silo''] (sv_fs alone) \<and> silo_audit 1 sv' = silo_audit 1 alone"
proof -
  let ?cf = "job_config demo_config (two_jobs ! 0)"
  have j: "jb_session (two_jobs ! 0) = demo_session" "0 < length two_jobs" "root_of demo_session = [''silo'']" "ss_silo_id demo_session = 1"
    by (simp_all add: two_jobs_def demo_session_def)
  have i: "inbox_avoids ?cf (two_inboxes ! 0)"
    by (auto simp: job_config_def two_jobs_def two_inboxes_def inbox_avoids_def avoids_def safe_path_def path_parts_def starts_with_def)
  have sch: "list_all (\<lambda>k. k < length two_jobs) alternating" "9 * length (two_inboxes ! 0) + 3 \<le> count_list alternating 0"
    by (simp_all add: alternating_def two_jobs_def two_inboxes_def numeral_eq_Suc)
  obtain ts sv' where run: "fold (machine_step demo_config two_jobs) alternating (map new_task two_inboxes, two_silos) = (ts, sv')" by fastforce
  obtain e sent alone where al: "serve_session ?cf (jb_session (two_jobs ! 0)) (two_inboxes ! 0) two_silos = (e, sent, alone)" by (metis prod_cases3)
  show ?thesis
    using concurrent_sessions_as_alone[OF two_jobs_start j(2) refl i al sch run] run al unfolding j by auto
qed

end
