(* ===== verification/Config.thy ===== *)
theory Config
  imports Policy Engine Watcher
begin

text \<open>
  \<^verbatim>\<open>silo/config.py\<close>: the configuration classes of a silo.  \<open>X_new\<close> is the instance with the default values;
  a keyword argument is a record update.  The conversion of YAML text to these classes is Pydantic's.  The
  defaults are compared with the constants the engine, the watcher and the policies use, since those do not
  read the configuration.
\<close>

section \<open>The classes\<close>

record AllowedClientConfig =
  ac_cn :: string
  ac_ops :: "OpType list"

record SandboxConfig =
  sc_max_reconstructed_size_mb :: int
  sc_scan_timeout_s :: int

text \<open>The threshold in hundredths.\<close>

record TransferConfig =
  tc_chunk_size_bytes :: int
  tc_delta_threshold :: int

record BurstConfig =
  bc_debounce_ms :: int
  bc_max_delay_ms :: int
  bc_max_dirty_files :: int

record IgnoreConfig =
  ic_blacklist_extra :: "string list"
  ic_whitelist :: "string list"

record SiloConfig =
  sf_id :: uuid
  sf_name :: string
  sf_server_root :: path
  sf_allowed_clients :: "AllowedClientConfig list"
  sf_uid_policy :: UidPolicyConfig
  sf_gid_policy :: GidPolicyConfig
  sf_sandbox :: SandboxConfig
  sf_transfer :: TransferConfig
  sf_burst :: BurstConfig
  sf_ignore :: IgnoreConfig

definition UidPolicyConfig_new :: UidPolicyConfig where
  "UidPolicyConfig_new = \<lparr>uc_map = [], uc_default = ''nobody'', uc_deny = []\<rparr>"

definition GidPolicyConfig_new :: GidPolicyConfig where
  "GidPolicyConfig_new = \<lparr>gc_map = [], gc_default = ''nogroup'', gc_deny = []\<rparr>"

definition AllowedClientConfig_new :: "string \<Rightarrow> AllowedClientConfig" where
  "AllowedClientConfig_new cn = \<lparr>ac_cn = cn, ac_ops = [READ, WRITE, DELETE, RENAME]\<rparr>"

definition SandboxConfig_new :: SandboxConfig where
  "SandboxConfig_new = \<lparr>sc_max_reconstructed_size_mb = 256, sc_scan_timeout_s = 30\<rparr>"

definition TransferConfig_new :: TransferConfig where
  "TransferConfig_new = \<lparr>tc_chunk_size_bytes = 262144, tc_delta_threshold = 80\<rparr>"

definition BurstConfig_new :: BurstConfig where
  "BurstConfig_new = \<lparr>bc_debounce_ms = 200, bc_max_delay_ms = 1500, bc_max_dirty_files = 50\<rparr>"

definition IgnoreConfig_new :: IgnoreConfig where
  "IgnoreConfig_new = \<lparr>ic_blacklist_extra = [], ic_whitelist = []\<rparr>"

definition SiloConfig_new :: "uuid \<Rightarrow> string \<Rightarrow> path \<Rightarrow> SiloConfig" where
  "SiloConfig_new sid name root =
     \<lparr>sf_id = sid, sf_name = name, sf_server_root = root, sf_allowed_clients = [],
      sf_uid_policy = UidPolicyConfig_new, sf_gid_policy = GidPolicyConfig_new, sf_sandbox = SandboxConfig_new,
      sf_transfer = TransferConfig_new, sf_burst = BurstConfig_new, sf_ignore = IgnoreConfig_new\<rparr>"

text \<open>\<^verbatim>\<open>SiloWatcher.__init__\<close> with the defaults of \<^verbatim>\<open>sync/watcher.py\<close>.\<close>

definition SiloWatcher_defaults :: "path \<Rightarrow> (string \<Rightarrow> bool) \<Rightarrow> watch_config" where
  "SiloWatcher_defaults root spec =
     \<lparr>wc_root = root, wc_spec = spec, wc_debounce = 200, wc_max_delay = 1500, wc_max_dirty_files = 50\<rparr>"

section \<open>What the configuration promises\<close>

text \<open>the program behaves as a silo with the default configuration promises: chunks have at most the
  configured size, a delta is sent exactly when it is within the configured share of the content, the
  watcher has the configured times and limit, and an owner that is on no deny list becomes
  \<^verbatim>\<open>nobody\<close> and \<^verbatim>\<open>nogroup\<close>, which must exist and not be account zero.\<close>

theorem default_config_honoured:
  assumes "cfg = SiloConfig_new sid name root" and "c \<in> set (split_chunks payload)"
  shows "int (length c) \<le> tc_chunk_size_bytes (sf_transfer cfg)"
    and "below_threshold d n \<longleftrightarrow> 100 * int d \<le> tc_delta_threshold (sf_transfer cfg) * int (max n 1)"
    and "wc_debounce (SiloWatcher_defaults r s) = bc_debounce_ms (sf_burst cfg)
       \<and> wc_max_delay (SiloWatcher_defaults r s) = bc_max_delay_ms (sf_burst cfg)
       \<and> wc_max_dirty_files (SiloWatcher_defaults r s) = bc_max_dirty_files (sf_burst cfg)"
    and "resolve_uid pwd user (uid_to_policy (sf_uid_policy cfg))
       = (if user \<in> set DENIED_UID_NAMES then Inl (UidDenied user) else lookup_uid_safe pwd ''nobody'')"
    and "resolve_gid grp gname (gid_to_policy (sf_gid_policy cfg))
       = (if gname \<in> set DENIED_GID_NAMES then Inl (GidDenied gname) else lookup_gid_safe grp ''nogroup'')"
proof -
  show "int (length c) \<le> tc_chunk_size_bytes (sf_transfer cfg)"
    using split_chunks_correct[of payload] assms by (simp add: SiloConfig_new_def TransferConfig_new_def CHUNK_SIZE_def)
  show "below_threshold d n \<longleftrightarrow> 100 * int d \<le> tc_delta_threshold (sf_transfer cfg) * int (max n 1)"
    using assms(1) by (auto simp: below_threshold_def SiloConfig_new_def TransferConfig_new_def)
qed (simp_all add: assms(1) SiloConfig_new_def BurstConfig_new_def SiloWatcher_defaults_def resolve_uid_def resolve_gid_def
    check_denied_uid_def check_denied_gid_def uid_to_policy_def gid_to_policy_def UidPolicyConfig_new_def GidPolicyConfig_new_def)

end
