(* ===== verification/Spec2Isabelle.thy ===== *)
theory Spec2Isabelle
  imports Handles Session_State Path_Locks Server_Safety Client Http_Sse Cli Tmpfs Rapidhash Index_Types
    Store_Refinement Watch_Sync Concurrent_Sessions Config
begin

text \<open>
  \<^bold>\<open>Chiralite.\<close>  A daemon that keeps directories ("silos") of a client and a server in step, in real time
  and in both directions.  The client watches a directory, keeps an index of its files, and sends every
  change over an authenticated and encrypted connection; the server checks, scans and stores it.  This
  library is a shallow embedding of the Python package \<^verbatim>\<open>src/chiralite\<close>: every theory below names the file
  it models, keeps the names of its functions, and turns every raise and early return into a value.

  \<^bold>\<open>How the parts work together.\<close>  A connection starts in plain mode (\<^verbatim>\<open>protocol/framing.py\<close>) over a
  WebSocket or over HTTP and server-sent events.  The handshake (\<^verbatim>\<open>crypto/handshake.py\<close>) authenticates both
  sides by certificates and derives a session key from ephemeral keys; the payload codec then encrypts every
  frame.  The client asks for the server's index, sends what the server lacks (\<^verbatim>\<open>sync/reconciler.py\<close>) and
  after that what the watcher reports (\<^verbatim>\<open>sync/watcher.py\<close>), one transfer per path at a time
  (\<^verbatim>\<open>sync/engine.py\<close>).  The server's handlers (\<^verbatim>\<open>server.py\<close>) confine the path to the silo, rebuild the content
  from chunks and deltas, check its hash, scan it, map its owner and store it atomically.

  \<^bold>\<open>Theories and sources.\<close>

  \<^item> \<open>Prelude\<close>: bytes, fixed-width big-endian integers, dictionaries as association lists, results as sums,
    and the interfaces the stateful components interpret: \<open>kv_store\<close>, \<open>guarded_machine\<close> and its special case
    \<open>invariant_machine\<close>, \<open>threshold_machine\<close>, \<open>terminating_machine\<close> for steps that can be disabled, and
    \<open>separated_machine\<close> for domains that share a state.
  \<^item> \<open>Messages\<close> (\<^verbatim>\<open>protocol/messages.py\<close>): the message types, every field constraint and validator.
    \<open>Base64\<close>: the text form of byte fields, also used by the event stream.  \<open>Json\<close>: \<^verbatim>\<open>json.dumps\<close> and
    \<^verbatim>\<open>json.loads\<close> character by character, with their round trip, for the journal and the audit log.
  \<^item> \<open>Silo_Index\<close> (\<^verbatim>\<open>sync/index.py\<close>): the index of a silo, its events, the diff.  The newest write of a
    path wins over older writes and deletions; a deletion does not win over older writes that come later.  Indexes that
    have seen the same writes agree in whatever order they came.  \<open>Index_Types\<close>: the field types of the messages as an invariant of
    the index.
  \<^item> \<open>Journal\<close> (\<^verbatim>\<open>sync/journal.py\<close>): appending, checkpoint and reopening, as the disk states a crash can expose.
    \<open>Handles\<close>: the open file of the journal and of the audit log, and what happens after it was closed.
  \<^item> \<open>Payload_Codec\<close> (\<^verbatim>\<open>crypto/payload.py\<close>, \<^verbatim>\<open>crypto/http_payload.py\<close>): sequence numbers, nonces, the
    cache of seen nonces.  \<open>Framing\<close> (\<^verbatim>\<open>protocol/framing.py\<close>): the framed connection in its two modes.
    \<open>Session_State\<close> (\<^verbatim>\<open>protocol/state_machine.py\<close>).
  \<^item> \<open>Jail\<close> (\<^verbatim>\<open>fs/jail.py\<close>): path resolution over a file system with symbolic links.  \<open>Writer\<close>
    (\<^verbatim>\<open>filesystem/writer.py\<close>, \<^verbatim>\<open>fs/permissions.py\<close>): the stages of an atomic write, each of which can fail
    or be the last before a crash, and the cleaning up, which can fail too.  System calls act where the kernel's walk
    along the path ends (\<open>kernel_path\<close>), so they follow links the jail lets through.
  \<^item> \<open>Policy\<close> (\<^verbatim>\<open>trust/policy.py\<close>, \<^verbatim>\<open>silo/config.py\<close>, \<^verbatim>\<open>silo/session.py\<close>, \<^verbatim>\<open>silo/registry.py\<close>): access
    policies, owners, sessions.  \<open>Rate_Limit\<close> (\<^verbatim>\<open>security/ratelimit.py\<close>): the sliding window.
  \<^item> \<open>Engine\<close> (\<^verbatim>\<open>sync/engine.py\<close>, \<^verbatim>\<open>delta.py\<close>): payload choice, chunks, the messages of each operation.
    \<open>Path_Locks\<close> (\<^verbatim>\<open>sync/engine.py\<close>): the locks of the engine as an interleaving of any number of operations.
  \<^item> \<open>Clamav\<close> (\<^verbatim>\<open>sandbox/clamav.py\<close>), \<open>Reconciler\<close> (\<^verbatim>\<open>sync/reconciler.py\<close>).
  \<^item> \<open>Server\<close> (\<^verbatim>\<open>server.py\<close>): all handlers of a session over one state of files, index and registry; which
    system calls fail, and the name of the next temporary file, may differ at every message (record \<open>moment\<close>), and every send may raise.
    \<open>Server_Safety\<close>: what holds of whole sessions, whatever messages the client sends.  \<open>Store_Refinement\<close>: a
    session as the implementation of an abstract store of files by path, whose behaviour on the messages is the
    inductive predicate \<open>spec_loop\<close>.  \<open>Silo_Isolation\<close>: the handlers look only at their silo and at the directories above it.
    \<open>Session_Tasks\<close>: a session as a coroutine, cut at its \<^verbatim>\<open>await\<close> points.  \<open>Concurrent_Sessions\<close>: any number of them interleaved,
    over the interface \<open>separated_machine\<close> of views and steps.
  \<^item> \<open>Handshake\<close> (\<^verbatim>\<open>crypto/certificates.py\<close>, \<^verbatim>\<open>crypto/session.py\<close>, \<^verbatim>\<open>trust/store.py\<close>,
    \<^verbatim>\<open>crypto/handshake.py\<close>): both sides of the handshake.  \<open>Connection\<close>: the server's use of it.
  \<^item> \<open>Watcher\<close> (\<^verbatim>\<open>sync/watcher.py\<close>): the debouncer, with timer threads and notifications interleaved.
    \<open>Websocket\<close> (\<^verbatim>\<open>transport/websocket.py\<close>): connecting with back-off.  \<open>Client\<close> (\<^verbatim>\<open>client.py\<close>): one cycle of
    a silo's task and the loop around it.  \<open>Watch_Sync\<close>: from notifications to valid messages.  \<open>Lifecycle\<close>
    (\<^verbatim>\<open>server.py\<close>, \<^verbatim>\<open>transport/websocket.py\<close>, \<^verbatim>\<open>client.py\<close>, \<^verbatim>\<open>sync/watcher.py\<close>): starting and stopping, over the
    sockets of the machine, with the interface \<open>scoped_resource\<close>.  \<open>Config\<close> (\<^verbatim>\<open>silo/config.py\<close>): the configuration classes.
  \<^item> \<open>Http_Sse\<close> (\<^verbatim>\<open>transport/http_sse.py\<close>): the fallback transport, over \<open>Base64\<close> and \<open>Hex\<close>.  \<open>Audit_Log\<close>
    (\<^verbatim>\<open>security/audit.py\<close>): the audit log, its rotation and its printing.  \<open>Cli\<close> (\<^verbatim>\<open>cli.py\<close>): the operator's
    commands; the certificates they issue are those the handshake checks.
  \<^item> \<open>Rapidhash\<close> (\<^verbatim>\<open>hash.py\<close>, \<^verbatim>\<open>vendor/rapidhash.h\<close>): the content hash on 64-bit words, the optional forms of
    its multiplication and loop, and the hash object.  \<open>Tmpfs\<close> (\<^verbatim>\<open>sandbox/tmpfs.py\<close>): the sandbox workspace.

  \<^bold>\<open>What is shown.\<close>  Of the parts: the newest write of a path wins in the index; journal, codec, framing, chunks,
  deltas, event stream and audit lines round-trip; the codec accepts exactly the peer's next frame, and of reordered
  and repeated frames only a prefix; a path the jail returns is inside it; a crash or a failing call leaves the old file or the new one; the locks
  exclude, do not deadlock, and every set of operations finishes; the debouncer forgets no written path and every pending path has a timer; rate
  limit and scan answers are characterised on every branch; both handshake sides are
  authentic and agree, and what \<open>keygen\<close> writes is an identity they accept; the hash reads only its buffer and
  its portable forms agree with the others; a workspace, a stopped server and a stopped watcher leave nothing
  behind but what the system refuses to remove.  Of their composition: no session changes anything outside its silo, also through the links in it; a session performs on the
  files what the messages ask for and acknowledges exactly what it stored, unless a send fails; sessions of other silos
  interleaved with it make no difference to what it answers, stores and logs; an acknowledged transfer was verified, scanned
  and stored; the messages of the engine make the server store the file;
  typed indexes reconcile without validation errors, and so does forwarding what the watcher reports.  The composition also shows where the program as wired does not do what its parts
  promise (the codec is never activated, granted operations are not checked, the owner of the policy is not
  used, no HTTP session opens, and others), each stated as a theorem about the same definitions.

  \<^bold>\<open>Parameters.\<close>  What is not in the repository is an argument: AES-GCM and the \<^verbatim>\<open>cryptography\<close> package
  (records \<open>aesgcm\<close>, \<open>crypto\<close>, \<open>pki\<close>), the JSON form Pydantic gives messages (record \<open>wire\<close>), xdelta3, the
  answer of the virus scanner, the YAML reader, account databases, ignore patterns, results of system
  calls and sends, clocks and random values.  Their documented laws are named hypotheses (decryption inverts
  encryption and accepts nothing else, a signature of the holder verifies, and so on), each with a concrete
  instance in a witness.

  \<^bold>\<open>Loops and bounds.\<close>  Loops over data are structural recursion.  The link expansion of \<^verbatim>\<open>realpath\<close> and
  the path walk of the jail use fuel, the kernel's bound on link expansions, and running out is the error the
  kernel reports.  The JSON reader has fuel for the length of the text, which is shown to be enough.
  The unbounded loop of the WebSocket retries is a partial function whose value \<open>None\<close> means that it
  never returns, and its results are proved as equalities.  Sequence numbers, hashes and lengths are kept at
  their width.  Strings have characters below 256.

  The server's theorems hold for every hash function; \<open>Rapidhash\<close> has the one that is used.

  \<^bold>\<open>Not modelled.\<close>  The build script of the C extension, the conversion of YAML to the configuration classes,
  argument parsing, log lines, and the variants of the hash that nothing calls.  The \<^verbatim>\<open>websockets\<close>, \<^verbatim>\<open>aiohttp\<close>, \<^verbatim>\<open>watchdog\<close>
  and \<^verbatim>\<open>ssl\<close> packages appear by the results of the calls the program makes.
\<close>

section \<open>Encrypted messages over the event stream\<close>

text \<open>The fallback transport carries the same messages: what the server sends framed with the codec of the HTTP
  sessions is written as base64 lines into the event stream; the client's reader, and then its framed connection,
  give back exactly the messages in order, as long as every event line is within the limit of the client library.\<close>

theorem http_session_roundtrip:
  assumes "send_all w ms a = (Inr u, a')" and "fc_codec a = Some (HttpCodec c)" and "hc_in_step c d"
    and "cn_sent (fc_conn a) = []" and "12 \<le> limit" "list_all (frame_fits limit) (cn_sent (fc_conn a'))"
    and "\<And>x. x \<in> set ms \<Longrightarrow> length (fst x) = NONCE_SIZE \<and> valid_msg (snd x) \<and> carries w (snd x)"
  shows "fst (recv_n w (length ms)
      \<lparr>fc_conn = \<lparr>cn_inbox = sse_reader limit (sse_stream (cn_sent (fc_conn a'))), cn_sent = []\<rparr>, fc_codec = Some (HttpCodec d)\<rparr>)
    = map (Inr \<circ> snd) ms"
  using assms by (intro send_recv_all[OF assms(1,2)]) (auto simp: channel_ok_def sse_reader_stream queued_all carries_def)

section \<open>Contents with the same hash\<close>

text \<open>C40: contents are identified by their hash alone, and contents with the same hash can be written down.
  If the content of a file on one side and the one on the other side have the same length and
  hold the same public eight bytes sixteen bytes before their ends, then the reconciliation does not send the file,
  whatever the other bytes are.\<close>

theorem colliding_edit_never_sent:
  assumes "ix_wf ix" and "diff ix (to_snapshot ix2) = Inr entries"
    and "dict_get (ix_records ix) p = Some r" and "rapidhash (u @ blinding_bytes i @ x) 0 = Inr (fr_rapidhash r)"
    and "dict_get (ix_records ix2) p = Some r2" and "rapidhash (v @ blinding_bytes i @ y) 0 = Inr (fr_rapidhash r2)"
    and "u \<noteq> []" "length v = length u" "length x = 8" "length y = 8" "i = (length u + 15) mod 112 + 1"
  shows "p \<notin> fe_path ` set entries"
proof -
  have "v \<noteq> []" "i = (length v + 15) mod 112 + 1" using assms(7,8,11) by auto
  then have "fr_rapidhash r = fr_rapidhash r2"
    using rapidhash_forced[OF assms(7,9,11)] rapidhash_forced[of v y i] assms(4,6,10) by simp
  moreover have "dict_get (to_snapshot ix2) p = Some (record_to_snapshot r2)"
    using assms(5) by (simp add: to_snapshot_def map_of_map)
  ultimately have "\<not> needs_send (to_snapshot ix2) p r"
    by (simp add: needs_send_def get_rapidhash_def record_to_snapshot_def)
  moreover have "live ix p = Some r' \<Longrightarrow> r' = r" for r'
    using assms(3) by (simp add: live_def split: if_splits)
  ultimately show ?thesis using diff_exact[OF assms(1,2)] by blast
qed

definition hash_record :: "nat \<Rightarrow> FileRecord" where
  "hash_record i =
     \<lparr>fr_rapidhash = uint (rapid_mix (rapid_secret ! 7) (rapid_secret ! 1 XOR word_of_nat i)), fr_size = 17, fr_mtime_s = 0,
      fr_mtime_ns = 0, fr_recv_ts_ns = 0, fr_mode = 0, fr_uid_name = ''a'', fr_gid_name = ''a'', fr_deleted = False\<rparr>"

definition hash_index :: SiloIndex where
  "hash_index = \<lparr>ix_silo_id = 0, ix_node_id = ''n'', ix_records = [(''f'', hash_record 17)]\<rparr>"

theorem colliding_edit_never_sent_witness:
  "\<exists>entries. diff hash_index (to_snapshot hash_index) = Inr entries \<and> ''f'' \<notin> fe_path ` set entries
    \<and> rapidhash ([1] @ blinding_bytes 17 @ replicate 8 2) 0 = Inr (fr_rapidhash (hash_record 17))
    \<and> rapidhash ([3] @ blinding_bytes 17 @ replicate 8 4) 0 = Inr (fr_rapidhash (hash_record 17))"
proof -
  have h: "rapidhash ([1] @ blinding_bytes 17 @ replicate 8 2) 0 = Inr (fr_rapidhash (hash_record 17))"
    "rapidhash ([3] @ blinding_bytes 17 @ replicate 8 4) 0 = Inr (fr_rapidhash (hash_record 17))"
    using rapidhash_forced[of "[1]" "replicate 8 2" 17] rapidhash_forced[of "[3]" "replicate 8 4" 17]
    by (simp_all add: hash_record_def)
  have d: "diff hash_index (to_snapshot hash_index) = Inr []"
    by (simp add: diff_def hash_index_def to_snapshot_def diff_one_def get_rapidhash_def record_to_snapshot_def)
  have wf: "ix_wf hash_index" and g: "dict_get (ix_records hash_index) ''f'' = Some (hash_record 17)"
    by (simp_all add: ix_wf_def hash_index_def dict_ok_def)
  from colliding_edit_never_sent[OF wf d g h(1) g h(2)] d h show ?thesis by auto
qed

end
